(* ===== verification/Prelude.thy ===== *)
theory Prelude
  imports Main "HOL-Library.Sublist" "HOL-Library.Product_Lexorder" "HOL-Library.List_Lexorder"
    "HOL-Library.Char_ord" "HOL-Library.Word"
begin

text \<open>
  Generic vocabulary shared by every component theory.

  \<^item> list operations that mirror the SQL statements of the store layer on one table kept as a list
    of rows: \<open>update_where\<close> (UPDATE ... WHERE), \<open>delete_where\<close> (DELETE ... WHERE) and
    \<open>upsert_by\<close> (INSERT ... ON CONFLICT(key) DO UPDATE);
  \<^item> \<open>cut_page\<close>, the "fetch limit+1 rows, cut, hand out a cursor" step every list
    operation of the store ends with, and the locale \<open>keyset\<close> of cursor pagination: a client that
    follows the cursors sees every row exactly once, provided the cursor column is the sort column;
  \<^item> the collections \<open>row_simps\<close> (behaviour of the list operations) and \<open>go_simps\<close>
    (unfolding of small Go helpers), which the component proofs pass to the simplifier.
\<close>

named_theorems row_simps \<open>rewrite rules for the table operations\<close>
named_theorems go_simps \<open>definitions of small Go helpers\<close>

section \<open>Sums\<close>

fun is_ok :: "'e + 'a \<Rightarrow> bool" where
  "is_ok (Inr _) = True"
| "is_ok (Inl _) = False"

lemma is_ok_iff: "is_ok r \<longleftrightarrow> (\<exists>x. r = Inr x)"
  by (cases r) auto

lemma pair_of_fst: "fst p = a \<Longrightarrow> p = (a, snd p)"
  by (cases p) simp

section \<open>Tables as lists of rows\<close>

definition update_where :: "('r \<Rightarrow> bool) \<Rightarrow> ('r \<Rightarrow> 'r) \<Rightarrow> 'r list \<Rightarrow> 'r list" where
  "update_where P f rs = map (\<lambda>r. if P r then f r else r) rs"

definition count_where :: "('r \<Rightarrow> bool) \<Rightarrow> 'r list \<Rightarrow> int" where
  "count_where P rs = int (length (filter P rs))"

definition delete_where :: "('r \<Rightarrow> bool) \<Rightarrow> 'r list \<Rightarrow> 'r list" where
  "delete_where P rs = filter (\<lambda>r. \<not> P r) rs"

text \<open>\<open>upsert_by key upd r\<close>: insert \<open>r\<close>, or apply \<open>upd\<close> to the row that has its key.\<close>

definition upsert_by :: "('r \<Rightarrow> 'k) \<Rightarrow> ('r \<Rightarrow> 'r) \<Rightarrow> 'r \<Rightarrow> 'r list \<Rightarrow> 'r list" where
  "upsert_by key upd r rs =
     (if \<exists>x \<in> set rs. key x = key r
      then update_where (\<lambda>x. key x = key r) upd rs
      else rs @ [r])"

definition lookup_by :: "('r \<Rightarrow> 'k) \<Rightarrow> 'k \<Rightarrow> 'r list \<Rightarrow> 'r option" where
  "lookup_by key k rs = find (\<lambda>r. key r = k) rs"

lemma set_update_where [row_simps]:
  "set (update_where P f rs) = f ` {r \<in> set rs. P r} \<union> {r \<in> set rs. \<not> P r}"
  by (auto simp: update_where_def)

lemma length_update_where [row_simps]: "length (update_where P f rs) = length rs"
  by (simp add: update_where_def)

lemma update_where_idle: "(\<And>r. r \<in> set rs \<Longrightarrow> \<not> P r) \<Longrightarrow> update_where P f rs = rs"
  by (auto simp: update_where_def intro: map_idI)

lemma update_where_fixed: "(\<And>r. r \<in> set rs \<Longrightarrow> P r \<Longrightarrow> f r = r) \<Longrightarrow> update_where P f rs = rs"
  by (auto simp: update_where_def intro: map_idI)

lemma map_key_update_where:
  "(\<And>r. key (f r) = key r) \<Longrightarrow> map key (update_where P f rs) = map key rs"
  by (simp add: update_where_def)

lemma set_delete_where [row_simps]: "set (delete_where P rs) = {r \<in> set rs. \<not> P r}"
  by (simp add: delete_where_def)

lemma count_where_eq_0 [row_simps]: "count_where P rs = 0 \<longleftrightarrow> (\<forall>r \<in> set rs. \<not> P r)"
  by (simp add: count_where_def filter_empty_conv)

lemma distinct_map_filter_key: "distinct (map key rs) \<Longrightarrow> distinct (map key (filter P rs))"
  by (rule distinct_map_filter)

lemma distinct_delete_where [row_simps]:
  "distinct (map key rs) \<Longrightarrow> distinct (map key (delete_where P rs))"
  by (simp add: delete_where_def distinct_map_filter)

lemma lookup_by_Some: "lookup_by key k rs = Some r \<Longrightarrow> r \<in> set rs \<and> key r = k"
  by (auto simp: lookup_by_def find_Some_iff)

lemma lookup_by_None: "lookup_by key k rs = None \<longleftrightarrow> (\<forall>r \<in> set rs. key r \<noteq> k)"
  by (auto simp: lookup_by_def find_None_iff)

lemma lookup_by_append [row_simps]:
  "lookup_by key k (rs @ qs) =
     (case lookup_by key k rs of Some r \<Rightarrow> Some r | None \<Rightarrow> lookup_by key k qs)"
  by (induction rs) (auto simp: lookup_by_def)

lemma lookup_by_Cons [row_simps]:
  "lookup_by key k (r # rs) = (if key r = k then Some r else lookup_by key k rs)"
  by (simp add: lookup_by_def)

lemma lookup_by_Nil [row_simps]: "lookup_by key k [] = None"
  by (simp add: lookup_by_def)

lemma lookup_by_update_where:
  "(\<And>r. key (f r) = key r) \<Longrightarrow>
   lookup_by key k (update_where P f rs) =
     map_option (\<lambda>r. if P r then f r else r) (lookup_by key k rs)"
  by (induction rs) (auto simp: lookup_by_def update_where_def)

lemma lookup_by_delete_where:
  assumes "distinct (map key rs)"
  shows "lookup_by key k (delete_where P rs) =
    (case lookup_by key k rs of Some r \<Rightarrow> if P r then None else Some r | None \<Rightarrow> None)"
  using assms
proof (induction rs)
  case Nil
  then show ?case by (simp add: lookup_by_def delete_where_def)
next
  case (Cons a rs)
  have "key a = k \<Longrightarrow> lookup_by key k rs = None"
    using Cons.prems by (simp add: lookup_by_None) (metis image_eqI)
  moreover have "delete_where P (a # rs) = (if P a then delete_where P rs else a # delete_where P rs)"
    by (simp add: delete_where_def)
  ultimately show ?case
    using Cons by (auto simp: lookup_by_Cons)
qed

lemma lookup_by_unique:
  "distinct (map key rs) \<Longrightarrow> r \<in> set rs \<Longrightarrow> lookup_by key (key r) rs = Some r"
  by (induction rs) (auto simp: lookup_by_def dest: image_eqI)

lemma distinct_upsert_by:
  assumes "distinct (map key rs)" and "\<And>x. key (upd x) = key x"
  shows "distinct (map key (upsert_by key upd r rs))"
  using assms by (auto simp: upsert_by_def map_key_update_where)

lemma set_upsert_by:
  "set (upsert_by key upd r rs) \<subseteq>
     insert r (set rs \<union> upd ` {x \<in> set rs. key x = key r})"
  by (auto simp: upsert_by_def row_simps)

lemma keys_update_where: "(\<And>r. key (f r) = key r) \<Longrightarrow> key ` set (update_where P f rs) = key ` set rs"
  by (metis map_key_update_where set_map)

lemma keys_upsert_by: "(\<And>x. key (upd x) = key x) \<Longrightarrow> key ` set (upsert_by key upd r rs) = insert (key r) (key ` set rs)"
  by (auto simp: upsert_by_def keys_update_where) (metis image_eqI)+

lemma ball_update_where:
  "(\<And>r. r \<in> set rs \<Longrightarrow> Q r) \<Longrightarrow> (\<And>r. r \<in> set rs \<Longrightarrow> P r \<Longrightarrow> Q r \<Longrightarrow> Q (f r)) \<Longrightarrow> \<forall>r \<in> set (update_where P f rs). Q r"
  by (auto simp: row_simps)

lemma ball_upsert_by:
  "(\<And>x. x \<in> set rs \<Longrightarrow> Q x) \<Longrightarrow> (\<And>x. x \<in> set rs \<Longrightarrow> Q x \<Longrightarrow> Q (upd x)) \<Longrightarrow> Q r \<Longrightarrow>
   \<forall>x \<in> set (upsert_by key upd r rs). Q x"
  by (auto simp: upsert_by_def row_simps)

lemma lookup_by_upsert_same:
  assumes "\<And>x. key (upd x) = key x"
  shows "lookup_by key (key r) (upsert_by key upd r rs) =
    (case lookup_by key (key r) rs of Some x \<Rightarrow> Some (upd x) | None \<Rightarrow> Some r)"
proof (cases "lookup_by key (key r) rs")
  case None
  then have "\<not> (\<exists>x \<in> set rs. key x = key r)"
    by (auto simp: lookup_by_None)
  then have "upsert_by key upd r rs = rs @ [r]" by (simp add: upsert_by_def)
  with None show ?thesis by (simp add: row_simps)
next
  case (Some x)
  then have x: "x \<in> set rs" "key x = key r"
    by (auto dest: lookup_by_Some)
  then have "\<exists>y \<in> set rs. key y = key r" by blast
  then have "upsert_by key upd r rs = update_where (\<lambda>y. key y = key r) upd rs"
    by (simp add: upsert_by_def)
  with Some x assms show ?thesis
    by (simp add: lookup_by_update_where)
qed

lemma lookup_by_upsert_other:
  assumes "\<And>x. key (upd x) = key x" and "k \<noteq> key r"
  shows "lookup_by key k (upsert_by key upd r rs) = lookup_by key k rs"
proof (cases "\<exists>x \<in> set rs. key x = key r")
  case False
  then show ?thesis using assms(2)
    by (simp add: upsert_by_def row_simps split: option.split)
next
  case True
  then have "upsert_by key upd r rs = update_where (\<lambda>y. key y = key r) upd rs"
    by (simp add: upsert_by_def)
  moreover have "key x = k" if "lookup_by key k rs = Some x" for x
    using that by (auto dest: lookup_by_Some)
  ultimately show ?thesis using assms
    by (cases "lookup_by key k rs") (simp_all add: lookup_by_update_where)
qed

lemma upsert_by_present:
  "k \<in> key ` set rs \<Longrightarrow> key r = k \<Longrightarrow> upsert_by key upd r rs = update_where (\<lambda>x. key x = k) upd rs"
  by (auto simp: upsert_by_def)

lemma update_where_idem: "(\<And>r. P r \<Longrightarrow> f (f r) = f r) \<Longrightarrow> update_where P f (update_where P f rs) = update_where P f rs"
  by (auto simp: update_where_def)

text \<open>Repeating an upsert, possibly with another candidate row of the same key, changes nothing.\<close>

lemma upsert_by_idem:
  assumes "\<And>x. key (upd x) = key x" and "\<And>x. upd (upd x) = upd x" and "upd r = r" and "key r' = key r"
  shows "upsert_by key upd r' (upsert_by key upd r rs) = upsert_by key upd r rs"
proof -
  let ?rs = "upsert_by key upd r rs"
  have "key r \<in> key ` set ?rs" using assms(1) by (simp add: keys_upsert_by)
  then have "upsert_by key upd r' ?rs = update_where (\<lambda>x. key x = key r) upd ?rs"
    using assms(4) by (rule upsert_by_present)
  also have "\<dots> = ?rs"
  proof (rule update_where_fixed)
    fix x assume "x \<in> set ?rs" "key x = key r"
    then show "upd x = x"
      using assms by (auto simp: upsert_by_def row_simps split: if_splits)
  qed
  finally show ?thesis .
qed

section \<open>Cursor pagination\<close>

text \<open>
  Every paged query of the store asks for \<open>limit + 1\<close> rows and then runs this code:
  when more than \<open>limit\<close> rows came back, the page is cut to \<open>limit\<close> and the cursor is
  read from the last row kept; otherwise the cursor is 0, "exhausted".
\<close>

definition cut_page :: "('r \<Rightarrow> int) \<Rightarrow> nat \<Rightarrow> 'r list \<Rightarrow> 'r list \<times> int" where
  "cut_page cur limit out =
     (if length out > limit then (take limit out, cur (out ! (limit - 1))) else (out, 0))"

text \<open>A client that follows the cursors from 0, with fuel for the number of calls.\<close>

fun follow_pages :: "nat \<Rightarrow> (int \<Rightarrow> 'r list \<times> int) \<Rightarrow> int \<Rightarrow> 'r list option" where
  "follow_pages 0 page c = None"
| "follow_pages (Suc fuel) page c =
     (case page c of (rs, next) \<Rightarrow>
        if next = 0 then Some rs
        else map_option (\<lambda>qs. rs @ qs) (follow_pages fuel page next))"

text \<open>
  The contract of a paged query in a state: \<open>rows\<close> is the full result in the order of the query, \<open>cur\<close>
  reads the cursor column and \<open>page\<close> is the query for one page. In a legal state (\<open>ok\<close>) the cursor
  column is the one the rows are strictly sorted by (descending), it is positive, and a page is the cut of the
  rows below the cursor.
\<close>

locale keyset =
  fixes ok :: "'s \<Rightarrow> bool" and rows :: "'s \<Rightarrow> 'r list" and cur :: "'r \<Rightarrow> int" and limit :: "'s \<Rightarrow> nat"
    and page :: "'s \<Rightarrow> int \<Rightarrow> 'r list \<times> int"
  assumes limit_pos: "0 < limit s"
    and descending: "ok s \<Longrightarrow> sorted_wrt (\<lambda>a b. cur b < cur a) (rows s)"
    and cur_pos: "ok s \<Longrightarrow> r \<in> set (rows s) \<Longrightarrow> 0 < cur r"
    and page_def: "page s c = cut_page cur (limit s) (take (limit s + 1) (filter (\<lambda>r. c > 0 \<longrightarrow> cur r < c) (rows s)))"
begin

lemma below_split:
  assumes "ok s" and "rows s = pre @ post" and "pre \<noteq> []"
  shows "filter (\<lambda>r. cur r < cur (last pre)) (rows s) = post"
proof -
  have "\<forall>r \<in> set pre. \<not> cur r < cur (last pre)"
  proof
    fix r assume "r \<in> set pre"
    from assms(3) obtain ps where ps: "pre = ps @ [last pre]"
      by (metis append_butlast_last_id)
    have "sorted_wrt (\<lambda>a b. cur b < cur a) pre"
      using descending[OF assms(1)] assms(2) by (simp add: sorted_wrt_append)
    with ps have *: "\<forall>a \<in> set ps. cur (last pre) < cur a"
      by (metis list.set_intros(1) sorted_wrt_append)
    from \<open>r \<in> set pre\<close> have "r \<in> set ps \<or> r = last pre"
      using ps by (metis Un_iff set_ConsD set_append empty_iff list.set(1))
    with * show "\<not> cur r < cur (last pre)" by auto
  qed
  moreover have "\<forall>r \<in> set post. cur r < cur (last pre)"
    using descending[OF assms(1)] assms by (auto simp: sorted_wrt_append)
  ultimately show ?thesis using assms(2) by simp
qed

text \<open>Started after any prefix already seen, the client gets exactly the remaining rows.\<close>

lemma follow_rest:
  assumes "ok s" and "rows s = pre @ post" and "length post < fuel"
    and "c = (if pre = [] then 0 else cur (last pre))"
  shows "follow_pages fuel (page s) c = Some post"
  using assms
proof (induction fuel arbitrary: pre post c)
  case 0
  then show ?case by simp
next
  case (Suc fuel)
  have rest: "filter (\<lambda>r. c > 0 \<longrightarrow> cur r < c) (rows s) = post"
  proof (cases "pre = []")
    case True
    with Suc.prems show ?thesis by (simp add: filter_id_conv)
  next
    case False
    then have "last pre \<in> set (rows s)" using Suc.prems(2) by simp
    then have "c > 0" using cur_pos Suc.prems(1,4) False by simp
    then have "filter (\<lambda>r. c > 0 \<longrightarrow> cur r < c) (rows s) = filter (\<lambda>r. cur r < cur (last pre)) (rows s)"
      using Suc.prems(4) False by simp
    with below_split[OF Suc.prems(1,2) False] show ?thesis by simp
  qed
  then have pg: "page s c = cut_page cur (limit s) (take (limit s + 1) post)"
    by (simp add: page_def)
  show ?case
  proof (cases "length post > limit s")
    case False
    then show ?thesis using pg by (simp add: cut_page_def)
  next
    case True
    let ?kept = "take (limit s) post"
    have lim: "0 < limit s" by (rule limit_pos)
    have ne: "?kept \<noteq> []" using lim True by auto
    have lastk: "last ?kept = post ! (limit s - 1)"
      using ne lim True by (simp add: last_conv_nth min_def)
    have mem: "post ! (limit s - 1) \<in> set (rows s)"
      using True lim Suc.prems(2) by simp
    have pc: "page s c = (?kept, cur (post ! (limit s - 1)))"
      using pg True lim by (simp add: cut_page_def min_def)
    have "follow_pages fuel (page s) (cur (post ! (limit s - 1))) = Some (drop (limit s) post)"
    proof (rule Suc.IH[OF Suc.prems(1)])
      show "rows s = (pre @ ?kept) @ drop (limit s) post" using Suc.prems(2) by simp
      show "length (drop (limit s) post) < fuel" using Suc.prems(3) True lim by simp
      show "cur (post ! (limit s - 1)) = (if pre @ ?kept = [] then 0 else cur (last (pre @ ?kept)))"
        using ne lastk by simp
    qed
    with pc cur_pos[OF Suc.prems(1) mem] show ?thesis by simp
  qed
qed

lemma follow_all: "ok s \<Longrightarrow> length (rows s) < fuel \<Longrightarrow> follow_pages fuel (page s) 0 = Some (rows s)"
  using follow_rest[of s "[]" "rows s" fuel 0] by simp

end

end
