(* ===== verification/GoText.thy ===== *)
theory GoText
  imports Prelude
begin

text \<open>
  The parts of Go's standard library the program computes with: byte strings and UTF-8
  (\<open>unicode/utf8\<close>), \<open>strings.TrimSpace\<close>, \<open>ToLower\<close>, \<open>Fields\<close>, \<open>Split\<close>, \<open>Join\<close>, \<open>Trim\<close>,
  \<open>Contains\<close>, \<open>ReplaceAll\<close>, \<open>ToValidUTF8\<close>, \<open>strconv.ParseInt\<close>/\<open>FormatInt\<close>, and \<open>time.Time\<close>.

  A Go string is a list of bytes, so a Go string is a HOL \<open>string\<close> whose \<open>char\<close>s are bytes.
  White space is the set of \<open>unicode.IsSpace\<close>, given by its UTF-8 encodings: none of them can start
  inside another valid encoding, so scanning byte by byte finds the same separators as Go's scan
  rune by rune. A time is its number of nanoseconds since the Unix epoch.
\<close>

section \<open>Bytes and UTF-8\<close>

abbreviation byte :: "char \<Rightarrow> nat" where
  "byte c \<equiv> of_char c"

definition is_ascii :: "string \<Rightarrow> bool" where
  "is_ascii s \<longleftrightarrow> list_all (\<lambda>c. byte c < 128) s"

text \<open>The continuation byte ranges a first byte asks for (the table of package utf8).\<close>

definition rune_ranges :: "nat \<Rightarrow> (nat \<times> nat) list option" where
  "rune_ranges b =
     (if b < 128 then Some []
      else if 194 \<le> b \<and> b \<le> 223 then Some [(128, 191)]
      else if b = 224 then Some [(160, 191), (128, 191)]
      else if b = 237 then Some [(128, 159), (128, 191)]
      else if 225 \<le> b \<and> b \<le> 239 then Some [(128, 191), (128, 191)]
      else if b = 240 then Some [(144, 191), (128, 191), (128, 191)]
      else if 241 \<le> b \<and> b \<le> 243 then Some [(128, 191), (128, 191), (128, 191)]
      else if b = 244 then Some [(128, 143), (128, 191), (128, 191)]
      else None)"

fun in_ranges :: "(nat \<times> nat) list \<Rightarrow> string \<Rightarrow> bool" where
  "in_ranges [] s = True"
| "in_ranges (p # ps) [] = False"
| "in_ranges (p # ps) (c # s) = (fst p \<le> byte c \<and> byte c \<le> snd p \<and> in_ranges ps s)"

text \<open>\<open>rune_len s\<close>: the width of the valid encoding \<open>s\<close> starts with, 0 if there is none.\<close>

definition rune_len :: "string \<Rightarrow> nat" where
  "rune_len s =
     (case s of [] \<Rightarrow> 0
      | c # r \<Rightarrow>
         (case rune_ranges (byte c) of None \<Rightarrow> 0
          | Some ps \<Rightarrow> if in_ranges ps r then Suc (length ps) else 0))"

lemma in_ranges_length: "in_ranges ps s \<Longrightarrow> length ps \<le> length s"
  by (induction ps s rule: in_ranges.induct) auto

lemma in_ranges_append: "in_ranges ps s \<Longrightarrow> in_ranges ps (take (length ps) s @ t)"
  by (induction ps s rule: in_ranges.induct) auto

lemma in_ranges_take: "in_ranges ps s \<Longrightarrow> in_ranges ps (take (length ps) s)"
  using in_ranges_append[of ps s "[]"] by simp

lemma in_ranges_extend: "in_ranges ps s \<Longrightarrow> in_ranges ps (s @ t)"
  by (induction ps s rule: in_ranges.induct) auto

lemma rune_len_le: "rune_len s \<le> length s"
  by (auto simp: rune_len_def split: list.split option.split dest: in_ranges_length)

lemma rune_len_Nil [simp]: "rune_len [] = 0"
  by (simp add: rune_len_def)

lemma rune_len_ascii: "byte c < 128 \<Longrightarrow> rune_len (c # s) = 1"
  by (simp add: rune_len_def rune_ranges_def)

lemma rune_len_take: "0 < rune_len s \<Longrightarrow> rune_len (take (rune_len s) s @ t) = rune_len s"
  by (auto simp: rune_len_def in_ranges_append in_ranges_take split: list.splits option.splits if_splits)

lemma rune_len_extend: "0 < rune_len s \<Longrightarrow> rune_len (s @ t) = rune_len s"
  by (auto simp: rune_len_def in_ranges_extend split: list.splits option.splits if_splits)

function valid_utf8 :: "string \<Rightarrow> bool" where
  "valid_utf8 s =
     (if s = [] then True
      else if rune_len s = 0 then False
      else valid_utf8 (drop (rune_len s) s))"
  by pat_completeness auto
termination
  by (relation "measure length") auto

declare valid_utf8.simps [simp del]

lemma valid_utf8_Nil [simp]: "valid_utf8 []"
  by (simp add: valid_utf8.simps)

lemma valid_utf8_ascii_Cons [simp]: "byte c < 128 \<Longrightarrow> valid_utf8 (c # s) = valid_utf8 s"
  by (subst valid_utf8.simps) (simp add: rune_len_ascii)

lemma valid_utf8_rune_append:
  "0 < rune_len s \<Longrightarrow> valid_utf8 t \<Longrightarrow> valid_utf8 (take (rune_len s) s @ t)"
  by (subst valid_utf8.simps) (simp add: rune_len_take rune_len_le)

lemma valid_utf8_append: "valid_utf8 s \<Longrightarrow> valid_utf8 t \<Longrightarrow> valid_utf8 (s @ t)"
proof (induction s rule: valid_utf8.induct)
  case (1 s)
  show ?case
  proof (cases "s = []")
    case True
    with 1 show ?thesis by simp
  next
    case False
    with "1.prems"(1) have n: "0 < rune_len s" and v: "valid_utf8 (drop (rune_len s) s)"
      by (simp_all add: valid_utf8.simps[of s] split: if_splits)
    then have "valid_utf8 (drop (rune_len s) s @ t)"
      using "1.IH" False "1.prems"(2) by simp
    then have "valid_utf8 (take (rune_len s) s @ (drop (rune_len s) s @ t))"
      by (rule valid_utf8_rune_append[OF n])
    then show ?thesis by (metis append.assoc append_take_drop_id)
  qed
qed

lemma valid_utf8_ascii: "is_ascii s \<Longrightarrow> valid_utf8 s"
  by (induction s) (auto simp: is_ascii_def)

text \<open>\<open>strings.ToValidUTF8\<close>: each run of invalid bytes becomes one replacement string.\<close>

function to_valid_utf8 :: "string \<Rightarrow> bool \<Rightarrow> string \<Rightarrow> string" where
  "to_valid_utf8 rep invalid s =
     (if s = [] then []
      else if rune_len s = 0 then
        (if invalid then [] else rep) @ to_valid_utf8 rep True (tl s)
      else take (rune_len s) s @ to_valid_utf8 rep False (drop (rune_len s) s))"
  by pat_completeness auto
termination
  by (relation "measure (\<lambda>(rep, invalid, s). length s)") (auto simp: neq_Nil_conv)

declare to_valid_utf8.simps [simp del]

lemma to_valid_utf8_valid: "valid_utf8 rep \<Longrightarrow> valid_utf8 (to_valid_utf8 rep bad s)"
proof (induction rep bad s rule: to_valid_utf8.induct)
  case (1 rep bad s)
  then show ?case
    by (subst to_valid_utf8.simps)
      (auto intro: valid_utf8_append valid_utf8_rune_append)
qed

lemma to_valid_utf8_id: "valid_utf8 s \<Longrightarrow> to_valid_utf8 rep bad s = s"
proof (induction rep bad s rule: to_valid_utf8.induct)
  case (1 rep bad s)
  then show ?case
    by (subst to_valid_utf8.simps) (auto simp: valid_utf8.simps[of s])
qed

lemma set_to_valid_utf8: "set (to_valid_utf8 rep bad s) \<subseteq> set rep \<union> set s"
proof (induction rep bad s rule: to_valid_utf8.induct)
  case (1 rep bad s)
  consider "s = []" | "s \<noteq> []" "rune_len s = 0" | "s \<noteq> []" "0 < rune_len s" by auto
  then show ?case
  proof cases
    case 2
    then have "set (tl s) \<subseteq> set s" by (cases s) auto
    with 1(1)[OF 2] 2 show ?thesis by (subst to_valid_utf8.simps) auto
  next
    case 3
    then show ?thesis
      using 1(2) by (subst to_valid_utf8.simps) (auto dest: in_set_takeD in_set_dropD)
  qed (simp add: to_valid_utf8.simps)
qed

section \<open>White space\<close>

definition ws_runes :: "string list" where
  "ws_runes =
     [[CHR 0x20], [CHR 0x09], [CHR 0x0A], [CHR 0x0B], [CHR 0x0C], [CHR 0x0D],
      [CHR 0xC2, CHR 0x85], [CHR 0xC2, CHR 0xA0], [CHR 0xE1, CHR 0x9A, CHR 0x80],
      [CHR 0xE2, CHR 0x80, CHR 0x80], [CHR 0xE2, CHR 0x80, CHR 0x81], [CHR 0xE2, CHR 0x80, CHR 0x82],
      [CHR 0xE2, CHR 0x80, CHR 0x83], [CHR 0xE2, CHR 0x80, CHR 0x84], [CHR 0xE2, CHR 0x80, CHR 0x85],
      [CHR 0xE2, CHR 0x80, CHR 0x86], [CHR 0xE2, CHR 0x80, CHR 0x87], [CHR 0xE2, CHR 0x80, CHR 0x88],
      [CHR 0xE2, CHR 0x80, CHR 0x89], [CHR 0xE2, CHR 0x80, CHR 0x8A], [CHR 0xE2, CHR 0x80, CHR 0xA8],
      [CHR 0xE2, CHR 0x80, CHR 0xA9], [CHR 0xE2, CHR 0x80, CHR 0xAF], [CHR 0xE2, CHR 0x81, CHR 0x9F],
      [CHR 0xE3, CHR 0x80, CHR 0x80]]"

definition starts_with :: "string \<Rightarrow> string \<Rightarrow> bool" where
  "starts_with s p \<longleftrightarrow> take (length p) s = p"

definition match_len :: "string list \<Rightarrow> string \<Rightarrow> nat" where
  "match_len ws s = (case find (starts_with s) ws of None \<Rightarrow> 0 | Some w \<Rightarrow> length w)"

function strip :: "string list \<Rightarrow> string \<Rightarrow> string" where
  "strip ws s = (if s = [] \<or> match_len ws s = 0 then s else strip ws (drop (match_len ws s) s))"
  by pat_completeness auto
termination
  by (relation "measure (\<lambda>(ws, s). length s)") auto

declare strip.simps [simp del]

definition trim_left :: "string \<Rightarrow> string" where
  "trim_left s = strip ws_runes s"

definition trim_right :: "string \<Rightarrow> string" where
  "trim_right s = rev (strip (map rev ws_runes) (rev s))"

definition trim_space :: "string \<Rightarrow> string" where
  "trim_space s = trim_right (trim_left s)"

lemma starts_with_append: "starts_with s p \<Longrightarrow> starts_with (s @ t) p"
  by (auto simp: starts_with_def)
    (metis append_Nil2 append_take_drop_id diff_is_0_eq length_take min.absorb_iff1 min.cobounded1 take0)

lemma match_len_pos_iff:
  assumes "[] \<notin> set ws"
  shows "0 < match_len ws s \<longleftrightarrow> (\<exists>w \<in> set ws. starts_with s w)"
proof (cases "find (starts_with s) ws")
  case None
  then have "\<forall>w \<in> set ws. \<not> starts_with s w" by (auto simp: find_None_iff)
  with None show ?thesis by (simp add: match_len_def)
next
  case (Some w)
  then have "w \<in> set ws" "starts_with s w" by (auto simp: find_Some_iff)
  with Some assms show ?thesis by (auto simp: match_len_def)
qed

lemma strip_done: "s = [] \<or> match_len ws s = 0 \<Longrightarrow> strip ws s = s"
  by (simp add: strip.simps)

lemma strip_stuck: "strip ws s = [] \<or> match_len ws (strip ws s) = 0"
proof (induction ws s rule: strip.induct)
  case (1 ws s)
  then show ?case by (cases "s = [] \<or> match_len ws s = 0") (simp_all add: strip.simps[of ws s])
qed

lemma strip_suffix: "\<exists>p. s = p @ strip ws s"
proof (induction ws s rule: strip.induct)
  case (1 ws s)
  show ?case
  proof (cases "s = [] \<or> match_len ws s = 0")
    case True
    then show ?thesis by (simp add: strip.simps)
  next
    case False
    from 1[OF False] obtain p where p: "drop (match_len ws s) s = p @ strip ws (drop (match_len ws s) s)"
      by (elim exE)
    have "s = (take (match_len ws s) s @ p) @ strip ws (drop (match_len ws s) s)"
      using p by (metis append.assoc append_take_drop_id)
    with False show ?thesis by (metis strip.simps)
  qed
qed

lemma strip_strip [simp]: "strip ws (strip ws s) = strip ws s"
  using strip_stuck by (rule strip_done)

lemma set_strip: "set (strip ws s) \<subseteq> set s"
  using strip_suffix[of s ws] by (metis Un_iff set_append subsetI)

lemma ws_runes_nonempty: "[] \<notin> set ws_runes"
  by (simp add: ws_runes_def)

lemma trim_right_prefix: "\<exists>p. s = trim_right s @ p"
  unfolding trim_right_def using strip_suffix[of "rev s" "map rev ws_runes"]
  by (metis rev_append rev_rev_ident)

lemma trim_left_keep: "trim_left s = s \<Longrightarrow> trim_left (trim_right s) = trim_right s"
proof -
  assume s: "trim_left s = s"
  obtain p where p: "s = trim_right s @ p" using trim_right_prefix by blast
  have "s = [] \<or> match_len ws_runes s = 0"
    using strip_stuck[of ws_runes s] s by (simp add: trim_left_def)
  then have "trim_right s = [] \<or> match_len ws_runes (trim_right s) = 0"
  proof
    assume "s = []"
    then show ?thesis using p by simp
  next
    assume m: "match_len ws_runes s = 0"
    have "\<not> 0 < match_len ws_runes (trim_right s)"
      using m p by (metis match_len_pos_iff[OF ws_runes_nonempty] starts_with_append less_irrefl)
    then show ?thesis by simp
  qed
  then show ?thesis by (simp add: trim_left_def strip_done)
qed

lemma trim_space_idem [simp]: "trim_space (trim_space s) = trim_space s"
proof -
  have "trim_left (trim_left s) = trim_left s" by (simp add: trim_left_def)
  then have "trim_left (trim_space s) = trim_space s"
    by (simp add: trim_space_def trim_left_keep)
  moreover have "trim_right (trim_space s) = trim_space s"
    by (simp add: trim_space_def trim_right_def)
  ultimately show ?thesis by (simp add: trim_space_def)
qed

lemma set_trim_space: "set (trim_space s) \<subseteq> set s"
proof -
  have "set (trim_right t) \<subseteq> set t" for t
    using set_strip[of "map rev ws_runes" "rev t"] by (auto simp: trim_right_def)
  then show ?thesis
    using set_strip[of ws_runes s] unfolding trim_space_def trim_left_def by blast
qed

lemma trim_space_Nil [simp]: "trim_space [] = []"
  by (simp add: trim_space_def trim_left_def trim_right_def strip.simps)

text \<open>\<open>strings.Fields\<close>: split around runs of white space.\<close>

function fields_from :: "string \<Rightarrow> string \<Rightarrow> string list" where
  "fields_from cur s =
     (let flush = (if cur = [] then [] else [cur]); n = match_len ws_runes s in
      if s = [] then flush
      else if n = 0 then fields_from (cur @ [hd s]) (tl s)
      else flush @ fields_from [] (drop n s))"
  by pat_completeness auto
termination
  by (relation "measure (\<lambda>(cur, s). length s)") auto

declare fields_from.simps [simp del]

definition fields :: "string \<Rightarrow> string list" where
  "fields s = fields_from [] s"

lemma fields_from_nonempty: "t \<in> set (fields_from cur s) \<Longrightarrow> t \<noteq> []"
proof (induction cur s rule: fields_from.induct)
  case (1 cur s)
  then show ?case
    by (subst (asm) fields_from.simps) (auto simp: Let_def split: if_splits)
qed

section \<open>Other string functions\<close>

definition lower_char :: "char \<Rightarrow> char" where
  "lower_char c = (if 65 \<le> byte c \<and> byte c \<le> 90 then char_of (byte c + 32) else c)"

definition ascii_lower :: "string \<Rightarrow> string" where
  "ascii_lower s = map lower_char s"

lemma byte_lower_char: "byte (lower_char c) = (if 65 \<le> byte c \<and> byte c \<le> 90 then byte c + 32 else byte c)"
  by (simp add: lower_char_def)

lemma lower_char_idem [simp]: "lower_char (lower_char c) = lower_char c"
proof (cases "65 \<le> byte c \<and> byte c \<le> 90")
  case True
  then have "\<not> (65 \<le> byte (lower_char c) \<and> byte (lower_char c) \<le> 90)"
    by (simp add: byte_lower_char)
  then show ?thesis by (subst lower_char_def) auto
next
  case False
  then have "lower_char c = c" by (auto simp: lower_char_def)
  then show ?thesis by simp
qed

lemma ascii_lower_idem [simp]: "ascii_lower (ascii_lower s) = ascii_lower s"
  by (simp add: ascii_lower_def)

lemma ascii_lower_Nil [simp]: "ascii_lower s = [] \<longleftrightarrow> s = []"
  by (simp add: ascii_lower_def)

lemma is_ascii_lower [simp]: "is_ascii (ascii_lower s) = is_ascii s"
  by (induction s) (auto simp: is_ascii_def ascii_lower_def byte_lower_char)

definition join_with :: "string \<Rightarrow> string list \<Rightarrow> string" where
  "join_with sep parts =
     (case parts of [] \<Rightarrow> [] | p # ps \<Rightarrow> p @ concat (map (\<lambda>q. sep @ q) ps))"

text \<open>\<open>strings.Split(s, sep)\<close> for a one-byte separator.\<close>

fun split_on :: "char \<Rightarrow> string \<Rightarrow> string list" where
  "split_on c [] = [[]]"
| "split_on c (x # s) =
     (if x = c then [] # split_on c s
      else (case split_on c s of [] \<Rightarrow> [[x]] | p # ps \<Rightarrow> (x # p) # ps))"

lemma split_on_nonempty [simp]: "split_on c s \<noteq> []"
  by (induction s) (auto split: list.split)

lemma split_on_free: "c \<notin> set s \<Longrightarrow> split_on c s = [s]"
  by (induction s) auto

lemma split_on_append: "c \<notin> set s \<Longrightarrow> split_on c (s @ c # t) = s # split_on c t"
  by (induction s) auto

lemma split_on_join:
  "parts \<noteq> [] \<Longrightarrow> (\<And>p. p \<in> set parts \<Longrightarrow> c \<notin> set p) \<Longrightarrow> split_on c (join_with [c] parts) = parts"
proof (induction parts rule: induct_list012)
  case 1
  then show ?case by simp
next
  case (2 p)
  then show ?case by (simp add: join_with_def split_on_free)
next
  case (3 p q ps)
  then have "split_on c (join_with [c] (q # ps)) = q # ps" by simp
  moreover have "join_with [c] (p # q # ps) = p @ c # join_with [c] (q # ps)"
    by (simp add: join_with_def)
  ultimately show ?case using 3 by (simp add: split_on_append)
qed

definition trim_cutset :: "string \<Rightarrow> string \<Rightarrow> string" where
  "trim_cutset cs s = rev (dropWhile (\<lambda>c. c \<in> set cs) (rev (dropWhile (\<lambda>c. c \<in> set cs) s)))"

fun contains :: "string \<Rightarrow> string \<Rightarrow> bool" where
  "contains [] p = (p = [])"
| "contains (c # s) p = (starts_with (c # s) p \<or> contains s p)"

text \<open>\<open>strings.ReplaceAll(s, [c], rep)\<close> for a one-byte pattern.\<close>

definition replace_byte :: "char \<Rightarrow> string \<Rightarrow> string \<Rightarrow> string" where
  "replace_byte c rep s = concat (map (\<lambda>x. if x = c then rep else [x]) s)"

lemma set_replace_byte_drop: "c \<notin> set (replace_byte c [] s)"
  by (auto simp: replace_byte_def)

lemma replace_byte_absent: "c \<notin> set s \<Longrightarrow> replace_byte c rep s = s"
  by (induction s) (auto simp: replace_byte_def)

section \<open>Decimal numbers\<close>

definition digit :: "nat \<Rightarrow> char" where
  "digit n = char_of (48 + n)"

fun nat_text :: "nat \<Rightarrow> string" where
  "nat_text n = (if n < 10 then [digit n] else nat_text (n div 10) @ [digit (n mod 10)])"

declare nat_text.simps [simp del]

definition int_text :: "int \<Rightarrow> string" where
  "int_text i = (if i < 0 then CHR ''-'' # nat_text (nat (- i)) else nat_text (nat i))"

definition is_digit :: "char \<Rightarrow> bool" where
  "is_digit c \<longleftrightarrow> 48 \<le> byte c \<and> byte c \<le> 57"

fun digits_value :: "nat \<Rightarrow> string \<Rightarrow> nat" where
  "digits_value acc [] = acc"
| "digits_value acc (c # s) = digits_value (10 * acc + (byte c - 48)) s"

definition parse_nat :: "string \<Rightarrow> nat option" where
  "parse_nat s = (if s \<noteq> [] \<and> list_all is_digit s then Some (digits_value 0 s) else None)"

text \<open>\<open>strconv.ParseInt(s, 10, 64)\<close>; \<open>None\<close> is a syntax or a range error.\<close>

definition parse_int64 :: "string \<Rightarrow> int option" where
  "parse_int64 s =
     (case s of [] \<Rightarrow> None
      | c # r \<Rightarrow>
         (case parse_nat (if c = CHR ''-'' \<or> c = CHR ''+'' then r else s) of
            None \<Rightarrow> None
          | Some n \<Rightarrow>
              (let v = (if c = CHR ''-'' then - int n else int n)
               in if - (2 ^ 63) \<le> v \<and> v < 2 ^ 63 then Some v else None)))"

lemma byte_digit: "n < 10 \<Longrightarrow> byte (digit n) = 48 + n"
  by (simp add: digit_def)

lemma is_digit_digit: "n < 10 \<Longrightarrow> is_digit (digit n)"
  by (simp add: is_digit_def byte_digit)

lemma digits_value_append: "digits_value acc (s @ [c]) = 10 * digits_value acc s + (byte c - 48)"
  by (induction s arbitrary: acc) auto

lemma nat_text_digits: "list_all is_digit (nat_text n)"
proof (induction n rule: nat_text.induct)
  case (1 n)
  then show ?case
    by (subst nat_text.simps) (auto simp: is_digit_digit)
qed

lemma nat_text_nonempty [simp]: "nat_text n \<noteq> []"
  by (subst nat_text.simps) simp

lemma digits_value_nat_text: "digits_value 0 (nat_text n) = n"
proof (induction n rule: nat_text.induct)
  case (1 n)
  then show ?case
    by (subst nat_text.simps) (auto simp: digits_value_append byte_digit)
qed

lemma parse_nat_text [simp]: "parse_nat (nat_text n) = Some n"
  by (simp add: parse_nat_def nat_text_digits digits_value_nat_text)

lemma nat_text_inj: "nat_text m = nat_text n \<Longrightarrow> m = n"
  by (metis digits_value_nat_text)

lemma nat_text_head: "\<exists>c r. nat_text n = c # r \<and> is_digit c"
  using nat_text_digits[of n] by (cases "nat_text n") auto

lemma parse_int_text:
  assumes "- (2 ^ 63) \<le> i" and "i < 2 ^ 63"
  shows "parse_int64 (int_text i) = Some i"
proof (cases "i < 0")
  case True
  then show ?thesis using assms by (simp add: parse_int64_def int_text_def)
next
  case False
  obtain c r where cr: "nat_text (nat i) = c # r" "is_digit c" using nat_text_head by blast
  then have "c \<noteq> CHR ''-''" "c \<noteq> CHR ''+''" by (auto simp: is_digit_def)
  moreover have "parse_nat (c # r) = Some (nat i)" using cr(1) by (metis parse_nat_text)
  ultimately show ?thesis using False assms cr by (simp add: parse_int64_def int_text_def)
qed

lemma set_int_text: "c \<in> set (int_text i) \<Longrightarrow> is_digit c \<or> c = CHR ''-''"
  using nat_text_digits by (auto simp: int_text_def list_all_iff split: if_splits)

lemma int_text_inj: "int_text i = int_text j \<Longrightarrow> i = j"
proof -
  assume eq: "int_text i = int_text j"
  have pos: "int_text a \<noteq> int_text b" if "a < 0" "\<not> b < 0" for a b
    using nat_text_head[of "nat b"] that by (auto simp: int_text_def is_digit_def)
  show ?thesis
    using eq pos[of i j] pos[of j i]
    by (cases "i < 0"; cases "j < 0") (auto simp: int_text_def dest: nat_text_inj)
qed

section \<open>Time\<close>

type_synonym gotime = int

definition unix :: "gotime \<Rightarrow> int" where
  "unix t = t div 1000000000"

definition from_unix :: "int \<Rightarrow> gotime" where
  "from_unix s = s * 1000000000"

definition zero_time :: gotime where
  "zero_time = from_unix (- 62135596800)"

lemma unix_from_unix [simp]: "unix (from_unix s) = s"
  by (simp add: unix_def from_unix_def)

lemma from_unix_inj [simp]: "from_unix s = from_unix t \<longleftrightarrow> s = t"
  by (simp add: from_unix_def)

end
