(* ===== verification/World.thy ===== *)
theory World
  imports GoText
begin

text \<open>
  Go error values, and the record \<open>world\<close> of everything the program calls that is not part of
  its sources.

  An error is a chain: \<open>fmt.Errorf("...: %w", err)\<close> is \<open>ErrWrap\<close>, a sentinel is a constructor of its
  own, \<open>errors.New\<close> and \<open>fmt.Errorf\<close> without \<open>%w\<close> are \<open>ErrNew\<close> of the finished text. \<open>err_is\<close> is
  \<open>errors.Is\<close> on a sentinel and \<open>err_text\<close> is \<open>Error()\<close>. The text of a Postgres error is reduced to its
  SQLSTATE, the only part the program looks at.
\<close>

section \<open>Errors\<close>

datatype err =
    ErrNotFound                 \<comment> \<open>\<open>store.ErrNotFound\<close>\<close>
  | ErrNoRows                   \<comment> \<open>\<open>sql.ErrNoRows\<close>\<close>
  | ErrUnknownAction            \<comment> \<open>\<open>approval.ErrUnknownAction\<close>\<close>
  | ErrBadSignature             \<comment> \<open>\<open>approval.ErrBadSignature\<close>\<close>
  | ErrCanceled                 \<comment> \<open>\<open>context.Canceled\<close>\<close>
  | ErrNew string
  | ErrWrap string err string   \<comment> \<open>text before, wrapped error, text after\<close>
  | ErrPg string                \<comment> \<open>\<open>*pgconn.PgError\<close> with its SQLSTATE\<close>
  | ErrDriver string            \<comment> \<open>connection or driver failure\<close>
  | ErrStatus nat string string \<comment> \<open>\<open>*drive.StatusError\<close>: status, url, body\<close>

text \<open>The literal ellipsis the sources append when they truncate a text.\<close>

definition ellipsis :: string where
  "ellipsis = [CHR 0xE2, CHR 0x80, CHR 0xA6]"

text \<open>\<open>drive.truncate\<close>.\<close>

definition drive_truncate :: "string \<Rightarrow> nat \<Rightarrow> string" where
  "drive_truncate s n = (if length s \<le> n then s else take n s @ ellipsis)"

fun err_text :: "err \<Rightarrow> string" where
  "err_text ErrNotFound = ''not found''"
| "err_text ErrNoRows = ''sql: no rows in result set''"
| "err_text ErrUnknownAction = ''unknown action''"
| "err_text ErrBadSignature = ''signature verification failed''"
| "err_text ErrCanceled = ''context canceled''"
| "err_text (ErrNew m) = m"
| "err_text (ErrWrap pre e post) = pre @ err_text e @ post"
| "err_text (ErrPg code) = ''ERROR: (SQLSTATE '' @ code @ '')''"
| "err_text (ErrDriver m) = m"
| "err_text (ErrStatus st url body) =
     ''drive: HTTP '' @ nat_text st @ '' from '' @ url @ '': '' @ drive_truncate body 256"

fun err_is :: "err \<Rightarrow> err \<Rightarrow> bool" where
  "err_is (ErrWrap pre e post) t = err_is e t"
| "err_is e t = (e = t)"

text \<open>\<open>store.IsUniqueViolation\<close>: \<open>errors.As\<close> on the chain, then the SQLSTATE.\<close>

fun is_unique_violation :: "err \<Rightarrow> bool" where
  "is_unique_violation (ErrWrap pre e post) = is_unique_violation e"
| "is_unique_violation (ErrPg code) = (code = ''23505'')"
| "is_unique_violation e = False"

text \<open>\<open>drive.IsNotFoundOrForbidden\<close>.\<close>

fun is_not_found_or_forbidden :: "err \<Rightarrow> bool" where
  "is_not_found_or_forbidden (ErrWrap pre e post) = is_not_found_or_forbidden e"
| "is_not_found_or_forbidden (ErrStatus st url body) = (st = 404 \<or> st = 403)"
| "is_not_found_or_forbidden e = False"

text \<open>
  \<open>%q\<close> (\<open>strconv.Quote\<close>) on ASCII text; a byte above ASCII is kept, as Quote keeps printable runes.
\<close>

definition hex_digit :: "nat \<Rightarrow> char" where
  "hex_digit n = ''0123456789abcdef'' ! n"

definition quote_char :: "char \<Rightarrow> string" where
  "quote_char c =
     (if c = CHR 0x22 then [CHR 0x5C, CHR 0x22]
      else if c = CHR 0x5C then [CHR 0x5C, CHR 0x5C]
      else if byte c = 7 then [CHR 0x5C, CHR ''a'']
      else if byte c = 8 then [CHR 0x5C, CHR ''b'']
      else if byte c = 12 then [CHR 0x5C, CHR ''f'']
      else if byte c = 10 then [CHR 0x5C, CHR ''n'']
      else if byte c = 13 then [CHR 0x5C, CHR ''r'']
      else if byte c = 9 then [CHR 0x5C, CHR ''t'']
      else if byte c = 11 then [CHR 0x5C, CHR ''v'']
      else if byte c < 32 \<or> byte c = 127
        then [CHR 0x5C, CHR ''x'', hex_digit (byte c div 16), hex_digit (byte c mod 16)]
      else [c])"

definition go_quote :: "string \<Rightarrow> string" where
  "go_quote s = [CHR 0x22] @ concat (map quote_char s) @ [CHR 0x22]"

section \<open>The outside world\<close>

text \<open>
  \<^item> \<open>w_lower\<close>: \<open>strings.ToLower\<close> outside ASCII (Unicode tables);
  \<^item> \<open>w_citext\<close>: the case folding of \<open>CITEXT\<close> and \<open>ILIKE\<close> outside ASCII (the database's locale);
  \<^item> \<open>w_collate\<close>: the sort key of the database's collation;
  \<^item> \<open>w_pick\<close>: which of several matching rows a \<open>LIMIT 1\<close> without \<open>ORDER BY\<close> returns, given their ids;
  \<^item> \<open>w_agg\<close>: the order in which \<open>string_agg\<close> without \<open>ORDER BY\<close> visits its values;
  \<^item> \<open>w_jsonb\<close>: the text a \<open>JSONB\<close> column returns for an input text, \<open>None\<close> for input it rejects;
  \<^item> \<open>w_parse_key\<close>, \<open>w_key_fp\<close>, \<open>w_sig_parse\<close>, \<open>w_sig_ok\<close>: \<open>ssh.ParseAuthorizedKey\<close>,
    \<open>ssh.FingerprintSHA256\<close>, \<open>ssh.Unmarshal\<close> of a signature and \<open>PublicKey.Verify\<close>.
\<close>

record world =
  w_lower :: "string \<Rightarrow> string"
  w_citext :: "string \<Rightarrow> string"
  w_collate :: "string \<Rightarrow> string"
  w_pick :: "int list \<Rightarrow> nat"
  w_agg :: "string list \<Rightarrow> string list"
  w_jsonb :: "string \<Rightarrow> string option"
  w_parse_key :: "string \<Rightarrow> string option"
  w_key_fp :: "string \<Rightarrow> string"
  w_sig_parse :: "string \<Rightarrow> string option"
  w_sig_ok :: "string \<Rightarrow> string \<Rightarrow> string \<Rightarrow> bool"

text \<open>\<open>strings.ToLower\<close>: a fast path for ASCII, Unicode mapping otherwise.\<close>

definition to_lower :: "world \<Rightarrow> string \<Rightarrow> string" where
  "to_lower w s = (if is_ascii s then ascii_lower s else w_lower w s)"

text \<open>Two \<open>CITEXT\<close> values are equal when their keys are.\<close>

definition citext_key :: "world \<Rightarrow> string \<Rightarrow> string" where
  "citext_key w s = (if is_ascii s then ascii_lower s else w_citext w s)"

text \<open>\<open>ORDER BY\<close> on a text column: by collation key, ties by bytes.\<close>

definition text_order :: "world \<Rightarrow> string \<Rightarrow> string \<times> string" where
  "text_order w s = (w_collate w s, s)"

definition pick_row :: "world \<Rightarrow> ('r \<Rightarrow> int) \<Rightarrow> 'r list \<Rightarrow> 'r option" where
  "pick_row w rid rs =
     (if rs = [] then None else Some (rs ! (w_pick w (map rid rs) mod length rs)))"

text \<open>What Postgres accepts as a text value: valid UTF-8 without NUL bytes.\<close>

definition pg_text_ok :: "string \<Rightarrow> bool" where
  "pg_text_ok s \<longleftrightarrow> valid_utf8 s \<and> CHR 0x00 \<notin> set s"

lemma hex_digit_mem: "n < 16 \<Longrightarrow> hex_digit n \<in> set ''0123456789abcdef''"
  unfolding hex_digit_def by (rule nth_mem) simp

lemma byte_less [simp]: "byte c < 256"
  using of_char_mod_256[of c] by (metis mod_less_divisor zero_less_numeral)

lemma byte_div_16: "byte c div 16 < 16"
  using byte_less[of c] by (simp add: less_mult_imp_div_less)

lemma to_lower_ascii [simp]: "is_ascii s \<Longrightarrow> to_lower w s = ascii_lower s"
  by (simp add: to_lower_def)

lemma citext_key_to_lower: "is_ascii s \<Longrightarrow> citext_key w (to_lower w s) = citext_key w s"
  by (simp add: citext_key_def)

lemma text_order_inj [simp]: "text_order w s = text_order w t \<longleftrightarrow> s = t"
  by (auto simp: text_order_def)

lemma pick_row_None [simp]: "pick_row w rid rs = None \<longleftrightarrow> rs = []"
  by (simp add: pick_row_def)

lemma pick_row_Nil [simp]: "pick_row w rid [] = None"
  by (simp add: pick_row_def)

lemma pick_row_mem: "pick_row w rid rs = Some r \<Longrightarrow> r \<in> set rs"
  by (auto simp: pick_row_def split: if_splits)

lemma pick_row_singleton [simp]: "pick_row w rid [r] = Some r"
  by (simp add: pick_row_def)

lemma err_is_refl: "\<not> (\<exists>p e q. t = ErrWrap p e q) \<Longrightarrow> err_is t t"
  by (cases t) auto

text \<open>
  A concrete world for the witnesses: ASCII-only folding, byte order, the first matching row, a
  JSONB column that returns its input, keys that are their own blobs and fingerprints, and a
  signature that is valid when it is the key followed by the payload.
\<close>

definition demo_world :: world where
  "demo_world = \<lparr> w_lower = id, w_citext = id, w_collate = id, w_pick = (\<lambda>_. 0), w_agg = id,
     w_jsonb = Some, w_parse_key = (\<lambda>s. if s = [] then None else Some s),
     w_key_fp = (\<lambda>s. ''SHA256:'' @ s), w_sig_parse = Some,
     w_sig_ok = (\<lambda>k p sg. sg = k @ p) \<rparr>"

end
