(* ===== verification/Base64.thy ===== *)
theory Base64
  imports World
begin

text \<open>
  \<open>base64.StdEncoding\<close> as the approval service and its client use it: \<open>EncodeToString\<close> on signing payloads and
  signatures, \<open>DecodeString\<close> on what the other side sent. Decoding skips line breaks, wants the padding complete and
  last, and ignores stray low bits, as the non-strict decoder does. The position in a decoding error is left out.
\<close>

definition b64_alphabet :: string where
  "b64_alphabet = ''ABCDEFGHIJKLMNOPQRSTUVWXYZabcdefghijklmnopqrstuvwxyz0123456789+/''"

definition b64_char :: "nat \<Rightarrow> char" where
  "b64_char n = b64_alphabet ! n"

definition b64_val :: "char \<Rightarrow> nat option" where
  "b64_val c = map_of (zip b64_alphabet [0..<64]) c"

text \<open>The four sextets of three bytes, and the three bytes of four sextets.\<close>

definition quad :: "char \<Rightarrow> nat \<Rightarrow> nat \<Rightarrow> nat list" where
  "quad x y z = [byte x div 4, byte x mod 4 * 16 + y div 16, y mod 16 * 4 + z div 64, z mod 64]"

definition triple :: "nat \<Rightarrow> nat \<Rightarrow> nat \<Rightarrow> nat \<Rightarrow> string" where
  "triple a b c d = [char_of (a * 4 + b div 16), char_of (b mod 16 * 16 + c div 4), char_of (c mod 4 * 64 + d)]"

fun base64_encode :: "string \<Rightarrow> string" where
  "base64_encode [] = []"
| "base64_encode [x] = map b64_char (take 2 (quad x 0 0)) @ ''==''"
| "base64_encode [x, y] = map b64_char (take 3 (quad x (byte y) 0)) @ ''=''"
| "base64_encode (x # y # z # s) = map b64_char (quad x (byte y) (byte z)) @ base64_encode s"

fun decode_quads :: "string \<Rightarrow> string option" where
  "decode_quads [] = Some []"
| "decode_quads (a # b # c # d # s) =
     (case (b64_val a, b64_val b) of
        (Some va, Some vb) \<Rightarrow>
          if c = CHR ''='' then
            if d = CHR ''='' \<and> s = [] then Some (take 1 (triple va vb 0 0)) else None
          else (case b64_val c of None \<Rightarrow> None | Some vc \<Rightarrow>
            if d = CHR ''='' then
              if s = [] then Some (take 2 (triple va vb vc 0)) else None
            else (case (b64_val d, decode_quads s) of
                (Some vd, Some rest) \<Rightarrow> Some (triple va vb vc vd @ rest)
              | _ \<Rightarrow> None))
      | _ \<Rightarrow> None)"
| "decode_quads _ = None"

definition base64_decode :: "string \<Rightarrow> string option" where
  "base64_decode s = decode_quads (filter (\<lambda>c. c \<noteq> CHR 0x0A \<and> c \<noteq> CHR 0x0D) s)"

lemma b64_table: "list_all (\<lambda>n. b64_val (b64_char n) = Some n \<and>
    b64_char n \<notin> {CHR ''='', CHR 0x0A, CHR 0x0D}) [0..<64]"
  by code_simp

lemma b64_val_char [simp]: "n < 64 \<Longrightarrow> b64_val (b64_char n) = Some n"
  and b64_char_neq [simp]: "n < 64 \<Longrightarrow> b64_char n \<noteq> CHR ''=''" "n < 64 \<Longrightarrow> b64_char n \<noteq> CHR 0x0A"
    "n < 64 \<Longrightarrow> b64_char n \<noteq> CHR 0x0D"
  using b64_table by (auto simp: list_all_iff)

lemma two_digits: "b < m \<Longrightarrow> (a * m + b) div m = (a::nat)" "b < m \<Longrightarrow> (a * m + b) mod m = (b::nat)"
  by simp_all

lemma quad_less:
  assumes "y < 256" "z < 256"
  shows "byte x div 4 < 64" "byte x mod 4 * 16 + y div 16 < 64" "y mod 16 * 4 + z div 64 < 64" "z mod 64 < 64"
proof -
  have "y div 16 < 16" "z div 64 < 4" "byte x mod 4 < 4" "y mod 16 < 16" "z mod 64 < 64" "byte x < 256"
    using assms by (auto simp: less_mult_imp_div_less)
  then show "byte x div 4 < 64" "byte x mod 4 * 16 + y div 16 < 64" "y mod 16 * 4 + z div 64 < 64" "z mod 64 < 64"
    by (simp_all add: less_mult_imp_div_less)
qed

lemma quad_bytes:
  "byte x div 4 < 64" "byte x mod 4 * 16 + byte y div 16 < 64" "byte y mod 16 * 4 + byte z div 64 < 64" "byte z mod 64 < 64"
  using quad_less(1,2)[of "byte y" "byte z" x] quad_less(3)[of "byte y" "byte z"] by simp_all

lemma triple_quad:
  assumes "y < 256" "z < 256"
  shows "triple (byte x div 4) (byte x mod 4 * 16 + y div 16) (y mod 16 * 4 + z div 64) (z mod 64) =
    [x, char_of y, char_of z]"
proof -
  have less: "y div 16 < 16" "z div 64 < 4"
    using assms by (auto simp: less_mult_imp_div_less)
  then have "byte x div 4 * 4 + (byte x mod 4 * 16 + y div 16) div 16 = byte x"
    "(byte x mod 4 * 16 + y div 16) mod 16 * 16 + (y mod 16 * 4 + z div 64) div 4 = y"
    "(y mod 16 * 4 + z div 64) mod 4 * 64 + z mod 64 = z"
    by (simp_all only: two_digits div_mult_mod_eq mult.commute[of "_ div _"] mult_div_mod_eq)
  then show ?thesis unfolding triple_def by simp
qed

lemma decode_quads_encode: "decode_quads (base64_encode s) = Some s"
proof (induction s rule: base64_encode.induct)
  case 1
  then show ?case by simp
next
  case (2 x)
  then show ?case using triple_quad[of 0 0 x] quad_less(1,2)[of 0 0 x]
    by (simp add: quad_def triple_def numeral_2_eq_2)
next
  case (3 x y)
  then show ?case using triple_quad[of "byte y" 0 x] quad_less(1,2)[of "byte y" 0 x] quad_less(3)[of "byte y" 0]
    by (simp add: quad_def triple_def numeral_3_eq_3 numeral_2_eq_2)
next
  case (4 x y z s)
  then show ?case using triple_quad[of "byte y" "byte z" x] quad_bytes by (simp add: quad_def)
qed

lemma encode_chars: "\<forall>c \<in> set (base64_encode s). c \<noteq> CHR 0x0A \<and> c \<noteq> CHR 0x0D"
proof (induction s rule: base64_encode.induct)
  case (2 x)
  then show ?case using quad_less(1,2)[of 0 0 x] by (simp add: quad_def numeral_2_eq_2)
next
  case (3 x y)
  then show ?case using quad_less(1,2)[of "byte y" 0 x] quad_less(3)[of "byte y" 0] by (simp add: quad_def numeral_3_eq_3)
qed (simp_all add: quad_def quad_bytes)

lemma encode_no_newline: "filter (\<lambda>c. c \<noteq> CHR 0x0A \<and> c \<noteq> CHR 0x0D) (base64_encode s) = base64_encode s"
  using encode_chars by (auto simp: filter_id_conv)

lemma base64_decode_encode [simp]: "base64_decode (base64_encode s) = Some s"
  by (simp add: base64_decode_def encode_no_newline decode_quads_encode)

lemma base64_encode_inj: "base64_encode s = base64_encode t \<Longrightarrow> s = t"
  by (metis base64_decode_encode option.inject)

lemma base64_encode_Nil [simp]: "base64_encode s = [] \<longleftrightarrow> s = []"
  by (metis base64_encode.simps(1) base64_encode_inj)

end
