(* ===== verification/Json.thy ===== *)
theory Json
  imports World
begin

text \<open>
  The parts of \<open>encoding/json\<close> the approval queue rests on.

  \<^item> the scanner (\<open>jstep\<close>), state for state, and \<open>json.Compact\<close> over it (\<open>json_compact\<close>); with
    \<open>esc = True\<close> it is the compaction a \<open>json.Encoder\<close> applies to a \<open>json.RawMessage\<close>, which also
    escapes \<open><\<close>, \<open>>\<close>, \<open>&\<close>, U+2028 and U+2029;
  Main results: compaction is idempotent (\<open>json_compact_idem\<close>), and the escaping compaction agrees with
  the plain one exactly where nothing needs escaping. \<open>JsonFields\<close> adds structs of string fields.
\<close>

section \<open>The scanner\<close>

datatype jst =
    JVal | JValOrEmpty | JKeyOrEmpty | JKey | JEnd | JTop
  | JStr | JEsc | JHex nat
  | JNeg | J1 | J0 | JDot | JDot0 | JE | JESign | JE0
  | JLit string

datatype frame = FKey | FVal | FArr

type_synonym jstate = "jst \<times> frame list"

definition is_jspace :: "char \<Rightarrow> bool" where
  "is_jspace c \<longleftrightarrow> c = CHR '' '' \<or> c = CHR 0x09 \<or> c = CHR 0x0D \<or> c = CHR 0x0A"

definition is_hex :: "char \<Rightarrow> bool" where
  "is_hex c \<longleftrightarrow> is_digit c \<or> 97 \<le> byte c \<and> byte c \<le> 102 \<or> 65 \<le> byte c \<and> byte c \<le> 70"

definition max_nesting :: nat where
  "max_nesting = 10000"

definition pop_frame :: "frame list \<Rightarrow> jstate" where
  "pop_frame fs = (if fs = [] then JTop else JEnd, fs)"

text \<open>The first component of a step tells whether the byte is insignificant white space.\<close>

fun end_value :: "frame list \<Rightarrow> char \<Rightarrow> (bool \<times> jstate) option" where
  "end_value [] c = (if is_jspace c then Some (True, JTop, []) else None)"
| "end_value (f # fs) c =
     (if is_jspace c then Some (True, JEnd, f # fs)
      else (case f of
          FKey \<Rightarrow> if c = CHR '':'' then Some (False, JVal, FVal # fs) else None
        | FVal \<Rightarrow> if c = CHR '','' then Some (False, JKey, FKey # fs)
                 else if c = CHR ''}'' then Some (False, pop_frame fs) else None
        | FArr \<Rightarrow> if c = CHR '','' then Some (False, JVal, FArr # fs)
                 else if c = CHR '']'' then Some (False, pop_frame fs) else None))"

definition push_frame :: "jst \<Rightarrow> frame \<Rightarrow> frame list \<Rightarrow> (bool \<times> jstate) option" where
  "push_frame st f fs = (if length fs < max_nesting then Some (False, st, f # fs) else None)"

definition begin_value :: "frame list \<Rightarrow> char \<Rightarrow> (bool \<times> jstate) option" where
  "begin_value fs c =
     (if is_jspace c then Some (True, JVal, fs)
      else if c = CHR ''{'' then push_frame JKeyOrEmpty FKey fs
      else if c = CHR ''['' then push_frame JValOrEmpty FArr fs
      else if c = CHR 0x22 then Some (False, JStr, fs)
      else if c = CHR ''-'' then Some (False, JNeg, fs)
      else if c = CHR ''0'' then Some (False, J0, fs)
      else if c = CHR ''t'' then Some (False, JLit ''rue'', fs)
      else if c = CHR ''f'' then Some (False, JLit ''alse'', fs)
      else if c = CHR ''n'' then Some (False, JLit ''ull'', fs)
      else if is_digit c then Some (False, J1, fs)
      else None)"

definition begin_string :: "frame list \<Rightarrow> char \<Rightarrow> (bool \<times> jstate) option" where
  "begin_string fs c =
     (if is_jspace c then Some (True, JKey, fs)
      else if c = CHR 0x22 then Some (False, JStr, fs)
      else None)"

definition step_esign :: "frame list \<Rightarrow> char \<Rightarrow> (bool \<times> jstate) option" where
  "step_esign fs c = (if is_digit c then Some (False, JE0, fs) else None)"

definition step_0 :: "frame list \<Rightarrow> char \<Rightarrow> (bool \<times> jstate) option" where
  "step_0 fs c =
     (if c = CHR ''.'' then Some (False, JDot, fs)
      else if c = CHR ''e'' \<or> c = CHR ''E'' then Some (False, JE, fs)
      else end_value fs c)"

fun jstep :: "jstate \<Rightarrow> char \<Rightarrow> (bool \<times> jstate) option" where
  "jstep (JVal, fs) c = begin_value fs c"
| "jstep (JValOrEmpty, fs) c =
     (if is_jspace c then Some (True, JValOrEmpty, fs)
      else if c = CHR '']'' then end_value fs c
      else begin_value fs c)"
| "jstep (JKeyOrEmpty, fs) c =
     (if is_jspace c then Some (True, JKeyOrEmpty, fs)
      else if c = CHR ''}'' then end_value (FVal # tl fs) c
      else begin_string fs c)"
| "jstep (JKey, fs) c = begin_string fs c"
| "jstep (JEnd, fs) c = end_value fs c"
| "jstep (JTop, fs) c = (if is_jspace c then Some (True, JTop, fs) else None)"
| "jstep (JStr, fs) c =
     (if c = CHR 0x22 then Some (False, JEnd, fs)
      else if c = CHR 0x5C then Some (False, JEsc, fs)
      else if byte c < 32 then None
      else Some (False, JStr, fs))"
| "jstep (JEsc, fs) c =
     (if c \<in> {CHR ''b'', CHR ''f'', CHR ''n'', CHR ''r'', CHR ''t'', CHR 0x5C, CHR ''/'', CHR 0x22}
      then Some (False, JStr, fs)
      else if c = CHR ''u'' then Some (False, JHex 4, fs)
      else None)"
| "jstep (JHex n, fs) c =
     (if is_hex c then Some (False, if n \<le> 1 then JStr else JHex (n - 1), fs) else None)"
| "jstep (JNeg, fs) c =
     (if c = CHR ''0'' then Some (False, J0, fs)
      else if is_digit c then Some (False, J1, fs) else None)"
| "jstep (J1, fs) c = (if is_digit c then Some (False, J1, fs) else step_0 fs c)"
| "jstep (J0, fs) c = step_0 fs c"
| "jstep (JDot, fs) c = (if is_digit c then Some (False, JDot0, fs) else None)"
| "jstep (JDot0, fs) c =
     (if is_digit c then Some (False, JDot0, fs)
      else if c = CHR ''e'' \<or> c = CHR ''E'' then Some (False, JE, fs)
      else end_value fs c)"
| "jstep (JE, fs) c =
     (if c = CHR ''+'' \<or> c = CHR ''-'' then Some (False, JESign, fs) else step_esign fs c)"
| "jstep (JESign, fs) c = step_esign fs c"
| "jstep (JE0, fs) c = (if is_digit c then Some (False, JE0, fs) else end_value fs c)"
| "jstep (JLit rest, fs) c =
     (case rest of [] \<Rightarrow> None
      | x # xs \<Rightarrow> if c = x then Some (False, if xs = [] then JEnd else JLit xs, fs) else None)"

text \<open>\<open>scanner.eof\<close>: the value is complete, possibly after one virtual space.\<close>

definition at_end :: "jstate \<Rightarrow> bool" where
  "at_end st \<longleftrightarrow> fst st = JTop \<or>
     (case jstep st (CHR '' '') of Some (_, JTop, _) \<Rightarrow> True | _ \<Rightarrow> False)"

section \<open>Compaction\<close>

definition html_escape :: "char \<Rightarrow> string" where
  "html_escape c =
     [CHR 0x5C, CHR ''u'', CHR ''0'', CHR ''0'', hex_digit (byte c div 16), hex_digit (byte c mod 16)]"

definition is_html :: "char \<Rightarrow> bool" where
  "is_html c \<longleftrightarrow> c = CHR ''<'' \<or> c = CHR ''>'' \<or> c = CHR ''&''"

text \<open>The byte \<open>c\<close> with what follows it is U+2028 or U+2029.\<close>

definition is_line_sep :: "char \<Rightarrow> string \<Rightarrow> bool" where
  "is_line_sep c s \<longleftrightarrow> c = CHR 0xE2 \<and>
     (case s of x # y # _ \<Rightarrow> x = CHR 0x80 \<and> (y = CHR 0xA8 \<or> y = CHR 0xA9) | _ \<Rightarrow> False)"

definition line_sep_escape :: "string \<Rightarrow> string" where
  "line_sep_escape s =
     [CHR 0x5C, CHR ''u'', CHR ''2'', CHR ''0'', CHR ''2'', hex_digit (byte (s ! 1) mod 16)]"

text \<open>\<open>k\<close> counts the bytes of a line separator still to be dropped from the output.\<close>

fun compact_from :: "bool \<Rightarrow> nat \<Rightarrow> jstate \<Rightarrow> string \<Rightarrow> string option" where
  "compact_from esc k st [] = (if at_end st then Some [] else None)"
| "compact_from esc k st (c # s) =
     (case jstep st c of None \<Rightarrow> None
      | Some (skip, st') \<Rightarrow>
          if k > 0 then compact_from esc (k - 1) st' s
          else if esc \<and> is_html c then map_option (\<lambda>r. html_escape c @ r) (compact_from esc 0 st' s)
          else if esc \<and> is_line_sep c s
            then map_option (\<lambda>r. line_sep_escape s @ r) (compact_from esc 2 st' s)
          else map_option (\<lambda>r. if skip then r else c # r) (compact_from esc 0 st' s))"

definition json_start :: jstate where
  "json_start = (JVal, [])"

definition json_compact :: "string \<Rightarrow> string option" where
  "json_compact s = compact_from False 0 json_start s"

definition json_compact_escaped :: "string \<Rightarrow> string option" where
  "json_compact_escaped s = compact_from True 0 json_start s"

definition json_valid :: "string \<Rightarrow> bool" where
  "json_valid s \<longleftrightarrow> json_compact s \<noteq> None"

text \<open>
  Idempotence. Scanning the compacted text, the scanner can lag behind in exactly one way: where a
  space ended a number in the original, the number is still open in the compacted text.
\<close>

definition num_open :: "jst \<Rightarrow> bool" where
  "num_open st \<longleftrightarrow> st \<in> {J1, J0, JDot0, JE0, JEnd}"

definition lags :: "jstate \<Rightarrow> jstate \<Rightarrow> bool" where
  "lags a b \<longleftrightarrow> a = b \<or>
     snd a = snd b \<and> num_open (fst b) \<and> (fst a = JEnd \<and> snd a \<noteq> [] \<or> fst a = JTop \<and> snd a = [])"

lemma space_facts:
  "is_jspace c \<Longrightarrow> \<not> is_digit c" "is_jspace c \<Longrightarrow> \<not> is_hex c" "is_jspace c \<Longrightarrow> c \<noteq> CHR ''.''"
  "is_jspace c \<Longrightarrow> c \<noteq> CHR ''e''" "is_jspace c \<Longrightarrow> c \<noteq> CHR ''E''"
  by (auto simp: is_jspace_def is_digit_def is_hex_def)

lemma end_value_skip: "end_value fs c = Some (True, st) \<Longrightarrow>
   is_jspace c \<and> st = (if fs = [] then JTop else JEnd, fs)"
  by (cases fs) (auto split: if_splits frame.splits)

lemma jstep_skip:
  assumes "jstep a c = Some (True, a')"
  shows "a' = a \<or> num_open (fst a) \<and> a' = (if snd a = [] then JTop else JEnd, snd a)"
  using assms
  by (cases "(a, c)" rule: jstep.cases)
    (auto simp: num_open_def begin_value_def begin_string_def step_0_def step_esign_def push_frame_def
      dest!: end_value_skip split: if_splits list.splits)

lemma end_value_chars: "end_value (f # fs) c = Some (False, st) \<Longrightarrow>
   c \<in> {CHR '':'', CHR '','', CHR ''}'', CHR '']''}"
  by (auto split: if_splits frame.splits)

lemma num_open_step: "num_open st \<Longrightarrow> end_value (f # fs) c = Some (False, r) \<Longrightarrow>
   jstep (st, f # fs) c = Some (False, r)"
  using end_value_chars[of f fs c r]
  by (auto simp: num_open_def step_0_def is_digit_def simp del: end_value.simps)

lemma lags_skip: "jstep a c = Some (True, a') \<Longrightarrow> lags a b \<Longrightarrow> lags a' b"
  using jstep_skip[of a c a'] by (auto simp: lags_def num_open_def)

lemma lags_keep:
  assumes "jstep a c = Some (False, a')" and "lags a b"
  shows "jstep b c = Some (False, a')"
proof (cases "a = b")
  case True
  with assms show ?thesis by simp
next
  case False
  with assms(2) have b: "num_open (fst b)" "snd a = snd b"
    and a: "fst a = JEnd \<and> snd a \<noteq> [] \<or> fst a = JTop" by (auto simp: lags_def)
  from a show ?thesis
  proof
    assume "fst a = JEnd \<and> snd a \<noteq> []"
    then obtain f fs where "a = (JEnd, f # fs)" by (cases a) (auto simp: neq_Nil_conv)
    with assms(1) b show ?thesis
      using num_open_step[of "fst b" f fs c a'] by (cases b) (auto simp del: end_value.simps)
  next
    assume "fst a = JTop"
    with assms(1) show ?thesis by (cases a) (auto split: if_splits)
  qed
qed

lemma num_open_at_end: "num_open st \<Longrightarrow> at_end (st, [])"
  by (auto simp: num_open_def at_end_def is_jspace_def step_0_def is_digit_def)

lemma lags_at_end: "at_end a \<Longrightarrow> lags a b \<Longrightarrow> at_end b"
proof (cases "a = b")
  case False
  assume fin: "at_end a" and "lags a b"
  with False have b: "num_open (fst b)" "snd a = snd b"
    and a: "fst a = JEnd \<and> snd a \<noteq> [] \<or> fst a = JTop \<and> snd a = []" by (auto simp: lags_def)
  have "snd a = []"
  proof (rule ccontr)
    assume ne: "snd a \<noteq> []"
    then obtain f fs where "snd a = f # fs" by (cases "snd a") auto
    with a ne have "a = (JEnd, f # fs)" by (cases a) auto
    then have "jstep a (CHR '' '') = Some (True, JEnd, f # fs)" "fst a = JEnd"
      by (simp_all add: is_jspace_def)
    with fin show False by (simp add: at_end_def)
  qed
  with b show ?thesis using num_open_at_end[of "fst b"] by (cases b) simp
qed simp

lemma compact_lags: "compact_from False 0 a s = Some t \<Longrightarrow> lags a b \<Longrightarrow> compact_from False 0 b t = Some t"
proof (induction s arbitrary: a b t)
  case Nil
  then show ?case by (auto simp: lags_at_end split: if_splits)
next
  case (Cons c s)
  obtain skip a' where st: "jstep a c = Some (skip, a')"
    using Cons.prems(1) by (auto split: option.splits)
  then obtain r where r: "compact_from False 0 a' s = Some r" and t: "t = (if skip then r else c # r)"
    using Cons.prems(1) by (auto split: option.splits)
  show ?case
  proof (cases skip)
    case True
    with st have "lags a' b" using Cons.prems(2) by (simp add: lags_skip[of a c a' b])
    then have "compact_from False 0 b r = Some r" by (rule Cons.IH[OF r])
    with True t show ?thesis by simp
  next
    case False
    with st Cons.prems(2) have "jstep b c = Some (False, a')"
      by (simp add: lags_keep[of a c a' b])
    moreover have "compact_from False 0 a' r = Some r"
      by (rule Cons.IH[OF r]) (simp add: lags_def)
    ultimately show ?thesis using False t by simp
  qed
qed

lemma json_compact_idem: "json_compact s = Some t \<Longrightarrow> json_compact t = Some t"
  unfolding json_compact_def by (erule compact_lags) (simp add: lags_def)

lemma json_valid_compact: "json_compact s = Some t \<Longrightarrow> json_valid t"
  by (simp add: json_valid_def json_compact_idem)

lemma compact_subset: "compact_from False k st s = Some t \<Longrightarrow> set t \<subseteq> set s"
proof (induction s arbitrary: k st t)
  case (Cons c s)
  obtain skip st' where st: "jstep st c = Some (skip, st')"
    using Cons.prems by (auto split: option.splits)
  show ?case
  proof (cases "k > 0")
    case True
    with Cons.prems st have "compact_from False (k - 1) st' s = Some t" by simp
    from Cons.IH[OF this] show ?thesis by auto
  next
    case False
    with Cons.prems st obtain r where r: "compact_from False 0 st' s = Some r"
      and "t = (if skip then r else c # r)" by auto
    then show ?thesis using Cons.IH[OF r] by auto
  qed
qed (auto split: if_splits)

section \<open>Where the escaping compaction differs\<close>

text \<open>Nothing in the text needs escaping.\<close>

fun html_free :: "string \<Rightarrow> bool" where
  "html_free [] = True"
| "html_free (c # s) = (\<not> is_html c \<and> \<not> is_line_sep c s \<and> html_free s)"

lemma compact_escaped_free: "html_free s \<Longrightarrow> compact_from True 0 st s = compact_from False 0 st s"
  by (induction s arbitrary: st) (auto split: option.splits)

lemma json_compact_escaped_free: "html_free s \<Longrightarrow> json_compact_escaped s = json_compact s"
  by (simp add: json_compact_def json_compact_escaped_def compact_escaped_free)

lemma compact_escaped_total: "compact_from True k st s = None \<longleftrightarrow> compact_from False 0 st s = None"
  by (induction s arbitrary: k st) (auto split: option.splits)

text \<open>A kept byte that needs escaping never survives the escaping compaction.\<close>

lemma hex_digit_clean: "n < 16 \<Longrightarrow> \<not> is_html (hex_digit n)"
  using hex_digit_mem[of n] by (auto simp: is_html_def)

lemma html_escape_clean: "d \<in> set (html_escape c) \<Longrightarrow> \<not> is_html d"
  using hex_digit_clean[of "byte c div 16"] hex_digit_clean[of "byte c mod 16"]
  by (auto simp: html_escape_def byte_div_16 is_html_def)

lemma line_sep_escape_clean: "d \<in> set (line_sep_escape s) \<Longrightarrow> \<not> is_html d"
  using hex_digit_clean[of "byte (s ! 1) mod 16"]
  by (auto simp: line_sep_escape_def is_html_def)

lemma compact_escaped_clean: "compact_from True k st s = Some t \<Longrightarrow> c \<in> set t \<Longrightarrow> \<not> is_html c"
proof (induction s arbitrary: k st t)
  case (Cons x s)
  obtain skip st' where st: "jstep st x = Some (skip, st')"
    using Cons.prems(1) by (auto split: option.splits)
  have "\<exists>pre r j. t = pre @ r \<and> compact_from True j st' s = Some r \<and> (\<forall>d \<in> set pre. \<not> is_html d)"
  proof -
    consider "k > 0" | "k = 0" "is_html x" | "k = 0" "\<not> is_html x" "is_line_sep x s"
      | "k = 0" "\<not> is_html x" "\<not> is_line_sep x s" by auto
    then show ?thesis
    proof cases
      case 1
      with Cons.prems(1) st have "t = [] @ t" "compact_from True (k - 1) st' s = Some t" by simp_all
      then show ?thesis by (metis empty_iff list.set(1))
    next
      case 2
      with Cons.prems(1) st obtain r where "t = html_escape x @ r" "compact_from True 0 st' s = Some r"
        by auto
      then show ?thesis by (metis html_escape_clean)
    next
      case 3
      with Cons.prems(1) st obtain r where "t = line_sep_escape s @ r" "compact_from True 2 st' s = Some r"
        by auto
      then show ?thesis by (metis line_sep_escape_clean)
    next
      case 4
      with Cons.prems(1) st obtain r where "t = (if skip then [] else [x]) @ r"
        "compact_from True 0 st' s = Some r" by auto
      moreover have "\<forall>d \<in> set (if skip then [] else [x]). \<not> is_html d" using 4 by simp
      ultimately show ?thesis by metis
    qed
  qed
  then show ?case using Cons.IH Cons.prems(2) by (metis Un_iff set_append)
qed (auto split: if_splits)

end
