(* ===== verification/JsonFields.thy ===== *)
theory JsonFields
  imports Json
begin

text \<open>
  \<open>json.Marshal\<close> and \<open>json.Unmarshal\<close> for structs whose fields are strings, the shape of every
  \<open>approval_actions.args\<close> and \<open>metadata\<close> value. The producer marshals, Postgres stores, the executor
  unmarshals: \<open>unmarshal_marshal\<close> is the round trip for valid UTF-8 values.
\<close>

section \<open>String literals\<close>

definition replacement :: string where
  "replacement = [CHR 0xEF, CHR 0xBF, CHR 0xBD]"

text \<open>\<open>utf8.AppendRune\<close>.\<close>

definition encode_rune :: "nat \<Rightarrow> string" where
  "encode_rune n =
     (if n < 128 then [char_of n]
      else if n < 2048 then [char_of (192 + n div 64), char_of (128 + n mod 64)]
      else if 55296 \<le> n \<and> n < 57344 \<or> n > 1114111 then replacement
      else if n < 65536
        then [char_of (224 + n div 4096), char_of (128 + n div 64 mod 64), char_of (128 + n mod 64)]
      else [char_of (240 + n div 262144), char_of (128 + n div 4096 mod 64),
            char_of (128 + n div 64 mod 64), char_of (128 + n mod 64)])"

definition hex_val :: "char \<Rightarrow> nat" where
  "hex_val c =
     (if is_digit c then byte c - 48
      else if 97 \<le> byte c \<and> byte c \<le> 102 then byte c - 87
      else byte c - 55)"

text \<open>\<open>getu4\<close>: the value of a \<open>\uXXXX\<close> escape at the start of the text.\<close>

definition get_u4 :: "string \<Rightarrow> nat option" where
  "get_u4 s =
     (if length s \<ge> 6 \<and> s ! 0 = CHR 0x5C \<and> s ! 1 = CHR ''u'' \<and> list_all is_hex (take 4 (drop 2 s))
      then Some (foldl (\<lambda>a c. 16 * a + hex_val c) 0 (take 4 (drop 2 s))) else None)"

definition is_surrogate :: "nat \<Rightarrow> bool" where
  "is_surrogate n \<longleftrightarrow> 55296 \<le> n \<and> n < 57344"

text \<open>\<open>utf16.DecodeRune\<close>, \<open>None\<close> for an invalid pair.\<close>

definition surrogate_pair :: "nat \<Rightarrow> nat option \<Rightarrow> nat option" where
  "surrogate_pair r1 r2 =
     (case r2 of None \<Rightarrow> None
      | Some r \<Rightarrow> if r1 < 56320 \<and> 56320 \<le> r \<and> r < 57344
                 then Some ((r1 - 55296) * 1024 + (r - 56320) + 65536) else None)"

definition unescape_char :: "char \<Rightarrow> char" where
  "unescape_char c =
     (if c = CHR ''b'' then CHR 0x08 else if c = CHR ''f'' then CHR 0x0C
      else if c = CHR ''n'' then CHR 0x0A else if c = CHR ''r'' then CHR 0x0D
      else if c = CHR ''t'' then CHR 0x09 else c)"

text \<open>\<open>unquoteBytes\<close> on the text between the quotes of a literal the scanner accepted.\<close>

function unescape :: "string \<Rightarrow> string" where
  "unescape s =
     (if s = [] then []
      else if hd s = CHR 0x5C then
        (case get_u4 s of
           Some r \<Rightarrow>
             if is_surrogate r then
               (case surrogate_pair r (get_u4 (drop 6 s)) of
                  Some d \<Rightarrow> encode_rune d @ unescape (drop 12 s)
                | None \<Rightarrow> replacement @ unescape (drop 6 s))
             else encode_rune r @ unescape (drop 6 s)
         | None \<Rightarrow>
             if length s = 1 then [] else unescape_char (s ! 1) # unescape (drop 2 s))
      else if rune_len s = 0 then replacement @ unescape (tl s)
      else take (rune_len s) s @ unescape (drop (rune_len s) s))"
  by pat_completeness auto
termination
  by (relation "measure length") (auto simp: neq_Nil_conv)

declare unescape.simps [simp del]

text \<open>\<open>appendString\<close> with HTML escaping, the default of \<open>json.Marshal\<close>.\<close>

definition escape_ascii :: "char \<Rightarrow> string" where
  "escape_ascii c =
     (if c = CHR 0x22 \<or> c = CHR 0x5C then [CHR 0x5C, c]
      else if byte c = 8 then [CHR 0x5C, CHR ''b'']
      else if byte c = 12 then [CHR 0x5C, CHR ''f'']
      else if byte c = 10 then [CHR 0x5C, CHR ''n'']
      else if byte c = 13 then [CHR 0x5C, CHR ''r'']
      else if byte c = 9 then [CHR 0x5C, CHR ''t'']
      else if byte c < 32 \<or> is_html c then html_escape c
      else [c])"

function escape :: "string \<Rightarrow> string" where
  "escape s =
     (if s = [] then []
      else if byte (hd s) < 128 then escape_ascii (hd s) @ escape (tl s)
      else if rune_len s = 0 then [CHR 0x5C, CHR ''u'', CHR ''f'', CHR ''f'', CHR ''f'', CHR ''d''] @ escape (tl s)
      else if is_line_sep (hd s) (tl s) then line_sep_escape (tl s) @ escape (drop 3 s)
      else take (rune_len s) s @ escape (drop (rune_len s) s))"
  by pat_completeness auto
termination
  by (relation "measure length") (auto simp: neq_Nil_conv)

declare escape.simps [simp del]

definition quote_json :: "string \<Rightarrow> string" where
  "quote_json s = [CHR 0x22] @ escape s @ [CHR 0x22]"

lemma hex_table: "list_all (\<lambda>n. hex_val (hex_digit n) = n \<and> is_hex (hex_digit n)) [0..<16]"
  by code_simp

lemma hex_val_digit: "n < 16 \<Longrightarrow> hex_val (hex_digit n) = n" "n < 16 \<Longrightarrow> is_hex (hex_digit n)"
  using hex_table by (auto simp: list_all_iff)

lemma get_u4_intro:
  assumes "a < 16" "b < 16" "c < 16" "d < 16"
  shows "get_u4 ([CHR 0x5C, CHR ''u'', hex_digit a, hex_digit b, hex_digit c, hex_digit d] @ t) =
    Some (4096 * a + 256 * b + 16 * c + d)"
  using assms by (simp add: get_u4_def hex_val_digit)

lemma get_u4_html: "get_u4 (html_escape c @ t) = Some (byte c)"
proof -
  have "html_escape c =
    [CHR 0x5C, CHR ''u'', hex_digit 0, hex_digit 0, hex_digit (byte c div 16), hex_digit (byte c mod 16)]"
    by (simp add: html_escape_def hex_digit_def)
  then show ?thesis
    using get_u4_intro[of 0 0 "byte c div 16" "byte c mod 16" t] by (simp add: byte_div_16)
qed

lemma length_html_escape [simp]: "length (html_escape c) = 6"
  by (simp add: html_escape_def)

lemma encode_rune_byte: "byte c < 128 \<Longrightarrow> encode_rune (byte c) = [c]"
  by (simp add: encode_rune_def)

lemma unescape_html: "byte c < 128 \<Longrightarrow> unescape (html_escape c @ t) = c # unescape t"
  by (subst unescape.simps)
    (simp add: get_u4_html is_surrogate_def encode_rune_byte, simp add: html_escape_def)

lemma unescape_simple:
  "c \<noteq> CHR ''u'' \<Longrightarrow> unescape (CHR 0x5C # c # t) = unescape_char c # unescape t"
  by (subst unescape.simps) (simp add: get_u4_def)

lemma unescape_plain: "c \<noteq> CHR 0x5C \<Longrightarrow> byte c < 128 \<Longrightarrow> unescape (c # t) = c # unescape t"
  by (subst unescape.simps) (simp add: rune_len_ascii)

lemma unescape_Nil [simp]: "unescape [] = []"
  by (simp add: unescape.simps)

lemma byte_eq_iff: "byte c = byte d \<longleftrightarrow> c = d"
  by (simp add: of_char_eq_iff)

lemma byte_cases: "byte c = 8 \<Longrightarrow> c = CHR 0x08" "byte c = 12 \<Longrightarrow> c = CHR 0x0C"
  "byte c = 10 \<Longrightarrow> c = CHR 0x0A" "byte c = 13 \<Longrightarrow> c = CHR 0x0D" "byte c = 9 \<Longrightarrow> c = CHR 0x09"
  by (simp_all add: byte_eq_iff[symmetric])

lemma unescape_escape_ascii: "byte c < 128 \<Longrightarrow> unescape (escape_ascii c @ t) = c # unescape t"
  by (auto simp: escape_ascii_def unescape_simple unescape_char_def unescape_html unescape_plain dest!: byte_cases)

lemma unescape_rune:
  assumes "0 < rune_len s" "128 \<le> byte (hd s)" "s \<noteq> []"
  shows "unescape (take (rune_len s) s @ t) = take (rune_len s) s @ unescape t"
proof -
  have "hd (take (rune_len s) s @ t) = hd s" using assms by (cases s) (auto simp: take_Cons')
  then have "hd (take (rune_len s) s @ t) \<noteq> CHR 0x5C" using assms(2) by auto
  moreover have "take (rune_len s) s \<noteq> []" using assms by simp
  ultimately show ?thesis
    using rune_len_take[OF assms(1), of t] rune_len_le[of s] assms(1)
    by (subst unescape.simps) simp
qed

lemma unescape_line_sep:
  assumes "is_line_sep c s"
  shows "unescape (line_sep_escape s @ t) = c # take 2 s @ unescape t"
proof -
  obtain y r where s: "s = CHR 0x80 # y # r" "y = CHR 0xA8 \<or> y = CHR 0xA9" and c: "c = CHR 0xE2"
    using assms by (auto simp: is_line_sep_def split: list.splits)
  have "line_sep_escape s =
    [CHR 0x5C, CHR ''u'', hex_digit 2, hex_digit 0, hex_digit 2, hex_digit (byte y mod 16)]"
    by (simp add: line_sep_escape_def s hex_digit_def)
  then have "get_u4 (line_sep_escape s @ t) = Some (8224 + byte y mod 16)"
    using get_u4_intro[of 2 0 2 "byte y mod 16" t] by simp
  moreover have "drop 6 (line_sep_escape s @ t) = t" by (simp add: line_sep_escape_def)
  moreover have "encode_rune (8224 + byte y mod 16) = c # take 2 s"
    using s c by (auto simp: encode_rune_def byte_eq_iff[symmetric])
  ultimately show ?thesis
    using s by (subst unescape.simps) (auto simp: line_sep_escape_def is_surrogate_def)
qed

lemma line_sep_rune_len: "is_line_sep c s \<Longrightarrow> rune_len (c # s) = 3"
  by (auto simp: is_line_sep_def rune_len_def rune_ranges_def split: list.splits)

lemma unescape_escape: "valid_utf8 s \<Longrightarrow> unescape (escape s) = s"
proof (induction s rule: escape.induct)
  case (1 s)
  consider "s = []" | "s \<noteq> []" "byte (hd s) < 128" | "s \<noteq> []" "\<not> byte (hd s) < 128" by auto
  then show ?case
  proof cases
    case 2
    then obtain c r where s: "s = c # r" by (cases s) auto
    with 2 "1.prems" have "valid_utf8 r" by simp
    with "1.IH"(1) 2 s show ?thesis
      by (subst escape.simps) (simp add: unescape_escape_ascii)
  next
    case 3
    with "1.prems" have n: "0 < rune_len s" and v: "valid_utf8 (drop (rune_len s) s)"
      by (simp_all add: valid_utf8.simps[of s] split: if_splits)
    obtain c r where s: "s = c # r" using 3(1) by (cases s) auto
    show ?thesis
    proof (cases "is_line_sep c r")
      case True
      with s have l3: "rune_len s = 3" by (simp add: line_sep_rune_len)
      with v have v3: "valid_utf8 (drop 3 s)" by simp
      have "unescape (escape (drop 3 s)) = drop 3 s"
        by (rule "1.IH"(3)) (use 3 n s True v3 in auto)
      then have "unescape (escape s) = c # take 2 r @ drop 2 r"
        using 3 n s True by (subst escape.simps) (simp add: unescape_line_sep)
      then show ?thesis using s by simp
    next
      case False
      have "unescape (escape (drop (rune_len s) s)) = drop (rune_len s) s"
        by (rule "1.IH"(4)) (use 3 n s False v in auto)
      moreover have "escape s = take (rune_len s) s @ escape (drop (rune_len s) s)"
        using 3 n s False by (subst escape.simps) simp
      moreover have "128 \<le> byte (hd s)" using 3 by simp
      ultimately show ?thesis using unescape_rune[OF n _ 3(1)] by simp
    qed
  qed (simp add: escape.simps)
qed

section \<open>Structs of string fields\<close>

text \<open>\<open>json.Marshal\<close> of a struct, given its fields in declaration order.\<close>

definition field_text :: "string \<times> string \<Rightarrow> string" where
  "field_text kv = quote_json (fst kv) @ [CHR '':''] @ quote_json (snd kv)"

definition marshal_fields :: "(string \<times> string) list \<Rightarrow> string" where
  "marshal_fields kvs = [CHR ''{''] @ join_with [CHR '',''] (map field_text kvs) @ [CHR ''}'']"

text \<open>An \<open>omitempty\<close> field.\<close>

definition omit_empty :: "string \<Rightarrow> string \<Rightarrow> (string \<times> string) list" where
  "omit_empty k v = (if v = [] then [] else [(k, v)])"

text \<open>
  The members of a top-level object as raw (key, value) texts, read off with the scanner: inside the
  outermost braces everything up to the colon is the key, everything up to the comma is the value.
\<close>

fun members_from :: "jstate \<Rightarrow> string \<Rightarrow> string \<Rightarrow> string \<Rightarrow> (string \<times> string) list" where
  "members_from st k v [] = []"
| "members_from st k v (c # s) =
     (case jstep st c of None \<Rightarrow> []
      | Some (skip, st') \<Rightarrow>
          if snd st = [] then members_from st' [] [] s
          else if snd st = [FVal] \<and> st' = (JKey, [FKey]) then (k, v) # members_from st' [] [] s
          else if snd st = [FVal] \<and> st' = (JTop, []) then [(k, v)]
          else if snd st = [FKey] \<and> st' = (JVal, [FVal]) then members_from st' k v s
          else if skip then members_from st' k v s
          else if snd st = [FKey] then members_from st' (k @ [c]) v s
          else members_from st' k (v @ [c]) s)"

definition json_members :: "string \<Rightarrow> (string \<times> string) list" where
  "json_members s = members_from json_start [] [] s"

text \<open>The contents of a string literal, given with its quotes.\<close>

definition unquote_json :: "string \<Rightarrow> string" where
  "unquote_json raw = unescape (butlast (tl raw))"

text \<open>
  \<open>foldName\<close>: field names match up to simple case folding; besides ASCII letters that identifies the
  long s (U+017F) with s and the Kelvin sign (U+212A) with k.
\<close>

function fold_name :: "string \<Rightarrow> string" where
  "fold_name s =
     (if s = [] then []
      else if starts_with s [CHR 0xC5, CHR 0xBF] then CHR ''s'' # fold_name (drop 2 s)
      else if starts_with s [CHR 0xE2, CHR 0x84, CHR 0xAA] then CHR ''k'' # fold_name (drop 3 s)
      else lower_char (hd s) # fold_name (tl s))"
  by pat_completeness auto
termination
  by (relation "measure length") (auto simp: neq_Nil_conv)

declare fold_name.simps [simp del]

text \<open>The field a key is decoded into: an exact match first, then a match of the folded names.\<close>

definition field_of_key :: "string list \<Rightarrow> string \<Rightarrow> string option" where
  "field_of_key names key =
     (if key \<in> set names then Some key else find (\<lambda>n. fold_name n = fold_name key) names)"

text \<open>
  \<open>json.Unmarshal\<close> into a struct with string fields \<open>names\<close>, all empty before: the decoded values, or an
  error. The first type error is kept while decoding goes on, and then returned.
\<close>

definition decode_member ::
  "string list \<Rightarrow> string \<times> string \<Rightarrow> bool \<times> (string \<Rightarrow> string) \<Rightarrow> bool \<times> (string \<Rightarrow> string)" where
  "decode_member names kv acc =
     (case field_of_key names (unquote_json (fst kv)) of
        None \<Rightarrow> acc
      | Some n \<Rightarrow>
          (case snd kv of
             [] \<Rightarrow> acc
           | c # _ \<Rightarrow>
               if c = CHR 0x22 then (fst acc, (snd acc)(n := unquote_json (snd kv)))
               else if c = CHR ''n'' then acc
               else (True, snd acc)))"

definition unmarshal_strings :: "string list \<Rightarrow> string \<Rightarrow> err + (string \<Rightarrow> string)" where
  "unmarshal_strings names raw =
     (if \<not> json_valid raw then Inl (ErrNew ''invalid JSON'')
      else (case json_compact raw of
          Some (c # _) \<Rightarrow>
            if c = CHR ''{'' then
              (case fold (decode_member names) (json_members raw) (False, (\<lambda>_. [])) of
                 (bad, m) \<Rightarrow>
                   if bad then Inl (ErrNew ''json: cannot unmarshal value into Go struct field of type string'')
                   else Inr m)
            else if c = CHR ''n'' then Inr (\<lambda>_. [])
            else Inl (ErrNew ''json: cannot unmarshal value into Go value of type struct'')
        | _ \<Rightarrow> Inl (ErrNew ''unexpected end of JSON input'')))"

text \<open>
  The scanner inside a string literal: \<open>str_run st x\<close> when \<open>x\<close> leads from \<open>st\<close> back to \<open>JStr\<close> without
  closing the literal.
\<close>

definition in_str :: "jst \<Rightarrow> bool" where
  "in_str st \<longleftrightarrow> st = JStr \<or> st = JEsc \<or> (\<exists>n. st = JHex n)"

lemma in_str_simps [simp]: "in_str JStr" "in_str JEsc" "in_str (JHex n)"
  by (simp_all add: in_str_def)

lemma is_hex_literal [simp]: "is_hex (CHR ''0'')" "is_hex (CHR ''2'')" "is_hex (CHR ''f'')" "is_hex (CHR ''d'')"
  by (simp_all add: is_hex_def is_digit_def)

fun str_run :: "jst \<Rightarrow> string \<Rightarrow> bool" where
  "str_run st [] = (st = JStr)"
| "str_run st (c # s) =
     (in_str st \<and> (case jstep (st, []) c of Some (_, st', _) \<Rightarrow> st' \<noteq> JEnd \<and> str_run st' s | None \<Rightarrow> False))"

lemma in_str_step:
  assumes "in_str st" and "jstep (st, []) c = Some (b, st', fs')"
  shows "jstep (st, fs) c = Some (False, st', fs)" and "\<not> b" and "st' = JEnd \<or> in_str st'"
  using assms by (auto simp: in_str_def split: if_splits)

lemma str_run_members:
  assumes "in_str st" and "str_run st x" and "fr = FVal \<or> fr = FKey"
  shows "members_from (st, [fr]) k v (x @ t) =
    (if fr = FKey then members_from (JStr, [fr]) (k @ x) v t
     else members_from (JStr, [fr]) k (v @ x) t)"
  using assms
proof (induction x arbitrary: st k v)
  case Nil
  then show ?case by simp
next
  case (Cons c x)
  from Cons.prems obtain b st' fs' where s: "jstep (st, []) c = Some (b, st', fs')"
    and st': "st' \<noteq> JEnd" "str_run st' x" by (auto split: option.splits prod.splits)
  note * = in_str_step[OF Cons.prems(1) s]
  have i: "in_str st'" using * st' by blast
  then have "st' \<noteq> JKey" "st' \<noteq> JTop" "st' \<noteq> JVal" by (auto simp: in_str_def)
  with Cons.IH[OF i st'(2) Cons.prems(3)] *(1)[of "[fr]"] Cons.prems(3) show ?case
    by auto
qed

lemma str_run_compact:
  assumes "in_str st" and "str_run st x"
  shows "compact_from False 0 (st, fs) (x @ t) = map_option (\<lambda>r. x @ r) (compact_from False 0 (JStr, fs) t)"
  using assms
proof (induction x arbitrary: st)
  case Nil
  then show ?case by (simp add: option.map_ident)
next
  case (Cons c x)
  from Cons.prems obtain b st' fs' where s: "jstep (st, []) c = Some (b, st', fs')"
    and st': "st' \<noteq> JEnd" "str_run st' x" by (auto split: option.splits prod.splits)
  note * = in_str_step[OF Cons.prems(1) s]
  have i: "in_str st'" using * st' by blast
  from Cons.IH[OF i st'(2)] *(1)[of fs] show ?case
    by (simp add: option.map_comp comp_def)
qed

lemma str_run_append: "str_run st x \<Longrightarrow> str_run JStr y \<Longrightarrow> str_run st (x @ y)"
  by (induction st x rule: str_run.induct) (auto split: option.splits prod.splits)

lemma str_run_plain: "list_all (\<lambda>c. 32 \<le> byte c \<and> c \<noteq> CHR 0x22 \<and> c \<noteq> CHR 0x5C) x \<Longrightarrow> str_run JStr x"
  by (induction x) (auto simp: in_str_def)

lemma str_run_hex4:
  "is_hex a \<Longrightarrow> is_hex b \<Longrightarrow> is_hex c \<Longrightarrow> is_hex d \<Longrightarrow> str_run JStr [CHR 0x5C, CHR ''u'', a, b, c, d]"
  by (simp add: in_str_def)

lemma str_run_html: "str_run JStr (html_escape c)"
  unfolding html_escape_def by (rule str_run_hex4) (simp_all add: hex_val_digit byte_div_16)

lemma str_run_line_sep: "str_run JStr (line_sep_escape s)"
  unfolding line_sep_escape_def by (rule str_run_hex4) (simp_all add: hex_val_digit)

lemma str_run_escape_ascii: "str_run JStr (escape_ascii c)"
  by (auto simp: escape_ascii_def str_run_html)

lemma rune_bytes_high:
  assumes "128 \<le> byte (hd s)" "c \<in> set (take (rune_len s) s)"
  shows "128 \<le> byte c"
proof -
  have high: "in_ranges ps r \<Longrightarrow> \<forall>p \<in> set ps. 128 \<le> fst p \<Longrightarrow> c \<in> set (take (length ps) r) \<Longrightarrow> 128 \<le> byte c"
    for ps r by (induction ps r rule: in_ranges.induct) auto
  have rr: "rune_ranges b = Some ps \<Longrightarrow> \<forall>p \<in> set ps. 128 \<le> fst p" for b ps
    by (auto simp: rune_ranges_def split: if_splits)
  show ?thesis using assms high rr
    by (fastforce simp: rune_len_def split: list.splits option.splits if_splits)
qed

lemma str_run_escape: "str_run JStr (escape s)"
proof (induction s rule: escape.induct)
  case (1 s)
  have rune: "str_run JStr (take (rune_len s) s)" if "\<not> byte (hd s) < 128"
  proof (rule str_run_plain)
    have "32 \<le> byte c \<and> c \<noteq> CHR 0x22 \<and> c \<noteq> CHR 0x5C" if "c \<in> set (take (rune_len s) s)" for c
      using rune_bytes_high[of s c] that \<open>\<not> byte (hd s) < 128\<close> by auto
    then show "list_all (\<lambda>c. 32 \<le> byte c \<and> c \<noteq> CHR 0x22 \<and> c \<noteq> CHR 0x5C) (take (rune_len s) s)"
      by (simp add: list_all_iff)
  qed
  have fffd: "str_run JStr [CHR 0x5C, CHR ''u'', CHR ''f'', CHR ''f'', CHR ''f'', CHR ''d'']"
    by (rule str_run_hex4) simp_all
  have IH: "s \<noteq> [] \<Longrightarrow> byte (hd s) < 128 \<Longrightarrow> str_run JStr (escape (tl s))"
    "s \<noteq> [] \<Longrightarrow> \<not> byte (hd s) < 128 \<Longrightarrow> rune_len s = 0 \<Longrightarrow> str_run JStr (escape (tl s))"
    "s \<noteq> [] \<Longrightarrow> \<not> byte (hd s) < 128 \<Longrightarrow> rune_len s \<noteq> 0 \<Longrightarrow> is_line_sep (hd s) (tl s) \<Longrightarrow>
       str_run JStr (escape (drop 3 s))"
    "s \<noteq> [] \<Longrightarrow> \<not> byte (hd s) < 128 \<Longrightarrow> rune_len s \<noteq> 0 \<Longrightarrow> \<not> is_line_sep (hd s) (tl s) \<Longrightarrow>
       str_run JStr (escape (drop (rune_len s) s))"
    using 1 by blast+
  show ?case
    by (subst escape.simps)
      (simp add: IH str_run_append[OF rune] str_run_append[OF str_run_escape_ascii]
        str_run_append[OF str_run_line_sep] str_run_append[OF fffd, simplified])
qed

section \<open>Round trip\<close>

lemma quote_cons: "quote_json x @ t = CHR 0x22 # escape x @ CHR 0x22 # t"
  by (simp add: quote_json_def)

lemma members_quote_key:
  assumes "st = JKey \<or> st = JKeyOrEmpty"
  shows "members_from (st, [FKey]) [] v (quote_json x @ t) =
    members_from (JEnd, [FKey]) (quote_json x) v t"
  using assms str_run_members[OF _ str_run_escape, where fr = FKey]
  by (auto simp: quote_cons begin_string_def is_jspace_def quote_json_def)

lemma members_quote_val:
  "members_from (JVal, [FVal]) k [] (quote_json x @ t) = members_from (JEnd, [FVal]) k (quote_json x) t"
  using str_run_members[OF _ str_run_escape, where fr = FVal]
  by (auto simp: quote_cons begin_value_def is_jspace_def quote_json_def)

lemma members_field:
  assumes "st = JKey \<or> st = JKeyOrEmpty"
  shows "members_from (st, [FKey]) [] [] (field_text kv @ t) =
    members_from (JEnd, [FVal]) (quote_json (fst kv)) (quote_json (snd kv)) t"
  by (simp add: field_text_def members_quote_key[OF assms] members_quote_val is_jspace_def)

definition quoted :: "string \<times> string \<Rightarrow> string \<times> string" where
  "quoted kv = (quote_json (fst kv), quote_json (snd kv))"

primrec more_fields :: "(string \<times> string) list \<Rightarrow> string" where
  "more_fields [] = []"
| "more_fields (kv # kvs) = CHR '','' # field_text kv @ more_fields kvs"

lemma join_fields:
  "join_with [CHR '',''] (map field_text []) = []"
  "join_with [CHR '',''] (map field_text (kv # kvs)) = field_text kv @ more_fields kvs"
proof -
  have "concat (map (\<lambda>q. [CHR '',''] @ q) (map field_text kvs)) = more_fields kvs"
    by (induction kvs) simp_all
  then show "join_with [CHR '',''] (map field_text (kv # kvs)) = field_text kv @ more_fields kvs"
    by (simp add: join_with_def comp_def)
qed (simp add: join_with_def)

lemma members_rest:
  "members_from (JEnd, [FVal]) k v (more_fields kvs @ [CHR ''}'']) =
   (k, v) # map quoted kvs"
proof (induction kvs arbitrary: k v)
  case Nil
  then show ?case by (simp add: is_jspace_def pop_frame_def)
next
  case (Cons kv kvs)
  then show ?case by (simp add: is_jspace_def pop_frame_def members_field quoted_def)
qed

lemma json_members_marshal: "json_members (marshal_fields kvs) = map quoted kvs"
proof (cases kvs)
  case Nil
  then show ?thesis
    by (simp add: json_members_def marshal_fields_def json_start_def join_fields[unfolded list.map] begin_value_def
      is_jspace_def push_frame_def max_nesting_def pop_frame_def)
next
  case (Cons kv rest)
  then show ?thesis
    using members_rest[of "quote_json (fst kv)" "quote_json (snd kv)" rest]
    by (simp add: json_members_def marshal_fields_def json_start_def join_fields[unfolded list.map] begin_value_def
      is_jspace_def push_frame_def max_nesting_def members_field quoted_def)
qed

lemma compact_quote:
  assumes "st = JKey \<or> st = JKeyOrEmpty \<or> st = JVal"
  shows "compact_from False 0 (st, fs) (quote_json x @ t) =
    map_option (\<lambda>r. quote_json x @ r) (compact_from False 0 (JEnd, fs) t)"
  using assms str_run_compact[OF _ str_run_escape, where fs = fs and t = "CHR 0x22 # t"]
  by (auto simp: quote_cons begin_string_def begin_value_def is_jspace_def option.map_comp comp_def)

lemma compact_field:
  assumes "st = JKey \<or> st = JKeyOrEmpty"
  shows "compact_from False 0 (st, FKey # fs) (field_text kv @ t) =
    map_option (\<lambda>r. field_text kv @ r) (compact_from False 0 (JEnd, FVal # fs) t)"
  using assms by (auto simp: field_text_def compact_quote is_jspace_def option.map_comp comp_def)

lemma compact_rest:
  "compact_from False 0 (JEnd, [FVal]) (more_fields kvs @ [CHR ''}'']) =
   Some (more_fields kvs @ [CHR ''}''])"
proof (induction kvs)
  case Nil
  then show ?case by (simp add: is_jspace_def pop_frame_def at_end_def)
next
  case (Cons kv kvs)
  then show ?case by (simp add: is_jspace_def pop_frame_def compact_field)
qed

lemma json_compact_marshal: "json_compact (marshal_fields kvs) = Some (marshal_fields kvs)"
proof (cases kvs)
  case Nil
  then show ?thesis
    by (simp add: json_compact_def marshal_fields_def json_start_def join_fields[unfolded list.map] begin_value_def
      is_jspace_def push_frame_def max_nesting_def pop_frame_def at_end_def)
next
  case (Cons kv rest)
  then show ?thesis
    using compact_rest[of rest]
    by (simp add: json_compact_def marshal_fields_def json_start_def join_fields[unfolded list.map] begin_value_def
      is_jspace_def push_frame_def max_nesting_def compact_field)
qed

lemma unquote_quote: "valid_utf8 s \<Longrightarrow> unquote_json (quote_json s) = s"
  by (simp add: unquote_json_def quote_json_def unescape_escape butlast_append)

lemma case_quote_json [simp]: "(case quote_json s of [] \<Rightarrow> a | c # r \<Rightarrow> f c) = f (CHR 0x22)"
  by (simp add: quote_json_def)

lemma decode_members_marshal:
  assumes "set (map fst kvs) \<subseteq> set names"
    and "list_all (\<lambda>kv. valid_utf8 (fst kv) \<and> valid_utf8 (snd kv)) kvs"
  shows "fold (decode_member names) (map quoted kvs) (False, m) =
    (False, \<lambda>n. case map_of (rev kvs) n of Some v \<Rightarrow> v | None \<Rightarrow> m n)"
  using assms
proof (induction kvs arbitrary: m)
  case Nil
  then show ?case by simp
next
  case (Cons kv kvs)
  then have "decode_member names (quoted kv) (False, m) = (False, m(fst kv := snd kv))"
    by (simp add: decode_member_def quoted_def unquote_quote field_of_key_def)
  with Cons show ?case
    by (auto simp: fun_eq_iff map_add_def split: option.splits)
qed

lemma unmarshal_marshal:
  assumes "set (map fst kvs) \<subseteq> set names" and "distinct (map fst kvs)"
    and "list_all (\<lambda>kv. valid_utf8 (fst kv) \<and> valid_utf8 (snd kv)) kvs"
  shows "unmarshal_strings names (marshal_fields kvs) =
    Inr (\<lambda>n. case map_of kvs n of Some v \<Rightarrow> v | None \<Rightarrow> [])"
proof -
  have "map_of (rev kvs) = map_of kvs"
    using assms(2) by (subst map_of_inject_set) (simp_all add: rev_map[symmetric])
  moreover obtain r where "marshal_fields kvs = CHR ''{'' # r"
    by (simp add: marshal_fields_def)
  moreover have "json_members (CHR ''{'' # r) = map quoted kvs" if "marshal_fields kvs = CHR ''{'' # r" for r
    using json_members_marshal[of kvs] that by simp
  ultimately show ?thesis
    using decode_members_marshal[OF assms(1,3)] json_compact_marshal[of kvs]
    by (simp add: unmarshal_strings_def json_valid_def)
qed

end
