(* ===== verification/Db.thy ===== *)
theory Db
  imports JsonFields
begin

text \<open>
  The database the store layer talks to.

  \<^item> One record per table of the migrations (NULLable columns are options, timestamps are unix
    seconds), collected in \<open>tables\<close>; the identity sequences are kept apart in \<open>seqs\<close>, because a rollback
    does not give their values back.
  \<^item> A store operation is a \<open>dbm\<close>: it takes the database state and returns an error or a value with the
    new state. \<open>bindE\<close> is the \<open>if err != nil { return err }\<close> of the code and \<open>tryE\<close> hands the
    error to the caller (the code that logs and goes on).
  \<^item> \<open>pg args f\<close> is one statement. It first meets the next entry of \<open>db_faults\<close>, so every
    statement can fail with any driver error; then it rejects text arguments Postgres cannot store; a
    statement that fails leaves the tables as they were.
  \<^item> \<open>in_tx\<close> is \<open>BeginTx ... defer Rollback ... Commit\<close>.

  The locale \<open>evolution\<close> is the interface by which every operation is checked once: for a
  reflexive and transitive relation on the tables, a composed operation relates the tables before and after
  if each of its statements does. Invariants, frames and monotonicity properties are interpretations of it.
\<close>

named_theorems evolve \<open>introduction rules for \<open>evolves\<close>\<close>

section \<open>Tables\<close>

record grantee_row =
  gr_id :: string
  gr_name :: "string option"
  gr_status :: string
  gr_created :: int

record email_row =
  em_email :: string
  em_grantee :: string

record source_row =
  so_id :: int
  so_grantee :: string
  so_type :: string
  so_drive :: string
  so_added :: int

record thread_row =
  th_id :: int
  th_root :: string
  th_subject :: "string option"
  th_grantee :: "string option"
  th_first :: int
  th_last :: int

record message_row =
  ms_id :: int
  ms_message_id :: string
  ms_thread :: int
  ms_grantee :: "string option"
  ms_folder :: string
  ms_uid :: int
  ms_uid_validity :: int
  ms_in_reply_to :: "string option"
  ms_references :: "string option"
  ms_from_addr :: string
  ms_from_name :: "string option"
  ms_to_addrs :: string
  ms_cc_addrs :: "string option"
  ms_subject :: "string option"
  ms_date :: int
  ms_body_text :: "string option"
  ms_body_html :: "string option"
  ms_size :: int
  ms_indexed :: int

record reference_row =
  rf_message :: int
  rf_ref :: string

record recipient_row =
  rc_message :: int
  rc_kind :: string
  rc_email :: string
  rc_name :: "string option"

record attachment_row =
  at_id :: int
  at_message :: int
  at_filename :: "string option"
  at_mime :: "string option"
  at_size :: int
  at_sha :: string
  at_path :: string

record mailbox_row =
  mb_folder :: string
  mb_uid_validity :: int
  mb_last_uid :: int
  mb_updated :: int

record doc_row =
  dc_id :: string
  dc_grantee :: string
  dc_title :: string
  dc_owner :: string
  dc_content :: string
  dc_modified :: int
  dc_synced :: int
  dc_source_type :: string
  dc_source_drive :: string
  dc_had_images :: bool
  dc_had_comments :: bool
  dc_status :: string
  dc_last_error :: "string option"
  dc_cycle :: "int option"

record sync_row =
  sy_key :: string
  sy_value :: "string option"

record user_row =
  us_email :: string
  us_key :: string
  us_fingerprint :: string
  us_created :: int

record action_row =
  ac_id :: int
  ac_action :: string
  ac_args :: string
  ac_metadata :: string
  ac_status :: string
  ac_requested_by :: "string option"
  ac_approved_by :: "string option"
  ac_created :: int
  ac_approved_at :: "int option"
  ac_executed_at :: "int option"
  ac_last_error :: "string option"

record note_row =
  no_id :: int
  no_grantee :: string
  no_kind :: string
  no_content :: string
  no_signal :: "string option"
  no_supersedes :: "int option"
  no_created :: int

record tables =
  t_grantees :: "grantee_row list"
  t_emails :: "email_row list"
  t_sources :: "source_row list"
  t_threads :: "thread_row list"
  t_messages :: "message_row list"
  t_references :: "reference_row list"
  t_recipients :: "recipient_row list"
  t_attachments :: "attachment_row list"
  t_mailboxes :: "mailbox_row list"
  t_docs :: "doc_row list"
  t_sync :: "sync_row list"
  t_users :: "user_row list"
  t_actions :: "action_row list"
  t_notes :: "note_row list"

text \<open>The next value of each identity column.\<close>

record seqs =
  q_sources :: int
  q_threads :: int
  q_messages :: int
  q_attachments :: int
  q_actions :: int
  q_notes :: int

text \<open>What can befall a statement on its way: a driver or connection error, or a cancelled context.\<close>

datatype fault = DriverFault string | CanceledFault

fun fault_err :: "fault \<Rightarrow> err" where
  "fault_err (DriverFault m) = ErrDriver m"
| "fault_err CanceledFault = ErrCanceled"

record db =
  db_tabs :: tables
  db_seqs :: seqs
  db_faults :: "fault option list"

definition empty_tables :: tables where
  "empty_tables = \<lparr> t_grantees = [], t_emails = [], t_sources = [], t_threads = [], t_messages = [],
     t_references = [], t_recipients = [], t_attachments = [], t_mailboxes = [], t_docs = [],
     t_sync = [], t_users = [], t_actions = [], t_notes = [] \<rparr>"

definition first_seqs :: seqs where
  "first_seqs = \<lparr> q_sources = 1, q_threads = 1, q_messages = 1, q_attachments = 1, q_actions = 1, q_notes = 1 \<rparr>"

definition fresh_db :: db where
  "fresh_db = \<lparr> db_tabs = empty_tables, db_seqs = first_seqs, db_faults = [] \<rparr>"

section \<open>Statements and composition\<close>

type_synonym 'a dbm = "db \<Rightarrow> (err + 'a) \<times> db"
type_synonym 'a statement = "tables \<Rightarrow> seqs \<Rightarrow> (err + 'a) \<times> tables \<times> seqs"

definition ret :: "'a \<Rightarrow> 'a dbm" where
  "ret x = (\<lambda>s. (Inr x, s))"

definition fail :: "err \<Rightarrow> 'a dbm" where
  "fail e = (\<lambda>s. (Inl e, s))"

definition tryE :: "'a dbm \<Rightarrow> (err + 'a \<Rightarrow> 'b dbm) \<Rightarrow> 'b dbm" where
  "tryE m k = (\<lambda>s. case m s of (r, s') \<Rightarrow> k r s')"

definition bindE :: "'a dbm \<Rightarrow> ('a \<Rightarrow> 'b dbm) \<Rightarrow> 'b dbm" where
  "bindE m f = tryE m (\<lambda>r. case r of Inl e \<Rightarrow> fail e | Inr x \<Rightarrow> f x)"

text \<open>A failing call whose error the code wraps: \<open>return fmt.Errorf("...: %w", err)\<close>.\<close>

definition wrapE :: "(err \<Rightarrow> err) \<Rightarrow> 'a dbm \<Rightarrow> 'a dbm" where
  "wrapE w m = tryE m (\<lambda>r. case r of Inl e \<Rightarrow> fail (w e) | Inr x \<Rightarrow> ret x)"

fun for_each :: "('a \<Rightarrow> unit dbm) \<Rightarrow> 'a list \<Rightarrow> unit dbm" where
  "for_each f [] = ret ()"
| "for_each f (x # xs) = bindE (f x) (\<lambda>_. for_each f xs)"

definition pg_run :: "string list \<Rightarrow> 'a statement \<Rightarrow> 'a dbm" where
  "pg_run args f s =
     (if \<not> list_all pg_text_ok args then (Inl (ErrPg ''22021''), s)
      else (case f (db_tabs s) (db_seqs s) of
          (Inl e, t, q) \<Rightarrow> (Inl e, s\<lparr>db_seqs := q\<rparr>)
        | (Inr x, t, q) \<Rightarrow> (Inr x, s\<lparr>db_tabs := t, db_seqs := q\<rparr>)))"

definition pg :: "string list \<Rightarrow> 'a statement \<Rightarrow> 'a dbm" where
  "pg args f s =
     (case db_faults s of
        [] \<Rightarrow> pg_run args f s
      | None # fs \<Rightarrow> pg_run args f (s\<lparr>db_faults := fs\<rparr>)
      | Some x # fs \<Rightarrow> (Inl (fault_err x), s\<lparr>db_faults := fs\<rparr>))"

text \<open>A query; a query for one row (\<open>QueryRow ... Scan\<close>); a statement without identity columns.\<close>

definition pg_read :: "string list \<Rightarrow> (tables \<Rightarrow> 'a) \<Rightarrow> 'a dbm" where
  "pg_read args f = pg args (\<lambda>t q. (Inr (f t), t, q))"

definition pg_row :: "string list \<Rightarrow> (tables \<Rightarrow> 'a option) \<Rightarrow> 'a dbm" where
  "pg_row args f = pg args (\<lambda>t q. (case f t of None \<Rightarrow> Inl ErrNoRows | Some x \<Rightarrow> Inr x, t, q))"

definition pg_modify :: "string list \<Rightarrow> (tables \<Rightarrow> err + 'a \<times> tables) \<Rightarrow> 'a dbm" where
  "pg_modify args f = pg args (\<lambda>t q. case f t of Inl e \<Rightarrow> (Inl e, t, q) | Inr (x, t') \<Rightarrow> (Inr x, t', q))"

definition in_tx :: "'a dbm \<Rightarrow> 'a dbm" where
  "in_tx m =
     bindE (pg_read [] (\<lambda>t. t)) (\<lambda>before.
       tryE m (\<lambda>r. case r of
         Inl e \<Rightarrow> (\<lambda>s. (Inl e, s\<lparr>db_tabs := before\<rparr>))
       | Inr x \<Rightarrow> tryE (pg_read [] (\<lambda>_. ())) (\<lambda>c. case c of
           Inl e \<Rightarrow> (\<lambda>s. (Inl e, s\<lparr>db_tabs := before\<rparr>))
         | Inr _ \<Rightarrow> ret x)))"

text \<open>\<open>nullStr\<close>: the empty string is stored as NULL. \<open>COALESCE(c, '')\<close> reads it back.\<close>

definition null_str :: "string \<Rightarrow> string option" where
  "null_str s = (if s = [] then None else Some s)"

definition coalesce :: "string option \<Rightarrow> string" where
  "coalesce s = (case s of None \<Rightarrow> [] | Some x \<Rightarrow> x)"

lemma coalesce_null_str [simp]: "coalesce (null_str s) = s"
  by (simp add: coalesce_def null_str_def)

lemma coalesce_simps [simp]: "coalesce None = []" "coalesce (Some x) = x"
  by (simp_all add: coalesce_def)

text \<open>\<open>requireOneRow\<close> and the same test written out: no row affected is \<open>ErrNotFound\<close>.\<close>

definition require_one_row :: "int \<Rightarrow> unit dbm" where
  "require_one_row n = (if n = 0 then fail ErrNotFound else ret ())"

section \<open>Reading off results\<close>

lemma tryE_eq: "tryE m k s = k (fst (m s)) (snd (m s))"
  by (simp add: tryE_def split: prod.split)

lemma bindE_eq: "bindE m f s =
   (case m s of (Inl e, s') \<Rightarrow> (Inl e, s') | (Inr x, s') \<Rightarrow> f x s')"
  by (auto simp: bindE_def tryE_def fail_def split: prod.split sum.split)

lemma wrapE_eq: "wrapE w m s =
   (case m s of (Inl e, s') \<Rightarrow> (Inl (w e), s') | (Inr x, s') \<Rightarrow> (Inr x, s'))"
  by (auto simp: wrapE_def tryE_def fail_def ret_def split: prod.split sum.split)

lemma ret_eq [simp]: "ret x s = (Inr x, s)"
  by (simp add: ret_def)

lemma fail_eq [simp]: "fail e s = (Inl e, s)"
  by (simp add: fail_def)

lemma bindE_ok: "fst (bindE m f s) = Inr y \<Longrightarrow> \<exists>x s'. m s = (Inr x, s') \<and> fst (f x s') = Inr y"
  by (auto simp: bindE_eq split: prod.splits sum.splits)

lemma bindE_Inr_iff:
  "bindE m f s = (Inr y, s'') \<longleftrightarrow> (\<exists>x s'. m s = (Inr x, s') \<and> f x s' = (Inr y, s''))"
  by (auto simp: bindE_eq split: prod.splits sum.splits)

lemma bindE_Inl_iff:
  "bindE m f s = (Inl e, s'') \<longleftrightarrow>
     m s = (Inl e, s'') \<or> (\<exists>x s'. m s = (Inr x, s') \<and> f x s' = (Inl e, s''))"
  by (auto simp: bindE_eq split: prod.splits sum.splits)

lemma wrapE_Inr_iff [simp]: "wrapE w m s = (Inr x, s') \<longleftrightarrow> m s = (Inr x, s')"
  by (auto simp: wrapE_eq split: prod.splits sum.splits)

text \<open>Without pending faults a statement just runs, and none are added.\<close>

lemma pg_clean: "db_faults s = [] \<Longrightarrow> pg args f s = pg_run args f s"
  by (simp add: pg_def)

lemma pg_run_faults [simp]: "db_faults (snd (pg_run args f s)) = db_faults s"
  by (auto simp: pg_run_def split: sum.split prod.split)

lemma pg_read_clean:
  "db_faults s = [] \<Longrightarrow> pg_read args f s =
     (if list_all pg_text_ok args then Inr (f (db_tabs s)) else Inl (ErrPg ''22021''), s)"
  by (simp add: pg_read_def pg_clean pg_run_def)

lemma pg_row_clean:
  "db_faults s = [] \<Longrightarrow> pg_row args f s =
     (if list_all pg_text_ok args
      then (case f (db_tabs s) of None \<Rightarrow> Inl ErrNoRows | Some x \<Rightarrow> Inr x)
      else Inl (ErrPg ''22021''), s)"
  by (simp add: pg_row_def pg_clean pg_run_def split: option.split)

lemma pg_modify_clean:
  "db_faults s = [] \<Longrightarrow> pg_modify args f s =
     (if list_all pg_text_ok args
      then (case f (db_tabs s) of Inl e \<Rightarrow> (Inl e, s) | Inr (x, t') \<Rightarrow> (Inr x, s\<lparr>db_tabs := t'\<rparr>))
      else (Inl (ErrPg ''22021''), s))"
  by (simp add: pg_modify_def pg_clean pg_run_def split: sum.split prod.split)

lemmas clean_simps = pg_read_clean pg_row_clean pg_modify_clean bindE_eq tryE_eq wrapE_eq

text \<open>The outcome of a statement whatever faults are pending: an error without effect on the tables, or its run.\<close>

lemma pg_cases:
  "(\<exists>e fs. pg args f s = (Inl e, s\<lparr>db_faults := fs\<rparr>)) \<or>
   (\<exists>fs. pg args f s = pg_run args f (s\<lparr>db_faults := fs\<rparr>))"
proof (cases "db_faults s")
  case Nil
  then have "s = s\<lparr>db_faults := []\<rparr>" by (cases s) simp
  then show ?thesis using Nil by (metis pg_clean)
next
  case (Cons x fs)
  then show ?thesis by (cases x) (auto simp: pg_def)
qed

lemma pg_Inr:
  assumes "pg args f s = (Inr x, s')"
  shows "list_all pg_text_ok args" and "f (db_tabs s) (db_seqs s) = (Inr x, db_tabs s', db_seqs s')"
proof -
  have "list_all pg_text_ok args \<and> f (db_tabs s) (db_seqs s) = (Inr x, db_tabs s', db_seqs s')"
    using assms by (auto simp: pg_def pg_run_def split: list.splits option.splits sum.splits prod.splits if_splits)
  then show "list_all pg_text_ok args" "f (db_tabs s) (db_seqs s) = (Inr x, db_tabs s', db_seqs s')" by auto
qed

lemma pg_modify_Inr:
  assumes "pg_modify args f s = (Inr x, s')"
  shows "list_all pg_text_ok args" and "f (db_tabs s) = Inr (x, db_tabs s')"
proof -
  from assms have "list_all pg_text_ok args \<and> f (db_tabs s) = Inr (x, db_tabs s')"
    by (auto simp: pg_modify_def pg_def pg_run_def split: list.splits option.splits sum.splits prod.splits if_splits)
  then show "list_all pg_text_ok args" "f (db_tabs s) = Inr (x, db_tabs s')" by auto
qed

lemma pg_modify_Inl: "pg_modify args f s = (Inl e, s') \<Longrightarrow> db_tabs s' = db_tabs s"
  by (auto simp: pg_modify_def pg_def pg_run_def split: list.splits option.splits sum.splits prod.splits if_splits)

lemma pg_read_tabs [simp]: "db_tabs (snd (pg_read args f s)) = db_tabs s"
  by (auto simp: pg_read_def pg_def pg_run_def split: list.splits option.splits)

lemma pg_row_tabs [simp]: "db_tabs (snd (pg_row args f s)) = db_tabs s"
  by (auto simp: pg_row_def pg_def pg_run_def split: list.splits option.splits)

lemma pg_read_Inr:
  assumes "pg_read args f s = (Inr x, s')"
  shows "x = f (db_tabs s)" and "db_tabs s' = db_tabs s" and "list_all pg_text_ok args"
  using assms by (auto simp: pg_read_def pg_def pg_run_def split: list.splits option.splits if_splits)

lemma pg_row_Inr:
  assumes "pg_row args f s = (Inr x, s')"
  shows "f (db_tabs s) = Some x" and "db_tabs s' = db_tabs s" and "list_all pg_text_ok args"
  using assms by (auto simp: pg_row_def pg_def pg_run_def split: list.splits option.splits if_splits)

text \<open>\<open>gives Q m\<close>: whatever \<open>m\<close> returns satisfies \<open>Q\<close>.\<close>

definition gives :: "('a \<Rightarrow> bool) \<Rightarrow> 'a dbm \<Rightarrow> bool" where
  "gives Q m \<longleftrightarrow> (\<forall>s x s'. m s = (Inr x, s') \<longrightarrow> Q x)"

lemma givesD: "gives Q m \<Longrightarrow> m s = (Inr x, s') \<Longrightarrow> Q x"
  by (auto simp: gives_def)

lemma gives_ret: "Q x \<Longrightarrow> gives Q (ret x)"
  by (simp add: gives_def)

lemma gives_fail: "gives Q (fail e)"
  by (simp add: gives_def)

lemma gives_tryE: "(\<And>r. gives Q (k r)) \<Longrightarrow> gives Q (tryE m k)"
  unfolding gives_def tryE_eq by (metis prod.collapse)

lemma gives_bindE: "gives P m \<Longrightarrow> (\<And>x. P x \<Longrightarrow> gives Q (f x)) \<Longrightarrow> gives Q (bindE m f)"
  unfolding gives_def bindE_Inr_iff by metis

lemma gives_if: "(b \<Longrightarrow> gives Q m) \<Longrightarrow> (\<not> b \<Longrightarrow> gives Q n) \<Longrightarrow> gives Q (if b then m else n)"
  by simp

lemma gives_case_sum:
  "(\<And>e. r = Inl e \<Longrightarrow> gives Q (f e)) \<Longrightarrow> (\<And>x. r = Inr x \<Longrightarrow> gives Q (g x)) \<Longrightarrow> gives Q (case r of Inl e \<Rightarrow> f e | Inr x \<Rightarrow> g x)"
  by (cases r) auto

section \<open>Relations between the states before and after\<close>

type_synonym snapshot = "tables \<times> seqs"

definition snap :: "db \<Rightarrow> snapshot" where
  "snap s = (db_tabs s, db_seqs s)"

definition evolves :: "(snapshot \<Rightarrow> snapshot \<Rightarrow> bool) \<Rightarrow> 'a dbm \<Rightarrow> bool" where
  "evolves R m \<longleftrightarrow> (\<forall>s. R (snap s) (snap (snd (m s))))"

lemma evolvesD: "evolves R m \<Longrightarrow> m s = (r, s') \<Longrightarrow> R (snap s) (snap s')"
  by (metis evolves_def snd_conv)

lemma snap_faults [simp]: "snap (s\<lparr>db_faults := fs\<rparr>) = snap s"
  by (simp add: snap_def)

lemma snap_read [simp]: "snap (snd (pg_read args f s)) = snap s"
  by (auto simp: snap_def pg_read_def pg_def pg_run_def split: list.split option.split)

lemma snap_row [simp]: "snap (snd (pg_row args f s)) = snap s"
  by (auto simp: snap_def pg_row_def pg_def pg_run_def split: list.split option.split)

text \<open>The last law says that giving up the tables but not the sequence values is also a step of \<open>R\<close>.\<close>

locale evolution =
  fixes R :: "snapshot \<Rightarrow> snapshot \<Rightarrow> bool"
  assumes stay: "R p p"
    and trans: "R p p' \<Longrightarrow> R p' p'' \<Longrightarrow> R p p''"
    and rollback: "R (t, q) (t', q') \<Longrightarrow> R (t, q) (t, q')"
begin

lemma ev_ret [evolve]: "evolves R (ret x)"
  by (simp add: evolves_def stay)

lemma ev_fail [evolve]: "evolves R (fail e)"
  by (simp add: evolves_def stay)

lemma ev_tryE [evolve]: "evolves R m \<Longrightarrow> (\<And>r. evolves R (k r)) \<Longrightarrow> evolves R (tryE m k)"
  unfolding evolves_def tryE_eq by (metis trans)

lemma ev_case_sum [evolve]:
  "(\<And>e. evolves R (f e)) \<Longrightarrow> (\<And>x. evolves R (g x)) \<Longrightarrow> evolves R (case r of Inl e \<Rightarrow> f e | Inr x \<Rightarrow> g x)"
  by (cases r) auto

lemma ev_case_option [evolve]:
  "evolves R f \<Longrightarrow> (\<And>x. evolves R (g x)) \<Longrightarrow> evolves R (case r of None \<Rightarrow> f | Some x \<Rightarrow> g x)"
  by (cases r) auto

lemma ev_case_prod [evolve]: "(\<And>x y. evolves R (f x y)) \<Longrightarrow> evolves R (case p of (x, y) \<Rightarrow> f x y)"
  by (cases p) auto

lemma ev_case_list [evolve]:
  "evolves R f \<Longrightarrow> (\<And>x xs. evolves R (g x xs)) \<Longrightarrow> evolves R (case r of [] \<Rightarrow> f | x # xs \<Rightarrow> g x xs)"
  by (cases r) auto

lemma ev_if [evolve]: "(b \<Longrightarrow> evolves R m) \<Longrightarrow> (\<not> b \<Longrightarrow> evolves R n) \<Longrightarrow> evolves R (if b then m else n)"
  by simp

lemma ev_bindE [evolve]: "evolves R m \<Longrightarrow> (\<And>x. evolves R (f x)) \<Longrightarrow> evolves R (bindE m f)"
  unfolding bindE_def by (intro ev_tryE ev_case_sum ev_fail)

lemma ev_wrapE [evolve]: "evolves R m \<Longrightarrow> evolves R (wrapE w m)"
  unfolding wrapE_def by (intro ev_tryE ev_case_sum ev_fail ev_ret)

lemma ev_for_each [evolve]: "(\<And>x. evolves R (f x)) \<Longrightarrow> evolves R (for_each f xs)"
  by (induction xs) (simp_all add: ev_ret ev_bindE)

lemma ev_pg:
  assumes f: "\<And>t q r t' q'. f t q = (r, t', q') \<Longrightarrow> R (t, q) (t', q')"
  shows "evolves R (pg args f)"
proof -
  have run: "R (snap s) (snap (snd (pg_run args f s)))" for s
  proof (cases "f (db_tabs s) (db_seqs s)")
    case (fields r t' q')
    then have "R (snap s) (t', q')" "R (snap s) (db_tabs s, q')"
      using f rollback unfolding snap_def by blast+
    with fields show ?thesis
      by (cases r) (auto simp: pg_run_def snap_def stay)
  qed
  have "R (snap s) (snap (snd (pg args f s)))" for s
    using pg_cases[of args f s] run[of "s\<lparr>db_faults := fs\<rparr>" for fs] stay[of "snap s"] by auto
  then show ?thesis by (simp add: evolves_def)
qed

lemma ev_pg_read [evolve]: "evolves R (pg_read args f)"
  by (simp add: evolves_def stay)

lemma ev_pg_row [evolve]: "evolves R (pg_row args f)"
  by (simp add: evolves_def stay)

lemma ev_pg_modify:
  "(\<And>t q x t'. f t = Inr (x, t') \<Longrightarrow> R (t, q) (t', q)) \<Longrightarrow> evolves R (pg_modify args f)"
  unfolding pg_modify_def by (rule ev_pg) (auto simp: stay split: sum.splits prod.splits)

lemma ev_in_tx [evolve]:
  assumes "evolves R m"
  shows "evolves R (in_tx m)"
proof -
  have "R (snap s) (snap (snd (in_tx m s)))" for s
  proof (cases "pg_read [] (\<lambda>t. t) s")
    case (Pair r s1)
    have s1: "snap s1 = snap s" by (metis Pair snap_read snd_conv)
    show ?thesis
    proof (cases r)
      case (Inl e)
      with Pair s1 show ?thesis by (simp add: in_tx_def bindE_eq stay)
    next
      case (Inr b)
      then have b: "b = db_tabs s" using Pair pg_read_Inr(1) by metis
      let ?s2 = "snd (m s1)"
      have m: "R (snap s) (snap ?s2)" using assms s1 by (metis evolves_def)
      then have undone: "R (snap s) (db_tabs s, db_seqs ?s2)"
        unfolding snap_def by (rule rollback)
      let ?s3 = "snd (pg_read [] (\<lambda>_. ()) ?s2)"
      have s3: "snap ?s3 = snap ?s2" by simp
      then have "db_seqs ?s3 = db_seqs ?s2" by (simp add: snap_def)
      with m undone s3 show ?thesis using Pair Inr b
        by (auto simp: in_tx_def bindE_eq tryE_eq snap_def split: sum.split)
    qed
  qed
  then show ?thesis by (simp add: evolves_def)
qed

end

text \<open>
  Two relations used everywhere: keeping an invariant of the tables, and leaving one view of them alone.
\<close>

definition keeping :: "(tables \<Rightarrow> bool) \<Rightarrow> snapshot \<Rightarrow> snapshot \<Rightarrow> bool" where
  "keeping I p p' \<longleftrightarrow> (I (fst p) \<longrightarrow> I (fst p'))"

definition same :: "(tables \<Rightarrow> 'v) \<Rightarrow> snapshot \<Rightarrow> snapshot \<Rightarrow> bool" where
  "same view p p' \<longleftrightarrow> view (fst p') = view (fst p)"

interpretation keeping: evolution "keeping I"
  by unfold_locales (auto simp: keeping_def)

interpretation same: evolution "same view"
  by unfold_locales (auto simp: same_def)

lemma evolves_keeping: "evolves (keeping I) m \<Longrightarrow> I (db_tabs s) \<Longrightarrow> I (db_tabs (snd (m s)))"
  by (simp add: evolves_def keeping_def snap_def)

lemma evolves_same: "evolves (same view) m \<Longrightarrow> view (db_tabs (snd (m s))) = view (db_tabs s)"
  by (simp add: evolves_def same_def snap_def)

text \<open>A transaction that reports an error leaves every table as it was.\<close>

lemma in_tx_error: "in_tx m s = (Inl e, s') \<Longrightarrow> db_tabs s' = db_tabs s"
proof -
  assume a: "in_tx m s = (Inl e, s')"
  obtain r s1 where p: "pg_read [] (\<lambda>t. t) s = (r, s1)" by fastforce
  have t1: "db_tabs s1 = db_tabs s" by (metis p pg_read_tabs snd_conv)
  show ?thesis
  proof (cases r)
    case (Inl e')
    with a p t1 show ?thesis by (auto simp: in_tx_def bindE_eq)
  next
    case (Inr b)
    then have "b = db_tabs s" using p pg_read_Inr(1) by metis
    with a p Inr show ?thesis
      by (auto simp: in_tx_def bindE_eq tryE_eq split: sum.splits)
  qed
qed

text \<open>A transaction that succeeds ran its body once, on the tables it started from.\<close>

lemma in_tx_ok:
  assumes "in_tx m s = (Inr x, s')"
  obtains s1 s2 where "db_tabs s1 = db_tabs s" "db_seqs s1 = db_seqs s" "m s1 = (Inr x, s2)" "db_tabs s' = db_tabs s2"
proof -
  obtain r s1 where p: "pg_read [] (\<lambda>t. t) s = (r, s1)" by fastforce
  then obtain b where r: "r = Inr b" using assms by (cases r) (auto simp: in_tx_def bindE_eq)
  have t1: "db_tabs s1 = db_tabs s" "db_seqs s1 = db_seqs s"
    using p r by (auto simp: pg_read_def pg_def pg_run_def split: list.splits option.splits)
  obtain rm s2 where m: "m s1 = (rm, s2)" by fastforce
  obtain rc s3 where c: "pg_read [] (\<lambda>_. ()) s2 = (rc, s3)" by fastforce
  have "rm = Inr x" "s' = s3" using assms p r m c
    by (auto simp: in_tx_def bindE_eq tryE_eq split: sum.splits)
  moreover have "db_tabs s3 = db_tabs s2" by (metis c pg_read_tabs snd_conv)
  ultimately show ?thesis using that t1 m by simp
qed

lemma in_tx_clean:
  assumes "db_faults s = []" and "db_faults (snd (m s)) = []"
  shows "in_tx m s = (case m s of (Inl e, s') \<Rightarrow> (Inl e, s'\<lparr>db_tabs := db_tabs s\<rparr>) | (Inr x, s') \<Rightarrow> (Inr x, s'))"
  using assms by (auto simp: in_tx_def clean_simps split: sum.split prod.split)

end
