(* ===== verification/Schema.thy ===== *)
theory Schema
  imports Db
begin

text \<open>
  The constraints of \<open>src/tools/api/migrations/*.sql\<close> that the store layer runs under: primary and
  unique keys, foreign keys, CHECKs, and identity columns below their sequence.

  \<open>schema w t q\<close> is their conjunction, one predicate per table with the sets of referenced keys as
  arguments, and \<open>schema_step w\<close> says that an operation keeps it (whatever faults strike) and never moves
  a sequence back. It is an instance of the locale \<open>evolution\<close>, so each store operation inherits it from
  its statements.
\<close>

section \<open>Checks\<close>

text \<open>The error of a violated foreign key, check or unique constraint.\<close>

definition fk_violation :: err where "fk_violation = ErrPg ''23503''"
definition check_violation :: err where "check_violation = ErrPg ''23514''"
definition unique_violation :: err where "unique_violation = ErrPg ''23505''"

definition grantee_status_ok :: "string \<Rightarrow> bool" where
  "grantee_status_ok s \<longleftrightarrow> s \<in> {''active'', ''paused''}"

definition source_type_ok :: "string \<Rightarrow> bool" where
  "source_type_ok s \<longleftrightarrow> s \<in> {''folder'', ''doc''}"

definition doc_status_ok :: "string \<Rightarrow> bool" where
  "doc_status_ok s \<longleftrightarrow> s \<in> {''active'', ''stale'', ''error''}"

definition action_status_ok :: "string \<Rightarrow> bool" where
  "action_status_ok s \<longleftrightarrow> s \<in> {''pending'', ''executed'', ''failed'', ''rejected''}"

definition note_kind_ok :: "string \<Rightarrow> bool" where
  "note_kind_ok s \<longleftrightarrow> s \<in> {''note'', ''fact'', ''preference'', ''status'', ''contact''}"

definition grantee_ids :: "tables \<Rightarrow> string set" where
  "grantee_ids t = gr_id ` set (t_grantees t)"

definition has_grantee :: "tables \<Rightarrow> string \<Rightarrow> bool" where
  "has_grantee t g \<longleftrightarrow> g \<in> grantee_ids t"

definition source_key :: "source_row \<Rightarrow> string \<times> string" where
  "source_key r = (so_grantee r, so_drive r)"

definition uid_key :: "message_row \<Rightarrow> string \<times> int \<times> int" where
  "uid_key m = (ms_folder m, ms_uid_validity m, ms_uid m)"

section \<open>One predicate per table\<close>

definition ok_grantees :: "grantee_row list \<Rightarrow> bool" where
  "ok_grantees rs \<longleftrightarrow> distinct (map gr_id rs) \<and> (\<forall>r \<in> set rs. grantee_status_ok (gr_status r))"

definition ok_emails :: "world \<Rightarrow> string set \<Rightarrow> email_row list \<Rightarrow> bool" where
  "ok_emails w G rs \<longleftrightarrow> distinct (map (\<lambda>r. citext_key w (em_email r)) rs) \<and> (\<forall>r \<in> set rs. em_grantee r \<in> G)"

definition ok_sources :: "string set \<Rightarrow> int \<Rightarrow> source_row list \<Rightarrow> bool" where
  "ok_sources G n rs \<longleftrightarrow> distinct (map so_id rs) \<and> distinct (map source_key rs) \<and>
     (\<forall>r \<in> set rs. 0 < so_id r \<and> so_id r < n \<and> so_grantee r \<in> G \<and> source_type_ok (so_type r))"

definition ok_threads :: "string set \<Rightarrow> int \<Rightarrow> thread_row list \<Rightarrow> bool" where
  "ok_threads G n rs \<longleftrightarrow> distinct (map th_id rs) \<and> distinct (map th_root rs) \<and>
     (\<forall>r \<in> set rs. 0 < th_id r \<and> th_id r < n \<and> (\<forall>g \<in> set_option (th_grantee r). g \<in> G))"

definition ok_messages :: "string set \<Rightarrow> int set \<Rightarrow> int \<Rightarrow> message_row list \<Rightarrow> bool" where
  "ok_messages G T n rs \<longleftrightarrow> distinct (map ms_id rs) \<and> distinct (map ms_message_id rs) \<and> distinct (map uid_key rs) \<and>
     (\<forall>r \<in> set rs. 0 < ms_id r \<and> ms_id r < n \<and> ms_thread r \<in> T \<and> (\<forall>g \<in> set_option (ms_grantee r). g \<in> G))"

definition ok_docs :: "string set \<Rightarrow> doc_row list \<Rightarrow> bool" where
  "ok_docs G rs \<longleftrightarrow> distinct (map dc_id rs) \<and> (\<forall>r \<in> set rs. dc_grantee r \<in> G \<and> doc_status_ok (dc_status r))"

definition ok_actions :: "int \<Rightarrow> action_row list \<Rightarrow> bool" where
  "ok_actions n rs \<longleftrightarrow> distinct (map ac_id rs) \<and> (\<forall>r \<in> set rs. 0 < ac_id r \<and> ac_id r < n \<and> action_status_ok (ac_status r))"

definition ok_notes :: "string set \<Rightarrow> int \<Rightarrow> note_row list \<Rightarrow> bool" where
  "ok_notes G n rs \<longleftrightarrow> distinct (map no_id rs) \<and>
     (\<forall>r \<in> set rs. 0 < no_id r \<and> no_id r < n \<and> no_grantee r \<in> G \<and> note_kind_ok (no_kind r) \<and>
        (\<forall>s \<in> set_option (no_supersedes r). s \<in> no_id ` set rs))"

definition thread_ids :: "tables \<Rightarrow> int set" where
  "thread_ids t = th_id ` set (t_threads t)"

definition message_ids :: "tables \<Rightarrow> int set" where
  "message_ids t = ms_id ` set (t_messages t)"

definition ok_children :: "tables \<Rightarrow> bool" where
  "ok_children t \<longleftrightarrow>
     rf_message ` set (t_references t) \<subseteq> message_ids t \<and>
     rc_message ` set (t_recipients t) \<subseteq> message_ids t \<and>
     at_message ` set (t_attachments t) \<subseteq> message_ids t"

definition ok_keys :: "world \<Rightarrow> tables \<Rightarrow> bool" where
  "ok_keys w t \<longleftrightarrow> distinct (map mb_folder (t_mailboxes t)) \<and> distinct (map sy_key (t_sync t)) \<and>
     distinct (map (\<lambda>r. citext_key w (us_email r)) (t_users t))"

definition schema :: "world \<Rightarrow> tables \<Rightarrow> seqs \<Rightarrow> bool" where
  "schema w t q \<longleftrightarrow>
     ok_grantees (t_grantees t) \<and> ok_emails w (grantee_ids t) (t_emails t) \<and>
     ok_sources (grantee_ids t) (q_sources q) (t_sources t) \<and>
     ok_threads (grantee_ids t) (q_threads q) (t_threads t) \<and>
     ok_messages (grantee_ids t) (thread_ids t) (q_messages q) (t_messages t) \<and>
     ok_docs (grantee_ids t) (t_docs t) \<and> ok_actions (q_actions q) (t_actions t) \<and>
     ok_notes (grantee_ids t) (q_notes q) (t_notes t) \<and> ok_children t \<and> ok_keys w t \<and>
     0 < q_sources q \<and> 0 < q_threads q \<and> 0 < q_messages q \<and> 0 < q_actions q \<and> 0 < q_notes q"

lemmas ok_defs = ok_grantees_def ok_emails_def ok_sources_def ok_threads_def ok_messages_def
  ok_docs_def ok_actions_def ok_notes_def ok_children_def ok_keys_def

definition seqs_le :: "seqs \<Rightarrow> seqs \<Rightarrow> bool" where
  "seqs_le q q' \<longleftrightarrow> q_sources q \<le> q_sources q' \<and> q_threads q \<le> q_threads q' \<and> q_messages q \<le> q_messages q' \<and>
     q_attachments q \<le> q_attachments q' \<and> q_actions q \<le> q_actions q' \<and> q_notes q \<le> q_notes q'"

lemma seqs_le_refl [simp]: "seqs_le q q"
  by (simp add: seqs_le_def)

lemma seqs_le_trans: "seqs_le q q' \<Longrightarrow> seqs_le q' q'' \<Longrightarrow> seqs_le q q''"
  by (auto simp: seqs_le_def)

lemma ok_mono:
  "G \<subseteq> G' \<Longrightarrow> ok_emails w G es \<Longrightarrow> ok_emails w G' es"
  "G \<subseteq> G' \<Longrightarrow> n \<le> n' \<Longrightarrow> ok_sources G n ss \<Longrightarrow> ok_sources G' n' ss"
  "G \<subseteq> G' \<Longrightarrow> n \<le> n' \<Longrightarrow> ok_threads G n ts \<Longrightarrow> ok_threads G' n' ts"
  "G \<subseteq> G' \<Longrightarrow> T \<subseteq> T' \<Longrightarrow> n \<le> n' \<Longrightarrow> ok_messages G T n ms \<Longrightarrow> ok_messages G' T' n' ms"
  "G \<subseteq> G' \<Longrightarrow> ok_docs G ds \<Longrightarrow> ok_docs G' ds"
  "n \<le> n' \<Longrightarrow> ok_actions n as \<Longrightarrow> ok_actions n' as"
  "G \<subseteq> G' \<Longrightarrow> n \<le> n' \<Longrightarrow> ok_notes G n ns \<Longrightarrow> ok_notes G' n' ns"
  unfolding ok_defs by (blast, fastforce+)

lemma schema_seqs:
  assumes "schema w t q" and "seqs_le q q'"
  shows "schema w t q'"
proof -
  note m = ok_mono[OF order_refl] ok_mono(4)[OF order_refl order_refl] ok_mono(6)
  show ?thesis using assms
    unfolding schema_def seqs_le_def by (auto elim!: m)
qed

definition schema_step :: "world \<Rightarrow> snapshot \<Rightarrow> snapshot \<Rightarrow> bool" where
  "schema_step w p p' \<longleftrightarrow> seqs_le (snd p) (snd p') \<and>
     (schema w (fst p) (snd p) \<longrightarrow> schema w (fst p') (snd p'))"

interpretation schema: evolution "schema_step w"
  by unfold_locales (auto simp: schema_step_def intro: seqs_le_trans schema_seqs)

lemma schema_pg_modify:
  "(\<And>t q x t'. f t = Inr (x, t') \<Longrightarrow> schema w t q \<Longrightarrow> schema w t' q) \<Longrightarrow> evolves (schema_step w) (pg_modify args f)"
  by (rule schema.ev_pg_modify) (auto simp: schema_step_def)

lemma schema_pg:
  "(\<And>t q r t' q'. f t q = (r, t', q') \<Longrightarrow> seqs_le q q' \<and> (schema w t q \<longrightarrow> schema w t' q')) \<Longrightarrow>
   evolves (schema_step w) (pg args f)"
  by (rule schema.ev_pg) (simp add: schema_step_def)

lemma evolves_schema:
  "evolves (schema_step w) m \<Longrightarrow> schema w (db_tabs s) (db_seqs s) \<Longrightarrow>
   schema w (db_tabs (snd (m s))) (db_seqs (snd (m s)))"
  by (simp add: evolves_def schema_step_def snap_def)

lemma schema_empty [simp]: "schema w empty_tables first_seqs"
  by (simp add: schema_def ok_defs empty_tables_def first_seqs_def)

lemma ok_children_messages:
  "ok_children t \<Longrightarrow> message_ids t \<subseteq> ms_id ` set ms \<Longrightarrow> ok_children (t\<lparr>t_messages := ms\<rparr>)"
  unfolding ok_children_def message_ids_def by (simp, meson subset_trans)

text \<open>Replacing one table by a legal one. Grantees may also be added.\<close>

lemma schema_set:
  "schema w t q \<Longrightarrow> ok_grantees gs \<Longrightarrow> grantee_ids t \<subseteq> gr_id ` set gs \<Longrightarrow> schema w (t\<lparr>t_grantees := gs\<rparr>) q"
  "schema w t q \<Longrightarrow> ok_emails w (grantee_ids t) es \<Longrightarrow> schema w (t\<lparr>t_emails := es\<rparr>) q"
  "schema w t q \<Longrightarrow> ok_sources (grantee_ids t) (q_sources q) ss \<Longrightarrow> schema w (t\<lparr>t_sources := ss\<rparr>) q"
  "schema w t q \<Longrightarrow> ok_threads (grantee_ids t) (q_threads q) ts \<Longrightarrow> thread_ids t \<subseteq> th_id ` set ts \<Longrightarrow>
     schema w (t\<lparr>t_threads := ts\<rparr>) q"
  "schema w t q \<Longrightarrow> ok_messages (grantee_ids t) (thread_ids t) (q_messages q) ms \<Longrightarrow>
     message_ids t \<subseteq> ms_id ` set ms \<Longrightarrow> schema w (t\<lparr>t_messages := ms\<rparr>) q"
  "schema w t q \<Longrightarrow> ok_docs (grantee_ids t) ds \<Longrightarrow> schema w (t\<lparr>t_docs := ds\<rparr>) q"
  "schema w t q \<Longrightarrow> ok_actions (q_actions q) as \<Longrightarrow> schema w (t\<lparr>t_actions := as\<rparr>) q"
  "schema w t q \<Longrightarrow> ok_notes (grantee_ids t) (q_notes q) ns \<Longrightarrow> schema w (t\<lparr>t_notes := ns\<rparr>) q"
  unfolding schema_def grantee_ids_def thread_ids_def
  by (auto simp: ok_children_messages) (auto simp: ok_children_def ok_keys_def message_ids_def intro: ok_mono)

lemma schema_parts:
  assumes "schema w t q"
  shows "ok_grantees (t_grantees t)" "ok_emails w (grantee_ids t) (t_emails t)"
    "ok_sources (grantee_ids t) (q_sources q) (t_sources t)" "ok_threads (grantee_ids t) (q_threads q) (t_threads t)"
    "ok_messages (grantee_ids t) (thread_ids t) (q_messages q) (t_messages t)"
    "ok_docs (grantee_ids t) (t_docs t)" "ok_actions (q_actions q) (t_actions t)"
    "ok_notes (grantee_ids t) (q_notes q) (t_notes t)" "ok_children t" "ok_keys w t"
  using assms by (auto simp: schema_def)

lemma schema_pos:
  assumes "schema w t q"
  shows "0 < q_sources q" "0 < q_threads q" "0 < q_messages q" "0 < q_actions q" "0 < q_notes q"
  using assms by (auto simp: schema_def)

text \<open>How the row operations act on each table's constraints.\<close>

lemma ok_grantees_upsert:
  "ok_grantees rs \<Longrightarrow> (\<And>x. gr_id (u x) = gr_id x) \<Longrightarrow>
   (\<And>x. grantee_status_ok (gr_status x) \<Longrightarrow> grantee_status_ok (gr_status (u x))) \<Longrightarrow>
   grantee_status_ok (gr_status r) \<Longrightarrow> ok_grantees (upsert_by gr_id u r rs)"
  unfolding ok_grantees_def by (intro conjI distinct_upsert_by ball_upsert_by) auto

lemma ok_grantees_update:
  "ok_grantees rs \<Longrightarrow> (\<And>x. gr_id (u x) = gr_id x) \<Longrightarrow> (\<And>x. grantee_status_ok (gr_status (u x))) \<Longrightarrow>
   ok_grantees (update_where P u rs)"
  unfolding ok_grantees_def by (simp add: map_key_update_where row_simps image_iff)  auto

lemma ok_emails_upsert:
  "ok_emails w G rs \<Longrightarrow> g \<in> G \<Longrightarrow> ok_emails w G (upsert_by (\<lambda>r. citext_key w (em_email r)) (\<lambda>r. r\<lparr>em_grantee := g\<rparr>)
     \<lparr> em_email = e, em_grantee = g \<rparr> rs)"
  unfolding ok_emails_def by (intro conjI distinct_upsert_by ball_upsert_by) auto

lemma ok_emails_delete: "ok_emails w G rs \<Longrightarrow> ok_emails w G (delete_where P rs)"
  by (simp add: ok_emails_def row_simps)

lemma ok_sources_delete: "ok_sources G n rs \<Longrightarrow> ok_sources G n (delete_where P rs)"
  by (simp add: ok_sources_def row_simps)

lemma ok_threads_update:
  "ok_threads G n rs \<Longrightarrow> (\<And>x. th_id (u x) = th_id x) \<Longrightarrow> (\<And>x. th_root (u x) = th_root x) \<Longrightarrow>
   (\<And>x g. x \<in> set rs \<Longrightarrow> P x \<Longrightarrow> th_grantee (u x) = Some g \<Longrightarrow> g \<in> G) \<Longrightarrow> ok_threads G n (update_where P u rs)"
  unfolding ok_threads_def
  by (intro conjI ball_update_where) (auto simp: map_key_update_where)

lemma ok_messages_update:
  "ok_messages G T n rs \<Longrightarrow> (\<And>x. ms_id (u x) = ms_id x) \<Longrightarrow> (\<And>x. ms_message_id (u x) = ms_message_id x) \<Longrightarrow>
   (\<And>x. uid_key (u x) = uid_key x) \<Longrightarrow> (\<And>x. ms_thread (u x) = ms_thread x) \<Longrightarrow>
   (\<And>x g. x \<in> set rs \<Longrightarrow> P x \<Longrightarrow> ms_grantee (u x) = Some g \<Longrightarrow> g \<in> G) \<Longrightarrow> ok_messages G T n (update_where P u rs)"
  unfolding ok_messages_def
  by (intro conjI ball_update_where) (auto simp: map_key_update_where)

lemma ok_sources_upsert:
  "ok_sources G n rs \<Longrightarrow> so_id r \<notin> so_id ` set rs \<Longrightarrow> 0 < so_id r \<Longrightarrow> so_id r < n \<Longrightarrow> so_grantee r \<in> G \<Longrightarrow>
   source_type_ok (so_type r) \<Longrightarrow> ok_sources G n (upsert_by source_key (\<lambda>x. x\<lparr>so_type := so_type r\<rparr>) r rs)"
  unfolding ok_sources_def
  by (intro conjI distinct_upsert_by ball_upsert_by)
    (auto simp: upsert_by_def map_key_update_where source_key_def)

text \<open>A statement that writes \<open>gid\<close> into a foreign key column only runs if \<open>gid\<close> exists.\<close>

definition with_grantee :: "string \<Rightarrow> (tables \<Rightarrow> tables) \<Rightarrow> tables \<Rightarrow> err + unit \<times> tables" where
  "with_grantee gid f t =
     (if f t = t \<or> has_grantee t gid then Inr ((), f t) else Inl fk_violation)"

lemma with_grantee_Inr: "with_grantee g f t = Inr (x, t') \<Longrightarrow> t' = f t \<and> (t' = t \<or> has_grantee t g)"
  by (auto simp: with_grantee_def split: if_splits)

text \<open>One statement changes one view of the tables, or keeps an invariant.\<close>

lemma same_pg_modify:
  "(\<And>t x t'. f t = Inr (x, t') \<Longrightarrow> view t' = view t) \<Longrightarrow> evolves (same view) (pg_modify args f)"
  by (rule same.ev_pg_modify) (auto simp: same_def)

lemma same_pg:
  "(\<And>t q r t' q'. f t q = (r, t', q') \<Longrightarrow> view t' = view t) \<Longrightarrow> evolves (same view) (pg args f)"
  by (rule same.ev_pg) (auto simp: same_def)

end
