(* ===== verification/StoreGrantees.thy ===== *)
theory StoreGrantees
  imports Schema
begin

text \<open>
  \<open>internal/store/store.go\<close>, first part: grantees, the sender emails mapped to them and their
  authorized Drive sources. Each operation is the Go method with its SQL statements; the clock reading
  \<open>time.Now().Unix()\<close> is the argument \<open>now\<close>.
\<close>

section \<open>Placeholders\<close>

text \<open>\<open>rebind\<close>: the scan that turns each \<open>?\<close> into \<open>$1\<close>, \<open>$2\<close>, ...\<close>

fun rebind_from :: "int \<Rightarrow> string \<Rightarrow> string" where
  "rebind_from n [] = []"
| "rebind_from n (c # q) =
     (if c = CHR ''?'' then CHR ''$'' # int_text (n + 1) @ rebind_from (n + 1) q
      else c # rebind_from n q)"

definition rebind :: "string \<Rightarrow> string" where
  "rebind q = rebind_from 0 q"

section \<open>Data\<close>

record grantee =
  g_id :: string
  g_name :: string
  g_status :: string
  g_emails :: "string list"
  g_created :: gotime

record source =
  s_id :: int
  s_grantee :: string
  s_type :: string
  s_drive :: string
  s_added :: gotime

definition status_active :: string where "status_active = ''active''"
definition status_paused :: string where "status_paused = ''paused''"
definition status_stale :: string where "status_stale = ''stale''"
definition status_error :: string where "status_error = ''error''"
definition source_type_folder :: string where "source_type_folder = ''folder''"
definition source_type_doc :: string where "source_type_doc = ''doc''"

lemmas status_defs = status_active_def status_paused_def status_stale_def status_error_def
  source_type_folder_def source_type_doc_def

definition opt_arg :: "string option \<Rightarrow> string list" where
  "opt_arg a = (case a of None \<Rightarrow> [] | Some s \<Rightarrow> [s])"

text \<open>The \<open>errors.Is(err, sql.ErrNoRows)\<close> translation of the \<open>Get\<close> methods.\<close>

definition not_found :: "err \<Rightarrow> err" where
  "not_found e = (if err_is e ErrNoRows then ErrNotFound else e)"

definition created_unix :: "int \<Rightarrow> gotime \<Rightarrow> int" where
  "created_unix now t = (if t = zero_time then now else unix t)"

section \<open>Grantees\<close>

text \<open>The row an insert adds: status and creation time have defaults.\<close>

definition new_grantee_row :: "int \<Rightarrow> grantee \<Rightarrow> grantee_row" where
  "new_grantee_row now g = \<lparr> gr_id = g_id g, gr_name = null_str (g_name g),
     gr_status = (if g_status g = [] then status_active else g_status g), gr_created = created_unix now (g_created g) \<rparr>"

definition grantee_args :: "grantee_row \<Rightarrow> string list" where
  "grantee_args r = gr_id r # gr_status r # opt_arg (gr_name r)"

definition put_grantee :: "(grantee_row \<Rightarrow> grantee_row) \<Rightarrow> grantee_row \<Rightarrow> tables \<Rightarrow> err + unit \<times> tables" where
  "put_grantee upd r t =
     (if \<not> grantee_status_ok (gr_status r) then Inl check_violation
      else Inr ((), t\<lparr>t_grantees := upsert_by gr_id upd r (t_grantees t)\<rparr>))"

text \<open>\<open>EnsureGrantee\<close>: \<open>INSERT ... ON CONFLICT(grantee_id) DO NOTHING\<close>.\<close>

definition ensure_grantee :: "int \<Rightarrow> grantee \<Rightarrow> unit dbm" where
  "ensure_grantee now g =
     (if g_id g = [] then fail (ErrNew ''grantee_id required'')
      else let row = new_grantee_row now g in pg_modify (grantee_args row) (put_grantee (\<lambda>r. r) row))"

text \<open>\<open>UpsertGrantee\<close>: \<open>ON CONFLICT(grantee_id) DO UPDATE\<close> of name and status.\<close>

definition upsert_grantee :: "int \<Rightarrow> grantee \<Rightarrow> unit dbm" where
  "upsert_grantee now g =
     (if g_id g = [] then fail (ErrNew ''grantee_id required'')
      else let row = new_grantee_row now g in
        pg_modify (grantee_args row) (put_grantee (\<lambda>r. r\<lparr>gr_name := gr_name row, gr_status := gr_status row\<rparr>) row))"

definition set_grantee_status :: "string \<Rightarrow> string \<Rightarrow> unit dbm" where
  "set_grantee_status gid status =
     (if status \<noteq> status_active \<and> status \<noteq> status_paused
      then fail (ErrNew (''invalid grantee status '' @ go_quote status))
      else bindE (pg_modify [status, gid] (\<lambda>t.
             Inr (count_where (\<lambda>r. gr_id r = gid) (t_grantees t),
                  t\<lparr>t_grantees := update_where (\<lambda>r. gr_id r = gid) (\<lambda>r. r\<lparr>gr_status := status\<rparr>) (t_grantees t)\<rparr>)))
           require_one_row)"

definition grantee_of_row :: "grantee_row \<Rightarrow> grantee" where
  "grantee_of_row r = \<lparr> g_id = gr_id r, g_name = coalesce (gr_name r), g_status = gr_status r,
     g_emails = [], g_created = from_unix (gr_created r) \<rparr>"

definition get_grantee :: "string \<Rightarrow> grantee dbm" where
  "get_grantee gid =
     wrapE not_found (pg_row [gid] (\<lambda>t. map_option grantee_of_row (lookup_by gr_id gid (t_grantees t))))"

text \<open>\<open>ListActiveGrantees\<close>, with the \<open>WHERE ... ORDER BY\<close> clause it hands to \<open>listGrantees\<close>.\<close>

definition list_active_grantees :: "world \<Rightarrow> grantee list dbm" where
  "list_active_grantees w =
     pg_read [] (\<lambda>t. map grantee_of_row
       (sort_key (\<lambda>r. text_order w (gr_id r)) (filter (\<lambda>r. gr_status r = ''active'') (t_grantees t))))"

section \<open>Sender emails\<close>

definition assign_threads :: "world \<Rightarrow> string \<Rightarrow> string \<Rightarrow> tables \<Rightarrow> tables" where
  "assign_threads w gid email t =
     t\<lparr>t_threads := update_where
         (\<lambda>r. th_grantee r = None \<and>
              (\<exists>m \<in> set (t_messages t). ms_thread m = th_id r \<and> citext_key w (ms_from_addr m) = citext_key w email))
         (\<lambda>r. r\<lparr>th_grantee := Some gid\<rparr>) (t_threads t)\<rparr>"

definition assign_messages :: "string \<Rightarrow> tables \<Rightarrow> tables" where
  "assign_messages gid t =
     t\<lparr>t_messages := update_where
         (\<lambda>m. ms_grantee m = None \<and> (\<exists>r \<in> set (t_threads t). th_id r = ms_thread m \<and> th_grantee r = Some gid))
         (\<lambda>m. m\<lparr>ms_grantee := Some gid\<rparr>) (t_messages t)\<rparr>"

definition add_grantee_email :: "world \<Rightarrow> string \<Rightarrow> string \<Rightarrow> unit dbm" where
  "add_grantee_email w gid raw =
     (let email = to_lower w (trim_space raw) in
      if gid = [] \<or> email = [] then fail (ErrNew ''grantee_id and email required'')
      else in_tx (
        bindE (pg_modify [email, gid] (\<lambda>t.
            if has_grantee t gid
            then Inr ((), t\<lparr>t_emails := upsert_by (\<lambda>r. citext_key w (em_email r)) (\<lambda>r. r\<lparr>em_grantee := gid\<rparr>)
                                         \<lparr> em_email = email, em_grantee = gid \<rparr> (t_emails t)\<rparr>)
            else Inl fk_violation)) (\<lambda>_.
        bindE (pg_modify [gid, email] (with_grantee gid (assign_threads w gid email))) (\<lambda>_.
        pg_modify [gid, gid] (with_grantee gid (assign_messages gid))))))"

definition remove_grantee_email :: "world \<Rightarrow> string \<Rightarrow> string \<Rightarrow> unit dbm" where
  "remove_grantee_email w gid raw =
     (let email = to_lower w (trim_space raw);
          hit = (\<lambda>r. citext_key w (em_email r) = citext_key w email \<and> em_grantee r = gid)
      in bindE (pg_modify [email, gid] (\<lambda>t.
           Inr (count_where hit (t_emails t), t\<lparr>t_emails := delete_where hit (t_emails t)\<rparr>)))
         require_one_row)"

text \<open>\<open>LookupGranteeByEmail\<close> returns the id and whether there is one.\<close>

definition lookup_grantee_by_email :: "world \<Rightarrow> string \<Rightarrow> (string \<times> bool) dbm" where
  "lookup_grantee_by_email w email =
     tryE (pg_row [to_lower w email] (\<lambda>t.
         map_option em_grantee
           (lookup_by (\<lambda>r. citext_key w (em_email r)) (citext_key w (to_lower w email)) (t_emails t))))
       (\<lambda>r. case r of
          Inl e \<Rightarrow> if err_is e ErrNoRows then ret ([], False) else fail e
        | Inr g \<Rightarrow> ret (g, True))"

section \<open>Drive sources\<close>

definition upsert_source_sql :: "source_row \<Rightarrow> int statement" where
  "upsert_source_sql row t q =
     (let q' = q\<lparr>q_sources := q_sources q + 1\<rparr>; r = row\<lparr>so_id := q_sources q\<rparr>;
          rows = upsert_by source_key (\<lambda>x. x\<lparr>so_type := so_type r\<rparr>) r (t_sources t)
      in if \<not> source_type_ok (so_type row) then (Inl check_violation, t, q')
         else if \<not> has_grantee t (so_grantee row) then (Inl fk_violation, t, q')
         else (case lookup_by source_key (source_key r) rows of
              None \<Rightarrow> (Inl ErrNoRows, t, q')
            | Some x \<Rightarrow> (Inr (so_id x), t\<lparr>t_sources := rows\<rparr>, q')))"

definition upsert_source :: "int \<Rightarrow> source \<Rightarrow> int dbm" where
  "upsert_source now src =
     (if s_grantee src = [] then fail (ErrNew ''grantee_id required'')
      else if s_type src \<noteq> source_type_folder \<and> s_type src \<noteq> source_type_doc
        then fail (ErrNew (''invalid source_type '' @ go_quote (s_type src)))
      else if s_drive src = [] then fail (ErrNew ''drive_id required'')
      else pg [s_grantee src, s_type src, s_drive src]
        (upsert_source_sql \<lparr> so_id = 0, so_grantee = s_grantee src, so_type = s_type src,
           so_drive = s_drive src, so_added = created_unix now (s_added src) \<rparr>))"

definition delete_source :: "string \<Rightarrow> string \<Rightarrow> unit dbm" where
  "delete_source gid drive =
     (let hit = (\<lambda>r. so_grantee r = gid \<and> so_drive r = drive) in
      bindE (pg_modify [gid, drive] (\<lambda>t.
          Inr (count_where hit (t_sources t), t\<lparr>t_sources := delete_where hit (t_sources t)\<rparr>)))
        require_one_row)"

definition source_of_row :: "source_row \<Rightarrow> source" where
  "source_of_row r = \<lparr> s_id = so_id r, s_grantee = so_grantee r, s_type = so_type r, s_drive = so_drive r,
     s_added = from_unix (so_added r) \<rparr>"

definition list_sources_for_grantee :: "string \<Rightarrow> source list dbm" where
  "list_sources_for_grantee gid =
     pg_read [gid] (\<lambda>t. map source_of_row (sort_key so_id (filter (\<lambda>r. so_grantee r = gid) (t_sources t))))"

section \<open>What each operation can touch\<close>

text \<open>The queries change nothing at all.\<close>

lemma get_grantee_tabs [simp]: "db_tabs (snd (get_grantee g s)) = db_tabs s"
proof -
  obtain r s' where p: "pg_row [g] (\<lambda>t. map_option grantee_of_row (lookup_by gr_id g (t_grantees t))) s = (r, s')"
    by fastforce
  then have "db_tabs s' = db_tabs s" by (metis pg_row_tabs snd_conv)
  with p show ?thesis by (cases r) (simp_all add: get_grantee_def wrapE_eq)
qed

lemma get_grantee_ev [evolve]: "evolution R \<Longrightarrow> evolves R (get_grantee g)"
  unfolding get_grantee_def by (intro evolution.ev_wrapE evolution.ev_pg_row)

lemma get_grantee_clean:
  "db_faults s = [] \<Longrightarrow> pg_text_ok g \<Longrightarrow> get_grantee g s =
     (case lookup_by gr_id g (t_grantees (db_tabs s)) of
        None \<Rightarrow> (Inl ErrNotFound, s) | Some r \<Rightarrow> (Inr (grantee_of_row r), s))"
  by (simp add: get_grantee_def clean_simps not_found_def split: option.split)

lemma get_grantee_Inr:
  "get_grantee g s = (Inr x, s') \<Longrightarrow> has_grantee (db_tabs s) g \<and> db_tabs s' = db_tabs s \<and> g_id x = g"
  unfolding get_grantee_def wrapE_Inr_iff
  by (frule pg_row_Inr(2), drule pg_row_Inr(1)) (auto simp: has_grantee_def grantee_ids_def grantee_of_row_def dest!: lookup_by_Some)


lemma ensure_grantee_schema [evolve]: "evolves (schema_step w) (ensure_grantee now g)"
  unfolding ensure_grantee_def Let_def
  by (intro schema.ev_if schema.ev_fail schema_pg_modify)
    (auto split: if_splits simp: put_grantee_def grantee_ids_def keys_upsert_by schema_parts intro!: schema_set ok_grantees_upsert)

lemma upsert_grantee_schema [evolve]: "evolves (schema_step w) (upsert_grantee now g)"
  unfolding upsert_grantee_def Let_def
  by (intro schema.ev_if schema.ev_fail schema_pg_modify)
    (auto split: if_splits simp: put_grantee_def grantee_ids_def keys_upsert_by schema_parts intro!: schema_set ok_grantees_upsert)

lemma set_grantee_status_schema [evolve]: "evolves (schema_step w) (set_grantee_status g st)"
  unfolding set_grantee_status_def require_one_row_def
  by (intro schema.ev_if schema.ev_fail schema.ev_bindE schema.ev_ret schema_pg_modify)
    (auto simp: grantee_ids_def keys_update_where schema_parts grantee_status_ok_def status_defs
      intro!: schema_set ok_grantees_update)

lemma assign_threads_schema:
  "schema w t q \<Longrightarrow> has_grantee t g \<Longrightarrow> schema w (assign_threads w g e t) q"
  unfolding assign_threads_def
  by (rule schema_set) (auto simp: thread_ids_def keys_update_where schema_parts has_grantee_def intro!: ok_threads_update)

lemma assign_messages_schema:
  "schema w t q \<Longrightarrow> has_grantee t g \<Longrightarrow> schema w (assign_messages g t) q"
  unfolding assign_messages_def
  by (rule schema_set)
    (auto simp: message_ids_def keys_update_where schema_parts has_grantee_def uid_key_def intro!: ok_messages_update)

lemma add_grantee_email_schema [evolve]: "evolves (schema_step w) (add_grantee_email w g raw)"
  unfolding add_grantee_email_def Let_def
proof (intro schema.ev_if schema.ev_fail schema.ev_in_tx schema.ev_bindE schema_pg_modify)
  fix t q x t'
  assume s: "schema w t q"
  { assume "with_grantee g (assign_threads w g (to_lower w (trim_space raw))) t = Inr (x, t')"
    then show "schema w t' q" using s by (auto dest: with_grantee_Inr intro: assign_threads_schema) }
  { assume "with_grantee g (assign_messages g) t = Inr (x, t')"
    then show "schema w t' q" using s by (auto dest: with_grantee_Inr intro: assign_messages_schema) }
qed (auto split: if_splits simp: schema_parts has_grantee_def intro!: schema_set ok_emails_upsert)

lemma remove_grantee_email_schema [evolve]: "evolves (schema_step w) (remove_grantee_email w' g raw)"
  unfolding remove_grantee_email_def Let_def require_one_row_def
  by (intro schema.ev_if schema.ev_fail schema.ev_ret schema.ev_bindE schema_pg_modify)
    (auto simp: schema_parts intro!: schema_set ok_emails_delete)

lemma delete_source_schema [evolve]: "evolves (schema_step w) (delete_source g d)"
  unfolding delete_source_def Let_def require_one_row_def
  by (intro schema.ev_if schema.ev_fail schema.ev_ret schema.ev_bindE schema_pg_modify)
    (auto simp: schema_parts intro!: schema_set ok_sources_delete)

lemma upsert_source_schema [evolve]: "evolves (schema_step w) (upsert_source now src)"
proof -
  have "seqs_le q q' \<and> (schema w t q \<longrightarrow> schema w t' q')"
    if "upsert_source_sql row t q = (r, t', q')" for row t q r t' q'
  proof -
    have q': "q' = q\<lparr>q_sources := q_sources q + 1\<rparr>"
      using that by (auto simp: upsert_source_sql_def Let_def split: if_splits option.splits)
    then have le: "seqs_le q q'" by (simp add: seqs_le_def)
    moreover have "schema w t' q'" if s: "schema w t q"
    proof (cases "t' = t")
      case True
      then show ?thesis using schema_seqs[OF s le] by simp
    next
      case False
      then have t': "t' = t\<lparr>t_sources := upsert_by source_key (\<lambda>x. x\<lparr>so_type := so_type (row\<lparr>so_id := q_sources q\<rparr>)\<rparr>)
            (row\<lparr>so_id := q_sources q\<rparr>) (t_sources t)\<rparr>"
        and "source_type_ok (so_type row)" "so_grantee row \<in> grantee_ids t"
        using \<open>upsert_source_sql row t q = (r, t', q')\<close>
        by (auto simp: upsert_source_sql_def Let_def has_grantee_def split: if_splits option.splits)
      moreover have "ok_sources (grantee_ids t) (q_sources q') (t_sources t)"
        using schema_parts(3)[OF schema_seqs[OF s le]] .
      moreover have "q_sources q \<notin> so_id ` set (t_sources t)" "0 < q_sources q"
        using schema_parts(3)[OF s] s by (auto simp: ok_sources_def schema_def)
      ultimately show ?thesis
        using schema_seqs[OF s le] ok_sources_upsert[of "grantee_ids t" "q_sources q'" "t_sources t" "row\<lparr>so_id := q_sources q\<rparr>"] q'
        by (auto intro!: schema_set)
    qed
    ultimately show ?thesis by blast
  qed
  then show ?thesis
    unfolding upsert_source_def by (intro schema.ev_if schema.ev_fail schema_pg) blast
qed

section \<open>What the operations achieve\<close>

lemma lookup_email_clean:
  "db_faults s = [] \<Longrightarrow> pg_text_ok (to_lower w e) \<Longrightarrow> lookup_grantee_by_email w e s =
     (case lookup_by (\<lambda>r. citext_key w (em_email r)) (citext_key w (to_lower w e)) (t_emails (db_tabs s)) of
        None \<Rightarrow> (Inr ([], False), s) | Some r \<Rightarrow> (Inr (em_grantee r, True), s))"
  by (simp add: lookup_grantee_by_email_def clean_simps split: option.split)

text \<open>The tables after a successful insert.\<close>

lemma ensure_grantee_ok:
  assumes "ensure_grantee now g s = (Inr (), s')"
  shows "db_tabs s' = (db_tabs s)\<lparr>t_grantees := upsert_by gr_id (\<lambda>r. r) (new_grantee_row now g) (t_grantees (db_tabs s))\<rparr>"
proof -
  from assms have "pg_modify (grantee_args (new_grantee_row now g)) (put_grantee (\<lambda>r. r) (new_grantee_row now g)) s
      = (Inr (), s')"
    by (auto simp: ensure_grantee_def Let_def split: if_splits)
  from pg_modify_Inr(2)[OF this] show ?thesis by (auto simp: put_grantee_def split: if_splits)
qed

lemma upsert_source_ok:
  assumes "upsert_source now src s = (Inr i, s')"
  obtains r where "so_grantee r = s_grantee src" "so_drive r = s_drive src" "so_type r = s_type src"
    "db_tabs s' = (db_tabs s)\<lparr>t_sources := upsert_by source_key (\<lambda>x. x\<lparr>so_type := so_type r\<rparr>) r (t_sources (db_tabs s))\<rparr>"
    "has_grantee (db_tabs s) (s_grantee src)"
proof -
  from assms obtain row where "upsert_source_sql row (db_tabs s) (db_seqs s) = (Inr i, db_tabs s', db_seqs s')"
    "so_grantee row = s_grantee src" "so_drive row = s_drive src" "so_type row = s_type src"
    by (auto simp: upsert_source_def split: if_splits dest!: pg_Inr(2))
  then show ?thesis
    using that[of "row\<lparr>so_id := q_sources (db_seqs s)\<rparr>"]
    by (auto simp: upsert_source_sql_def Let_def split: if_splits option.splits)
qed

text \<open>The tables after a successful \<open>AddGranteeEmail\<close>: the three statements, one after the other.\<close>

lemma add_grantee_email_ok:
  assumes "add_grantee_email w gid raw s = (Inr (), s')"
  obtains "gid \<noteq> []" "has_grantee (db_tabs s) gid"
    "db_tabs s' = assign_messages gid (assign_threads w gid (to_lower w (trim_space raw))
       ((db_tabs s)\<lparr>t_emails := upsert_by (\<lambda>r. citext_key w (em_email r)) (\<lambda>r. r\<lparr>em_grantee := gid\<rparr>)
          \<lparr> em_email = to_lower w (trim_space raw), em_grantee = gid \<rparr> (t_emails (db_tabs s))\<rparr>))"
proof -
  let ?e = "to_lower w (trim_space raw)"
  let ?put = "\<lambda>t. t\<lparr>t_emails := upsert_by (\<lambda>r. citext_key w (em_email r)) (\<lambda>r. r\<lparr>em_grantee := gid\<rparr>)
          \<lparr> em_email = ?e, em_grantee = gid \<rparr> (t_emails t)\<rparr>"
  have g: "gid \<noteq> []" and tx: "in_tx (
        bindE (pg_modify [?e, gid] (\<lambda>t. if has_grantee t gid then Inr ((), ?put t) else Inl fk_violation)) (\<lambda>_.
        bindE (pg_modify [gid, ?e] (with_grantee gid (assign_threads w gid ?e))) (\<lambda>_.
        pg_modify [gid, gid] (with_grantee gid (assign_messages gid))))) s = (Inr (), s')"
    using assms by (auto simp: add_grantee_email_def Let_def split: if_splits)
  from tx obtain s1 s2 where "db_tabs s1 = db_tabs s" and s2: "db_tabs s' = db_tabs s2"
    and run: "bindE (pg_modify [?e, gid] (\<lambda>t. if has_grantee t gid then Inr ((), ?put t) else Inl fk_violation)) (\<lambda>_.
        bindE (pg_modify [gid, ?e] (with_grantee gid (assign_threads w gid ?e))) (\<lambda>_.
        pg_modify [gid, gid] (with_grantee gid (assign_messages gid)))) s1 = (Inr (), s2)"
    by (elim in_tx_ok)
  from run obtain u v where
    "pg_modify [?e, gid] (\<lambda>t. if has_grantee t gid then Inr ((), ?put t) else Inl fk_violation) s1 = (Inr (), u)"
    "pg_modify [gid, ?e] (with_grantee gid (assign_threads w gid ?e)) u = (Inr (), v)"
    "pg_modify [gid, gid] (with_grantee gid (assign_messages gid)) v = (Inr (), s2)"
    by (auto simp: bindE_Inr_iff)
  from this(1)[THEN pg_modify_Inr(2)] this(2)[THEN pg_modify_Inr(2), THEN with_grantee_Inr]
    this(3)[THEN pg_modify_Inr(2), THEN with_grantee_Inr]
  show ?thesis using g \<open>db_tabs s1 = db_tabs s\<close> s2 that by (auto split: if_splits)
qed

text \<open>The three statements of \<open>AddGranteeEmail\<close> on the tables, and that running them again changes nothing.\<close>

definition claim_email :: "world \<Rightarrow> string \<Rightarrow> string \<Rightarrow> tables \<Rightarrow> tables" where
  "claim_email w gid e t = assign_messages gid (assign_threads w gid e
     (t\<lparr>t_emails := upsert_by (\<lambda>r. citext_key w (em_email r)) (\<lambda>r. r\<lparr>em_grantee := gid\<rparr>)
          \<lparr> em_email = e, em_grantee = gid \<rparr> (t_emails t)\<rparr>))"

lemma claim_email_idem: "claim_email w gid e (claim_email w gid e t) = claim_email w gid e t"
proof -
  let ?t = "claim_email w gid e t"
  let ?tid = "\<lambda>r. th_grantee r = None \<and>
    (\<exists>m \<in> set (t_messages t). ms_thread m = th_id r \<and> citext_key w (ms_from_addr m) = citext_key w e)"
  have em: "t_emails ?t = upsert_by (\<lambda>r. citext_key w (em_email r)) (\<lambda>r. r\<lparr>em_grantee := gid\<rparr>)
      \<lparr> em_email = e, em_grantee = gid \<rparr> (t_emails t)"
    and th: "t_threads ?t = update_where ?tid (\<lambda>r. r\<lparr>th_grantee := Some gid\<rparr>) (t_threads t)"
    and ms: "t_messages ?t = update_where
      (\<lambda>m. ms_grantee m = None \<and> (\<exists>r \<in> set (t_threads ?t). th_id r = ms_thread m \<and> th_grantee r = Some gid))
      (\<lambda>m. m\<lparr>ms_grantee := Some gid\<rparr>) (t_messages t)"
    by (simp_all add: claim_email_def assign_messages_def assign_threads_def)
  have 1: "?t\<lparr>t_emails := upsert_by (\<lambda>r. citext_key w (em_email r)) (\<lambda>r. r\<lparr>em_grantee := gid\<rparr>)
      \<lparr> em_email = e, em_grantee = gid \<rparr> (t_emails ?t)\<rparr> = ?t"
    unfolding em by (subst upsert_by_idem) (simp_all add: em[symmetric])
  have from_old: "\<exists>m' \<in> set (t_messages t). ms_thread m' = ms_thread m \<and> ms_from_addr m' = ms_from_addr m"
    if "m \<in> set (t_messages ?t)" for m
    using that unfolding ms by (auto simp: row_simps)
  have "update_where (\<lambda>r. th_grantee r = None \<and>
      (\<exists>m \<in> set (t_messages ?t). ms_thread m = th_id r \<and> citext_key w (ms_from_addr m) = citext_key w e))
      (\<lambda>r. r\<lparr>th_grantee := Some gid\<rparr>) (t_threads ?t) = t_threads ?t"
  proof (rule update_where_idle)
    fix r assume "r \<in> set (t_threads ?t)"
    then have "th_grantee r = None \<Longrightarrow> \<not> ?tid r" unfolding th by (auto simp: row_simps)
    then show "\<not> (th_grantee r = None \<and>
      (\<exists>m \<in> set (t_messages ?t). ms_thread m = th_id r \<and> citext_key w (ms_from_addr m) = citext_key w e))"
      using from_old by metis
  qed
  then have 2: "assign_threads w gid e ?t = ?t" by (simp add: assign_threads_def)
  have "update_where (\<lambda>m. ms_grantee m = None \<and>
      (\<exists>r \<in> set (t_threads ?t). th_id r = ms_thread m \<and> th_grantee r = Some gid))
      (\<lambda>m. m\<lparr>ms_grantee := Some gid\<rparr>) (t_messages ?t) = t_messages ?t"
    by (rule update_where_idle) (subst (asm) ms, auto simp: row_simps)
  then have 3: "assign_messages gid ?t = ?t" by (simp add: assign_messages_def)
  show ?thesis by (subst claim_email_def) (simp only: 1 2 3)
qed

text \<open>\<open>EnsureGrantee\<close> never overwrites an existing grantee, whatever fault strikes: a row that was there is
  there afterwards, unchanged, and no other table is touched.\<close>

theorem ensure_grantee_keeps:
  assumes "lookup_by gr_id k (t_grantees (db_tabs s)) = Some r"
  shows "lookup_by gr_id k (t_grantees (db_tabs (snd (ensure_grantee now g s)))) = Some r"
proof -
  have "evolves (keeping (\<lambda>t. lookup_by gr_id k (t_grantees t) = Some r)) (ensure_grantee now g)"
    unfolding ensure_grantee_def Let_def
  proof (intro keeping.ev_if keeping.ev_fail keeping.ev_pg_modify)
    fix t :: tables and q :: seqs and x t'
    let ?row = "new_grantee_row now g"
    assume "put_grantee (\<lambda>r. r) ?row t = Inr (x, t')"
    moreover have "lookup_by gr_id k (upsert_by gr_id (\<lambda>r. r) ?row (t_grantees t)) = Some r"
      if "lookup_by gr_id k (t_grantees t) = Some r"
    proof (cases "k = gr_id ?row")
      case True
      then show ?thesis using that lookup_by_upsert_same[of gr_id "\<lambda>r. r" ?row "t_grantees t"] by simp
    next
      case False
      then show ?thesis using that lookup_by_upsert_other[of gr_id "\<lambda>r. r" k ?row "t_grantees t"] by simp
    qed
    ultimately show "keeping (\<lambda>t. lookup_by gr_id k (t_grantees t) = Some r) (t, q) (t', q)"
      by (auto simp: keeping_def put_grantee_def split: if_splits)
  qed
  then show ?thesis using evolves_keeping assms by blast
qed

definition demo_grantee :: "string \<Rightarrow> grantee_row" where
  "demo_grantee g = \<lparr> gr_id = g, gr_name = None, gr_status = ''active'', gr_created = 5 \<rparr>"

definition demo_db :: db where
  "demo_db = fresh_db\<lparr>db_tabs := empty_tables\<lparr>t_grantees := [demo_grantee ''ann'']\<rparr>\<rparr>"

lemmas demo_simps = demo_db_def demo_grantee_def fresh_db_def empty_tables_def first_seqs_def demo_world_def

theorem ensure_grantee_keeps_witness:
  "lookup_by gr_id ''ann'' (t_grantees (db_tabs (snd (ensure_grantee 9
     \<lparr> g_id = ''ann'', g_name = ''New'', g_status = ''paused'', g_emails = [], g_created = zero_time \<rparr> demo_db))))
   = Some (demo_grantee ''ann'')"
  by (rule ensure_grantee_keeps) (simp add: demo_simps lookup_by_def)

text \<open>What \<open>AddGranteeEmail\<close> promises about the tables before and after.\<close>

definition backfilled :: "world \<Rightarrow> string \<Rightarrow> string \<Rightarrow> tables \<Rightarrow> tables \<Rightarrow> bool" where
  "backfilled w gid e t t' \<longleftrightarrow>
     map_option em_grantee (lookup_by (\<lambda>r. citext_key w (em_email r)) (citext_key w e) (t_emails t')) = Some gid \<and>
     (\<forall>r \<in> set (t_threads t). \<forall>m \<in> set (t_messages t).
        th_grantee r = None \<and> ms_thread m = th_id r \<and> citext_key w (ms_from_addr m) = citext_key w e \<longrightarrow>
        r\<lparr>th_grantee := Some gid\<rparr> \<in> set (t_threads t')) \<and>
     (\<forall>r \<in> set (t_threads t). th_grantee r \<noteq> None \<longrightarrow> r \<in> set (t_threads t')) \<and>
     (\<forall>m \<in> set (t_messages t). ms_grantee m \<noteq> None \<longrightarrow> m \<in> set (t_messages t')) \<and>
     (\<forall>r \<in> set (t_threads t'). \<forall>m \<in> set (t_messages t').
        th_id r = ms_thread m \<and> th_grantee r = Some gid \<longrightarrow> ms_grantee m \<noteq> None)"

text \<open>C35: a successful \<open>AddGranteeEmail\<close> claims the address and back-fills history: the address maps to the grantee,
  every thread without a grantee that has a message from the address now belongs to the grantee, no message on a
  thread of the grantee is left without a grantee, and whatever had a grantee keeps it.\<close>

theorem add_grantee_email_backfills:
  assumes "add_grantee_email w gid raw s = (Inr (), s')"
  shows "backfilled w gid (to_lower w (trim_space raw)) (db_tabs s) (db_tabs s')"
proof -
  let ?e = "to_lower w (trim_space raw)" and ?t = "db_tabs s" and ?t' = "db_tabs s'"
  let ?new = "\<lparr> em_email = ?e, em_grantee = gid \<rparr>"
  let ?put = "upsert_by (\<lambda>r. citext_key w (em_email r)) (\<lambda>r. r\<lparr>em_grantee := gid\<rparr>) ?new (t_emails ?t)"
  have t': "?t' = assign_messages gid (assign_threads w gid ?e (?t\<lparr>t_emails := ?put\<rparr>))"
    using assms by (rule add_grantee_email_ok)
  then have em: "t_emails ?t' = ?put" and
    th: "t_threads ?t' = update_where (\<lambda>r. th_grantee r = None \<and> (\<exists>m \<in> set (t_messages ?t).
        ms_thread m = th_id r \<and> citext_key w (ms_from_addr m) = citext_key w ?e))
      (\<lambda>r. r\<lparr>th_grantee := Some gid\<rparr>) (t_threads ?t)" and
    ms: "t_messages ?t' = update_where
      (\<lambda>m. ms_grantee m = None \<and> (\<exists>r \<in> set (t_threads ?t'). th_id r = ms_thread m \<and> th_grantee r = Some gid))
      (\<lambda>m. m\<lparr>ms_grantee := Some gid\<rparr>) (t_messages ?t)"
    by (simp_all add: assign_messages_def assign_threads_def)
  have "map_option em_grantee (lookup_by (\<lambda>r. citext_key w (em_email r)) (citext_key w ?e) (t_emails ?t')) = Some gid"
    using lookup_by_upsert_same[of "\<lambda>r. citext_key w (em_email r)" "\<lambda>r. r\<lparr>em_grantee := gid\<rparr>" ?new "t_emails ?t"]
    by (simp add: em split: option.splits)
  moreover have "\<forall>r \<in> set (t_threads ?t). \<forall>m \<in> set (t_messages ?t).
      th_grantee r = None \<and> ms_thread m = th_id r \<and> citext_key w (ms_from_addr m) = citext_key w ?e \<longrightarrow>
      r\<lparr>th_grantee := Some gid\<rparr> \<in> set (t_threads ?t')"
    "\<forall>r \<in> set (t_threads ?t). th_grantee r \<noteq> None \<longrightarrow> r \<in> set (t_threads ?t')"
    unfolding th by (auto simp: row_simps)
  moreover have "\<forall>m \<in> set (t_messages ?t). ms_grantee m \<noteq> None \<longrightarrow> m \<in> set (t_messages ?t')"
    "\<forall>r \<in> set (t_threads ?t'). \<forall>m \<in> set (t_messages ?t').
      th_id r = ms_thread m \<and> th_grantee r = Some gid \<longrightarrow> ms_grantee m \<noteq> None"
    unfolding ms by (auto simp: row_simps)
  ultimately show ?thesis unfolding backfilled_def by blast
qed

definition demo_claimed :: db where
  "demo_claimed = snd (add_grantee_email demo_world ''ann'' '' Ann@x.org '' demo_db)"

lemma demo_claim: "add_grantee_email demo_world ''ann'' '' Ann@x.org '' demo_db = (Inr (), demo_claimed)"
proof -
  have "fst (add_grantee_email demo_world ''ann'' '' Ann@x.org '' demo_db) = Inr ()"
    by code_simp
  then show ?thesis by (metis demo_claimed_def prod.collapse)
qed

lemma demo_claim_faults: "db_faults demo_claimed = []"
  by code_simp

theorem add_grantee_email_backfills_witness:
  "backfilled demo_world ''ann'' (to_lower demo_world (trim_space '' Ann@x.org '')) (db_tabs demo_db)
     (db_tabs demo_claimed)"
  by (rule add_grantee_email_backfills) (rule demo_claim)

text \<open>after a successful \<open>AddGranteeEmail\<close> the resolver's lookup finds the grantee under every spelling of the
  address that \<open>CITEXT\<close> identifies with it.\<close>

theorem add_then_lookup_email:
  assumes "add_grantee_email w gid raw s = (Inr (), s')" and "db_faults s' = []"
    and "citext_key w (to_lower w addr) = citext_key w (to_lower w (trim_space raw))"
    and "pg_text_ok (to_lower w addr)"
  shows "lookup_grantee_by_email w addr s' = (Inr (gid, True), s')"
proof -
  let ?e = "to_lower w (trim_space raw)"
  let ?new = "\<lparr> em_email = ?e, em_grantee = gid \<rparr>"
  have "t_emails (db_tabs s') = upsert_by (\<lambda>r. citext_key w (em_email r)) (\<lambda>r. r\<lparr>em_grantee := gid\<rparr>) ?new
      (t_emails (db_tabs s))"
    using assms(1) by (rule add_grantee_email_ok) (simp add: assign_messages_def assign_threads_def)
  then show ?thesis
    using assms lookup_by_upsert_same[of "\<lambda>r. citext_key w (em_email r)" "\<lambda>r. r\<lparr>em_grantee := gid\<rparr>" ?new
        "t_emails (db_tabs s)"]
    by (simp add: lookup_email_clean split: option.splits)
qed

theorem add_then_lookup_email_witness:
  "lookup_grantee_by_email demo_world ''ANN@X.org'' demo_claimed = (Inr (''ann'', True), demo_claimed)"
proof (rule add_then_lookup_email[OF demo_claim demo_claim_faults])
  show "citext_key demo_world (to_lower demo_world ''ANN@X.org'') =
    citext_key demo_world (to_lower demo_world (trim_space '' Ann@x.org ''))" by code_simp
  show "pg_text_ok (to_lower demo_world ''ANN@X.org'')" by code_simp
qed

end
