(* ===== verification/StoreApprovals.thy ===== *)
theory StoreApprovals
  imports StoreGrantees
begin

text \<open>
  \<open>internal/store/approvals.go\<close>: the queue of actions awaiting approval and the operators who may
  approve them. A \<open>JSONB\<close> column returns the database's own rendering of what was stored, the function
  \<open>w_jsonb\<close> of the world.

  \<open>action_le\<close> and \<open>actions_grow\<close> state what the queue promises: rows are only appended, what was
  enqueued never changes, and a row that left \<open>pending\<close> is final. It is an \<open>evolution\<close>, so every
  operation of the store satisfies it.
\<close>

section \<open>Data\<close>

definition approval_pending :: string where "approval_pending = ''pending''"
definition approval_executed :: string where "approval_executed = ''executed''"
definition approval_failed :: string where "approval_failed = ''failed''"
definition approval_rejected :: string where "approval_rejected = ''rejected''"

lemmas approval_status_defs = approval_pending_def approval_executed_def approval_failed_def approval_rejected_def

record approval_user =
  u_email :: string
  u_key :: string
  u_fingerprint :: string
  u_created :: gotime

record approval_action =
  a_id :: int
  a_action :: string
  a_args :: string
  a_metadata :: string
  a_status :: string
  a_requested_by :: string
  a_approved_by :: string
  a_created :: gotime
  a_approved_at :: "gotime option"
  a_executed_at :: "gotime option"
  a_last_error :: string

section \<open>Actions\<close>

definition invalid_json :: err where "invalid_json = ErrPg ''22P02''"

definition json_or_empty :: "string \<Rightarrow> string" where
  "json_or_empty j = (if j = [] then ''{}'' else j)"

definition enqueue_sql :: "world \<Rightarrow> int \<Rightarrow> string \<Rightarrow> string \<Rightarrow> string \<Rightarrow> string option \<Rightarrow> int statement" where
  "enqueue_sql w now action args metadata req t q =
     (case (w_jsonb w args, w_jsonb w metadata) of
        (Some ja, Some jm) \<Rightarrow>
          (Inr (q_actions q),
           t\<lparr>t_actions := t_actions t @ [\<lparr> ac_id = q_actions q, ac_action = action, ac_args = ja, ac_metadata = jm,
              ac_status = approval_pending, ac_requested_by = req, ac_approved_by = None, ac_created = now,
              ac_approved_at = None, ac_executed_at = None, ac_last_error = None \<rparr>]\<rparr>,
           q\<lparr>q_actions := q_actions q + 1\<rparr>)
      | _ \<Rightarrow> (Inl invalid_json, t, q))"

definition enqueue_action :: "world \<Rightarrow> int \<Rightarrow> string \<Rightarrow> string \<Rightarrow> string \<Rightarrow> string \<Rightarrow> int dbm" where
  "enqueue_action w now action args metadata requested_by =
     (if action = [] then fail (ErrNew ''action required'')
      else pg (action # opt_arg (null_str requested_by))
        (enqueue_sql w now action (json_or_empty args) (json_or_empty metadata) (null_str requested_by)))"

definition action_of_row :: "action_row \<Rightarrow> approval_action" where
  "action_of_row r = \<lparr> a_id = ac_id r, a_action = ac_action r, a_args = ac_args r, a_metadata = ac_metadata r,
     a_status = ac_status r, a_requested_by = coalesce (ac_requested_by r), a_approved_by = coalesce (ac_approved_by r),
     a_created = from_unix (ac_created r), a_approved_at = map_option from_unix (ac_approved_at r),
     a_executed_at = map_option from_unix (ac_executed_at r), a_last_error = coalesce (ac_last_error r) \<rparr>"

definition get_action :: "int \<Rightarrow> approval_action dbm" where
  "get_action i = wrapE not_found (pg_row [] (\<lambda>t. map_option action_of_row (lookup_by ac_id i (t_actions t))))"

definition newest_first :: "action_row list \<Rightarrow> approval_action list" where
  "newest_first rs = map action_of_row (rev (sort_key ac_id rs))"

definition list_actions_by_status :: "string \<Rightarrow> approval_action list dbm" where
  "list_actions_by_status status =
     pg_read [status] (\<lambda>t. newest_first (filter (\<lambda>r. ac_status r = status) (t_actions t)))"

definition list_actions :: "string \<Rightarrow> approval_action list dbm" where
  "list_actions status =
     (if status = [] then pg_read [] (\<lambda>t. newest_first (t_actions t))
      else pg_read [status] (\<lambda>t. newest_first (filter (\<lambda>r. ac_status r = status) (t_actions t))))"

definition pending_row :: "int \<Rightarrow> action_row \<Rightarrow> bool" where
  "pending_row i r \<longleftrightarrow> ac_id r = i \<and> ac_status r = approval_pending"

definition executed_row :: "int \<Rightarrow> string \<Rightarrow> action_row \<Rightarrow> action_row" where
  "executed_row now by r = r\<lparr>ac_status := approval_executed, ac_approved_by := Some by, ac_approved_at := Some now,
     ac_executed_at := Some now, ac_last_error := None\<rparr>"

definition failed_row :: "int \<Rightarrow> string \<Rightarrow> string \<Rightarrow> action_row \<Rightarrow> action_row" where
  "failed_row now by msg r = r\<lparr>ac_status := approval_failed, ac_approved_by := Some by, ac_approved_at := Some now,
     ac_last_error := null_str msg\<rparr>"

definition mark_sql :: "int \<Rightarrow> (action_row \<Rightarrow> action_row) \<Rightarrow> tables \<Rightarrow> err + int \<times> tables" where
  "mark_sql i f t = Inr (count_where (pending_row i) (t_actions t),
     t\<lparr>t_actions := update_where (pending_row i) f (t_actions t)\<rparr>)"

definition mark_action_executed :: "int \<Rightarrow> int \<Rightarrow> string \<Rightarrow> unit dbm" where
  "mark_action_executed now i approved_by =
     bindE (pg_modify [approved_by] (mark_sql i (executed_row now approved_by))) require_one_row"

definition mark_action_failed :: "int \<Rightarrow> int \<Rightarrow> string \<Rightarrow> string \<Rightarrow> unit dbm" where
  "mark_action_failed now i approved_by msg =
     bindE (pg_modify (approved_by # opt_arg (null_str msg)) (mark_sql i (failed_row now approved_by msg))) require_one_row"

lemmas mark_defs = mark_action_executed_def mark_action_failed_def mark_sql_def executed_row_def failed_row_def

lemma mark_sql_Inr:
  assumes "bindE (pg_modify args (mark_sql i f)) require_one_row s = (Inr (), s')"
  shows "(\<exists>r \<in> set (t_actions (db_tabs s)). pending_row i r) \<and>
    db_tabs s' = (db_tabs s)\<lparr>t_actions := update_where (pending_row i) f (t_actions (db_tabs s))\<rparr>"
proof -
  from assms obtain n where "pg_modify args (mark_sql i f) s = (Inr n, s')" "n \<noteq> 0"
    by (auto simp: bindE_Inr_iff require_one_row_def split: if_splits)
  from pg_modify_Inr(2)[OF this(1)] this(2) show ?thesis
    by (auto simp: mark_sql_def row_simps)
qed

section \<open>Approval users\<close>

definition user_key :: "world \<Rightarrow> user_row \<Rightarrow> string" where
  "user_key w r = citext_key w (us_email r)"

definition upsert_approval_user :: "world \<Rightarrow> int \<Rightarrow> string \<Rightarrow> string \<Rightarrow> string \<Rightarrow> unit dbm" where
  "upsert_approval_user w now email key fp =
     (if email = [] \<or> key = [] \<or> fp = [] then fail (ErrNew ''email, public key, and fingerprint required'')
      else pg_modify [email, key, fp] (\<lambda>t.
        Inr ((), t\<lparr>t_users := upsert_by (user_key w) (\<lambda>r. r\<lparr>us_key := key, us_fingerprint := fp\<rparr>)
          \<lparr> us_email = email, us_key = key, us_fingerprint = fp, us_created = now \<rparr> (t_users t)\<rparr>)))"

definition user_of_row :: "user_row \<Rightarrow> approval_user" where
  "user_of_row r = \<lparr> u_email = us_email r, u_key = us_key r, u_fingerprint = us_fingerprint r,
     u_created = from_unix (us_created r) \<rparr>"

definition get_approval_user :: "world \<Rightarrow> string \<Rightarrow> approval_user dbm" where
  "get_approval_user w email =
     wrapE not_found (pg_row [email] (\<lambda>t. map_option user_of_row (lookup_by (user_key w) (citext_key w email) (t_users t))))"

text \<open>\<open>ORDER BY email\<close> on a \<open>CITEXT\<close> column sorts by its folded text.\<close>

definition list_approval_users :: "world \<Rightarrow> approval_user list dbm" where
  "list_approval_users w =
     pg_read [] (\<lambda>t. map user_of_row (sort_key (\<lambda>r. text_order w (user_key w r)) (t_users t)))"

definition remove_approval_user :: "world \<Rightarrow> string \<Rightarrow> unit dbm" where
  "remove_approval_user w email =
     (let hit = (\<lambda>r. user_key w r = citext_key w email) in
      bindE (pg_modify [email] (\<lambda>t.
          Inr (count_where hit (t_users t), t\<lparr>t_users := delete_where hit (t_users t)\<rparr>)))
        require_one_row)"

section \<open>What the queue promises\<close>

definition action_le :: "action_row \<Rightarrow> action_row \<Rightarrow> bool" where
  "action_le r r' \<longleftrightarrow> r' = r \<or>
     (ac_status r = approval_pending \<and> ac_status r' \<in> {approval_executed, approval_failed} \<and>
      ac_approved_by r' \<noteq> None \<and> ac_approved_at r' \<noteq> None \<and>
      ac_id r' = ac_id r \<and> ac_action r' = ac_action r \<and> ac_args r' = ac_args r \<and> ac_metadata r' = ac_metadata r \<and>
      ac_requested_by r' = ac_requested_by r \<and> ac_created r' = ac_created r)"

definition actions_grow :: "snapshot \<Rightarrow> snapshot \<Rightarrow> bool" where
  "actions_grow p p' \<longleftrightarrow>
     (\<exists>old new. t_actions (fst p') = old @ new \<and> list_all2 action_le (t_actions (fst p)) old)"

lemma action_le_refl [simp]: "action_le r r"
  by (simp add: action_le_def)

lemma action_le_trans: "action_le r r' \<Longrightarrow> action_le r' r'' \<Longrightarrow> action_le r r''"
  by (auto simp: action_le_def approval_status_defs)

lemma actions_grow_refl [simp]: "actions_grow p p"
  unfolding actions_grow_def by (rule exI[of _ "t_actions (fst p)"], rule exI[of _ "[]"]) (simp add: list_all2_refl)

lemma actions_grow_trans: "actions_grow p p' \<Longrightarrow> actions_grow p' p'' \<Longrightarrow> actions_grow p p''"
proof -
  assume "actions_grow p p'" "actions_grow p' p''"
  then obtain old new old' new' where
    1: "t_actions (fst p') = old @ new" "list_all2 action_le (t_actions (fst p)) old" and
    2: "t_actions (fst p'') = old' @ new'" "list_all2 action_le (old @ new) old'"
    unfolding actions_grow_def by metis
  from 2(2) obtain o1 o2 where o: "old' = o1 @ o2" "list_all2 action_le old o1"
    by (auto simp: list_all2_append1)
  have "list_all2 action_le (t_actions (fst p)) o1"
    by (rule list_all2_trans[OF action_le_trans 1(2) o(2)])
  with 2(1) o(1) show ?thesis unfolding actions_grow_def by (metis append.assoc)
qed

lemma actions_grow_same: "t_actions (fst p') = t_actions (fst p) \<Longrightarrow> actions_grow p p'"
  unfolding actions_grow_def by (rule exI[of _ "t_actions (fst p)"], rule exI[of _ "[]"]) (simp add: list_all2_refl)

interpretation queue: evolution actions_grow
  by unfold_locales (rule actions_grow_refl, erule (1) actions_grow_trans, rule actions_grow_same, simp)

text \<open>An operation that does not touch the table satisfies the promise.\<close>

lemma evolves_same_grow: "evolves (same t_actions) m \<Longrightarrow> evolves actions_grow m"
  by (auto simp: evolves_def same_def intro: actions_grow_same)

lemma list_all2_update_where: "(\<And>r. R r r) \<Longrightarrow> (\<And>r. P r \<Longrightarrow> R r (f r)) \<Longrightarrow> list_all2 R rs (update_where P f rs)"
  by (induction rs) (auto simp: update_where_def)

lemma actions_grow_update:
  "(\<And>r. P r \<Longrightarrow> action_le r (f r)) \<Longrightarrow> actions_grow (t, q) (t\<lparr>t_actions := update_where P f (t_actions t)\<rparr>, q')"
  unfolding actions_grow_def
  by (rule exI[of _ "update_where P f (t_actions t)"], rule exI[of _ "[]"]) (simp add: list_all2_update_where)

lemma enqueue_action_grow [evolve]: "evolves actions_grow (enqueue_action w now action args metadata req)"
  unfolding enqueue_action_def
proof (intro queue.ev_if queue.ev_fail queue.ev_pg)
  fix t q r t' q'
  assume "enqueue_sql w now action (json_or_empty args) (json_or_empty metadata) (null_str req) t q = (r, t', q')"
  then have "t' = t \<or> (\<exists>r. t_actions t' = t_actions t @ [r])"
    by (auto simp: enqueue_sql_def split: option.splits)
  moreover have "list_all2 action_le (t_actions t) (t_actions t)" by (simp add: list_all2_refl)
  ultimately show "actions_grow (t, q) (t', q')"
    unfolding actions_grow_def by (auto simp del: append_assoc)
qed

lemma mark_action_executed_grow [evolve]: "evolves actions_grow (mark_action_executed now i by)"
  unfolding mark_defs require_one_row_def
  by (intro queue.ev_bindE queue.ev_if queue.ev_fail queue.ev_ret queue.ev_pg_modify)
    (auto intro!: actions_grow_update simp: action_le_def pending_row_def)

lemma mark_action_failed_grow [evolve]: "evolves actions_grow (mark_action_failed now i by msg)"
  unfolding mark_defs require_one_row_def
  by (intro queue.ev_bindE queue.ev_if queue.ev_fail queue.ev_ret queue.ev_pg_modify)
    (auto intro!: actions_grow_update simp: action_le_def pending_row_def)

section \<open>Constraints\<close>

lemma ok_actions_append:
  "ok_actions n rs \<Longrightarrow> ac_id r = n \<Longrightarrow> 0 < n \<Longrightarrow> action_status_ok (ac_status r) \<Longrightarrow> ok_actions (n + 1) (rs @ [r])"
  by (auto simp: ok_actions_def)

text \<open>The row an \<open>INSERT\<close> adds.\<close>

definition new_action_row :: "int \<Rightarrow> int \<Rightarrow> string \<Rightarrow> string \<Rightarrow> string \<Rightarrow> string option \<Rightarrow> action_row" where
  "new_action_row i now action ja jm req =
     \<lparr> ac_id = i, ac_action = action, ac_args = ja, ac_metadata = jm, ac_status = approval_pending,
       ac_requested_by = req, ac_approved_by = None, ac_created = now, ac_approved_at = None,
       ac_executed_at = None, ac_last_error = None \<rparr>"

lemma enqueue_sql_cases:
  assumes "enqueue_sql w now action a m rq t q = (r, t', q')"
  obtains "r = Inl invalid_json" "t' = t" "q' = q"
  | ja jm where "w_jsonb w a = Some ja" "w_jsonb w m = Some jm" "r = Inr (q_actions q)"
      "t' = t\<lparr>t_actions := t_actions t @ [new_action_row (q_actions q) now action ja jm rq]\<rparr>"
      "q' = q\<lparr>q_actions := q_actions q + 1\<rparr>"
  using assms by (auto simp: enqueue_sql_def new_action_row_def split: option.splits)

lemma enqueue_action_schema [evolve]: "evolves (schema_step w) (enqueue_action w' now action args metadata req)"
proof -
  have "seqs_le q q' \<and> (schema w t q \<longrightarrow> schema w t' q')"
    if "enqueue_sql w' now action a m rq t q = (r, t', q')" for a m rq t q r t' q'
    using that
  proof (cases rule: enqueue_sql_cases)
    case (2 ja jm)
    have le: "seqs_le q q'" by (simp add: 2 seqs_le_def)
    moreover have "schema w t' q'" if s: "schema w t q"
      unfolding 2(4) using schema_seqs[OF s le] ok_actions_append[OF schema_parts(7)[OF s] _ schema_pos(4)[OF s]]
      by (intro schema_set(7)) (simp_all add: 2(5) new_action_row_def action_status_ok_def approval_pending_def)
    ultimately show ?thesis by blast
  qed simp
  then show ?thesis
    unfolding enqueue_action_def by (intro schema.ev_if schema.ev_fail schema_pg) blast
qed

lemma ok_actions_update:
  "ok_actions n rs \<Longrightarrow> (\<And>x. ac_id (u x) = ac_id x) \<Longrightarrow> (\<And>x. action_status_ok (ac_status (u x))) \<Longrightarrow>
   ok_actions n (update_where P u rs)"
  unfolding ok_actions_def by (intro conjI ball_update_where) (auto simp: map_key_update_where)

lemma mark_action_schema [evolve]:
  "evolves (schema_step w) (mark_action_executed now i by)"
  "evolves (schema_step w) (mark_action_failed now i by msg)"
  unfolding mark_defs require_one_row_def
  by (intro schema.ev_bindE schema.ev_if schema.ev_fail schema.ev_ret schema_pg_modify;
      auto intro!: schema_set ok_actions_update simp: schema_parts action_status_ok_def approval_status_defs)+

lemma schema_users:
  "schema w t q \<Longrightarrow> distinct (map (user_key w) us) \<Longrightarrow> schema w (t\<lparr>t_users := us\<rparr>) q"
  unfolding schema_def grantee_ids_def thread_ids_def
  by (auto simp: ok_children_def ok_keys_def message_ids_def user_key_def[abs_def])

lemma schema_user_keys: "schema w t q \<Longrightarrow> distinct (map (user_key w) (t_users t))"
  by (simp add: schema_def ok_keys_def user_key_def[abs_def])

lemma approval_user_schema [evolve]:
  "evolves (schema_step w) (upsert_approval_user w now email key fp)"
  "evolves (schema_step w) (remove_approval_user w email)"
  unfolding upsert_approval_user_def remove_approval_user_def require_one_row_def Let_def
  by (intro schema.ev_bindE schema.ev_if schema.ev_fail schema.ev_ret schema_pg_modify;
      auto intro!: schema_users distinct_upsert_by dest: schema_user_keys simp: row_simps user_key_def)+

section \<open>Reading what was written\<close>

lemma get_action_clean:
  "db_faults s = [] \<Longrightarrow> get_action i s =
     (case lookup_by ac_id i (t_actions (db_tabs s)) of
        None \<Rightarrow> (Inl ErrNotFound, s) | Some r \<Rightarrow> (Inr (action_of_row r), s))"
  by (simp add: get_action_def clean_simps not_found_def split: option.split)

lemma get_approval_user_clean:
  "db_faults s = [] \<Longrightarrow> pg_text_ok email \<Longrightarrow> get_approval_user w email s =
     (case lookup_by (user_key w) (citext_key w email) (t_users (db_tabs s)) of
        None \<Rightarrow> (Inl ErrNotFound, s) | Some r \<Rightarrow> (Inr (user_of_row r), s))"
  by (simp add: get_approval_user_def clean_simps not_found_def split: option.split)

lemma get_action_Inr:
  "get_action i s = (Inr a, s') \<Longrightarrow>
     \<exists>r. lookup_by ac_id i (t_actions (db_tabs s)) = Some r \<and> a = action_of_row r \<and> db_tabs s' = db_tabs s"
  unfolding get_action_def wrapE_Inr_iff by (frule pg_row_Inr(2), drule pg_row_Inr(1)) auto

lemma get_approval_user_Inr:
  "get_approval_user w e s = (Inr u, s') \<Longrightarrow>
     \<exists>r. lookup_by (user_key w) (citext_key w e) (t_users (db_tabs s)) = Some r \<and> u = user_of_row r \<and> db_tabs s' = db_tabs s"
  unfolding get_approval_user_def wrapE_Inr_iff by (frule pg_row_Inr(2), drule pg_row_Inr(1)) auto

text \<open>what \<open>EnqueueAction\<close> stored is what \<open>GetAction\<close> returns for the id it handed out: a pending action with the
  given name and requester, the JSON columns holding the database's rendering of args and metadata (\<open>{}\<close> when empty),
  and nothing recorded about an approval. The id was not in use.\<close>

theorem enqueue_then_get:
  assumes enq: "enqueue_action w now action args metadata req s = (Inr i, s')"
    and inv: "schema w (db_tabs s) (db_seqs s)" and clean: "db_faults s' = []"
  shows "i \<notin> ac_id ` set (t_actions (db_tabs s)) \<and>
    get_action i s' = (Inr \<lparr> a_id = i, a_action = action, a_args = the (w_jsonb w (json_or_empty args)),
      a_metadata = the (w_jsonb w (json_or_empty metadata)), a_status = ''pending'', a_requested_by = req,
      a_approved_by = [], a_created = from_unix now, a_approved_at = None, a_executed_at = None, a_last_error = [] \<rparr>, s')"
proof -
  from enq have "enqueue_sql w now action (json_or_empty args) (json_or_empty metadata) (null_str req)
      (db_tabs s) (db_seqs s) = (Inr i, db_tabs s', db_seqs s')"
    by (auto simp: enqueue_action_def split: if_splits dest: pg_Inr(2))
  then obtain ja jm where j: "w_jsonb w (json_or_empty args) = Some ja" "w_jsonb w (json_or_empty metadata) = Some jm"
    and i: "i = q_actions (db_seqs s)"
    and rows: "t_actions (db_tabs s') = t_actions (db_tabs s) @ [new_action_row i now action ja jm (null_str req)]"
    by (cases rule: enqueue_sql_cases) auto
  have fresh: "i \<notin> ac_id ` set (t_actions (db_tabs s))"
    using schema_parts(7)[OF inv] i by (auto simp: ok_actions_def)
  then have "lookup_by ac_id i (t_actions (db_tabs s)) = None"
    by (auto simp: lookup_by_None)
  with fresh j show ?thesis
    by (simp add: get_action_clean clean rows row_simps action_of_row_def new_action_row_def approval_status_defs)
qed

definition demo_queued :: db where
  "demo_queued = snd (enqueue_action demo_world 7 ''add_grantee'' ''{}'' [] ''agent'' demo_db)"

lemma demo_enqueue: "enqueue_action demo_world 7 ''add_grantee'' ''{}'' [] ''agent'' demo_db = (Inr 1, demo_queued)"
proof -
  have "fst (enqueue_action demo_world 7 ''add_grantee'' ''{}'' [] ''agent'' demo_db) = Inr 1"
    by code_simp
  then show ?thesis by (metis demo_queued_def prod.collapse)
qed

lemma demo_db_schema: "schema w (db_tabs demo_db) (db_seqs demo_db)"
  by (simp add: demo_simps schema_def ok_defs grantee_status_ok_def)

theorem enqueue_then_get_witness:
  "get_action 1 demo_queued = (Inr \<lparr> a_id = 1, a_action = ''add_grantee'', a_args = ''{}'', a_metadata = ''{}'',
     a_status = ''pending'', a_requested_by = ''agent'', a_approved_by = [], a_created = from_unix 7,
     a_approved_at = None, a_executed_at = None, a_last_error = [] \<rparr>, demo_queued)"
proof -
  have "db_faults demo_queued = []" by code_simp
  from enqueue_then_get[OF demo_enqueue demo_db_schema this] show ?thesis
    by (simp add: json_or_empty_def demo_world_def)
qed

text \<open>an action is decided at most once: after \<open>MarkActionExecuted\<close> or \<open>MarkActionFailed\<close> succeeded for an id,
  either of them reports \<open>ErrNotFound\<close> for it and changes nothing.\<close>

theorem decided_once:
  assumes marked: "mark_action_executed now i by s = (Inr (), s') \<or> mark_action_failed now i by msg s = (Inr (), s')"
    and clean: "db_faults s' = []" and arg: "pg_text_ok by2" "pg_text_ok msg2"
  shows "mark_action_executed now2 i by2 s' = (Inl ErrNotFound, s') \<and>
    mark_action_failed now2 i by2 msg2 s' = (Inl ErrNotFound, s')"
proof -
  have "\<forall>r \<in> set (t_actions (db_tabs s')). \<not> pending_row i r"
    using marked unfolding mark_action_executed_def mark_action_failed_def
    by - (elim disjE; drule mark_sql_Inr; auto simp: row_simps pending_row_def approval_status_defs executed_row_def failed_row_def)
  then have idle: "count_where (pending_row i) (t_actions (db_tabs s')) = 0"
    "update_where (pending_row i) f (t_actions (db_tabs s')) = t_actions (db_tabs s')" for f
    by (auto simp: row_simps intro: update_where_idle)
  have "list_all pg_text_ok (opt_arg (null_str msg2))" using arg(2) by (simp add: opt_arg_def null_str_def)
  then show ?thesis using arg clean
    by (simp add: mark_action_executed_def mark_action_failed_def mark_sql_def clean_simps idle require_one_row_def)
qed

theorem decided_once_witness:
  "fst (mark_action_executed 9 1 ''eve'' (snd (mark_action_failed 8 1 ''op'' ''boom'' demo_queued))) = Inl ErrNotFound"
proof -
  let ?s = "snd (mark_action_failed 8 1 ''op'' ''boom'' demo_queued)"
  have "fst (mark_action_failed 8 1 ''op'' ''boom'' demo_queued) = Inr ()" by code_simp
  then have "mark_action_failed 8 1 ''op'' ''boom'' demo_queued = (Inr (), ?s)" by (metis prod.collapse)
  moreover have "db_faults ?s = []" "pg_text_ok ''eve''" by code_simp+
  ultimately show ?thesis
    using decided_once[of 8 1 "''op''" demo_queued ?s "''boom''" "''eve''" "''eve''" 9] by simp
qed

end
