(* ===== verification/Approval.thy ===== *)
theory Approval
  imports Base64 StoreApprovals
begin

text \<open>
  \<open>internal/approval\<close>: the bytes an operator signs (\<open>signing_payload\<close>), checking a signature against an
  authorized key (\<open>verify\<close>), fingerprints, and the registry of action handlers (\<open>dispatch\<close>). The SSH
  primitives are functions of the \<open>world\<close>.

  \<open>signing_payload_inj\<close> is the binding property: one signature authorizes one id, one action and one
  canonical argument text.
\<close>

section \<open>The signing payload\<close>

definition payload_version :: string where
  "payload_version = ''balvi-approval:v1''"

definition newline :: char where
  "newline = CHR 0x0A"

definition canonical_args :: "string \<Rightarrow> string" where
  "canonical_args args =
     (case json_compact (json_or_empty args) of None \<Rightarrow> json_or_empty args | Some c \<Rightarrow> c)"

definition signing_payload :: "int \<Rightarrow> string \<Rightarrow> string \<Rightarrow> string" where
  "signing_payload i action args =
     payload_version @ newline # int_text i @ newline # action @ newline # canonical_args args"

section \<open>Keys and signatures\<close>

definition parse_authorized_key :: "world \<Rightarrow> string \<Rightarrow> err + string" where
  "parse_authorized_key w line =
     (case w_parse_key w line of
        None \<Rightarrow> Inl (ErrWrap ''parse public key: '' (ErrNew ''ssh: no key found'') [])
      | Some k \<Rightarrow> Inr k)"

definition fingerprint :: "world \<Rightarrow> string \<Rightarrow> err + string" where
  "fingerprint w line =
     (case parse_authorized_key w line of Inl e \<Rightarrow> Inl e | Inr k \<Rightarrow> Inr (w_key_fp w k))"

text \<open>\<open>MarshalSignature\<close> of a signature in its wire form.\<close>

definition marshal_signature :: "string \<Rightarrow> string" where
  "marshal_signature blob = base64_encode blob"

definition verify :: "world \<Rightarrow> string \<Rightarrow> string \<Rightarrow> string \<Rightarrow> err + unit" where
  "verify w key payload b64 =
     (case parse_authorized_key w key of
        Inl e \<Rightarrow> Inl e
      | Inr pub \<Rightarrow> (case base64_decode b64 of
          None \<Rightarrow> Inl (ErrWrap ''decode signature: '' (ErrNew ''illegal base64 data'') [])
        | Some raw \<Rightarrow> (case w_sig_parse w raw of
            None \<Rightarrow> Inl (ErrWrap ''parse signature: '' (ErrNew ''ssh: unmarshal error'') [])
          | Some sig \<Rightarrow>
              if w_sig_ok w pub payload sig then Inr ()
              else Inl (ErrWrap [] ErrBadSignature '': ssh: signature did not verify''))))"

section \<open>The registry of handlers\<close>

type_synonym handler = "string \<Rightarrow> unit dbm"
type_synonym registry = "string \<rightharpoonup> handler"

definition new_registry :: registry where
  "new_registry = (\<lambda>_. None)"

definition register :: "registry \<Rightarrow> string \<Rightarrow> handler \<Rightarrow> registry" where
  "register reg action h = reg(action \<mapsto> h)"

definition dispatch :: "registry \<Rightarrow> string \<Rightarrow> string \<Rightarrow> unit dbm" where
  "dispatch reg action args =
     (case reg action of
        None \<Rightarrow> fail (ErrWrap [] ErrUnknownAction ('': '' @ go_quote action))
      | Some h \<Rightarrow> h args)"

definition has_action :: "registry \<Rightarrow> string \<Rightarrow> bool" where
  "has_action reg action \<longleftrightarrow> reg action \<noteq> None"

section \<open>Properties\<close>

lemma int_text_no_newline: "newline \<notin> set (int_text i)"
  using set_int_text[of newline i] by (auto simp: newline_def is_digit_def)

lemma split_at_newline:
  "newline \<notin> set xs \<Longrightarrow> newline \<notin> set ys \<Longrightarrow> xs @ newline # us = ys @ newline # vs \<Longrightarrow> xs = ys \<and> us = vs"
proof (induction xs arbitrary: ys)
  case Nil
  then show ?case by (cases ys) auto
next
  case (Cons x xs)
  then show ?case by (cases ys) auto
qed

text \<open>C12: a signing payload binds its row: payloads of two actions (whose names hold no line break) coincide only if id,
  action name and canonical arguments all coincide, so a signature cannot be replayed on another row or with
  other arguments.\<close>

theorem signing_payload_inj:
  assumes "signing_payload i a x = signing_payload j b y" and "newline \<notin> set a" and "newline \<notin> set b"
  shows "i = j \<and> a = b \<and> canonical_args x = canonical_args y"
proof -
  have "int_text i @ newline # a @ newline # canonical_args x = int_text j @ newline # b @ newline # canonical_args y"
    using assms(1) by (simp add: signing_payload_def)
  then have "int_text i = int_text j" and r: "a @ newline # canonical_args x = b @ newline # canonical_args y"
    using split_at_newline[OF int_text_no_newline int_text_no_newline] by blast+
  then show ?thesis using int_text_inj split_at_newline[OF assms(2,3) r] by blast
qed

theorem signing_payload_inj_witness:
  "signing_payload 3 ''add_grantee'' ''{ }'' = signing_payload 3 ''add_grantee'' [] \<and> canonical_args ''{ }'' = canonical_args []"
proof -
  have "signing_payload 3 ''add_grantee'' ''{ }'' = signing_payload 3 ''add_grantee'' []" by code_simp
  moreover have "newline \<notin> set ''add_grantee''" by code_simp
  ultimately show ?thesis using signing_payload_inj by blast
qed

text \<open>The canonical form is stable: both sides may compact the arguments once more.\<close>

lemma json_compact_Nil: "json_compact [] = None"
  by code_simp

lemma canonical_args_stable:
  assumes "json_compact (json_or_empty x) = Some c"
  shows "canonical_args c = c"
proof -
  have c: "json_compact c = Some c" using assms by (rule json_compact_idem)
  then have "c \<noteq> []" using json_compact_Nil by auto
  with c show ?thesis by (simp add: canonical_args_def json_or_empty_def)
qed

lemma verify_ok_iff:
  "verify w key payload b64 = Inr () \<longleftrightarrow>
     (\<exists>pub raw sig. w_parse_key w key = Some pub \<and> base64_decode b64 = Some raw \<and> w_sig_parse w raw = Some sig \<and>
        w_sig_ok w pub payload sig)"
  by (auto simp: verify_def parse_authorized_key_def split: option.splits)

end
