(* ===== verification/Actions.thy ===== *)
theory Actions
  imports Approval
begin

text \<open>
  \<open>internal/actions\<close>: the four approval-gated actions. \<open>actions.go\<close> gives the names and the argument structs
  (here with their JSON rendering, which the producer in \<open>mcpserver\<close> shares), \<open>handlers.go\<close> the executors the
  approval service runs once a signature is verified.

  The locale \<open>executor\<close> is the contract between the approval service and the registry it dispatches to: handlers
  leave the approval queue alone and keep the schema. It is interpreted on the registered handlers.
\<close>

section \<open>Names and arguments\<close>

definition action_add_grantee :: string where "action_add_grantee = ''add_grantee''"
definition action_add_approval_user :: string where "action_add_approval_user = ''add_approval_user''"
definition action_whitelist_doc :: string where "action_whitelist_doc = ''whitelist_doc''"
definition action_authorize_grantee_email :: string where
  "action_authorize_grantee_email = ''authorize_grantee_email''"

lemmas action_names = action_add_grantee_def action_add_approval_user_def action_whitelist_doc_def
  action_authorize_grantee_email_def

text \<open>The JSON of the argument structs.\<close>

definition add_grantee_args :: "string \<Rightarrow> string \<Rightarrow> string" where
  "add_grantee_args slug name = marshal_fields ((''slug'', slug) # omit_empty ''display_name'' name)"

definition add_approval_user_args :: "string \<Rightarrow> string \<Rightarrow> string" where
  "add_approval_user_args email key = marshal_fields [(''email'', email), (''ssh_public_key'', key)]"

definition whitelist_doc_args :: "string \<Rightarrow> string \<Rightarrow> string \<Rightarrow> string" where
  "whitelist_doc_args gid drive ty =
     marshal_fields [(''grantee_id'', gid), (''drive_id'', drive), (''source_type'', ty)]"

definition authorize_grantee_email_args :: "string \<Rightarrow> string \<Rightarrow> string" where
  "authorize_grantee_email_args gid email = marshal_fields [(''grantee_id'', gid), (''email'', email)]"

definition metadata_json :: "string \<Rightarrow> string" where
  "metadata_json signal = marshal_fields (omit_empty ''signal_number'' signal)"

section \<open>Handlers\<close>

text \<open>\<open>json.Unmarshal\<close> into one of the structs.\<close>

definition with_args :: "string list \<Rightarrow> string \<Rightarrow> ((string \<Rightarrow> string) \<Rightarrow> unit dbm) \<Rightarrow> unit dbm" where
  "with_args names raw k = (case unmarshal_strings names raw of Inl e \<Rightarrow> fail e | Inr a \<Rightarrow> k a)"

definition handle_add_grantee :: "int \<Rightarrow> handler" where
  "handle_add_grantee now raw =
     with_args [''slug'', ''display_name''] raw (\<lambda>a.
       let slug = trim_space (a ''slug'') in
       if slug = [] then fail (ErrNew ''slug required'')
       else ensure_grantee now \<lparr> g_id = slug, g_name = a ''display_name'', g_status = status_active,
              g_emails = [], g_created = zero_time \<rparr>)"

definition handle_add_approval_user :: "world \<Rightarrow> int \<Rightarrow> handler" where
  "handle_add_approval_user w now raw =
     with_args [''email'', ''ssh_public_key''] raw (\<lambda>a.
       let email = trim_space (a ''email'') in
       if email = [] then fail (ErrNew ''email required'')
       else let key = trim_space (a ''ssh_public_key'') in
       if key = [] then fail (ErrNew ''ssh_public_key required'')
       else (case fingerprint w key of
           Inl e \<Rightarrow> fail e
         | Inr fp \<Rightarrow> upsert_approval_user w now email key fp))"

text \<open>The existence check both grantee handlers make before they write.\<close>

definition require_grantee :: "string \<Rightarrow> unit dbm" where
  "require_grantee gid =
     tryE (get_grantee gid) (\<lambda>r. case r of
        Inl e \<Rightarrow> if err_is e ErrNotFound
                then fail (ErrNew (''grantee '' @ go_quote gid @ '' does not exist'')) else fail e
      | Inr _ \<Rightarrow> ret ())"

definition handle_whitelist_doc :: "int \<Rightarrow> handler" where
  "handle_whitelist_doc now raw =
     with_args [''grantee_id'', ''drive_id'', ''source_type''] raw (\<lambda>a.
       let gid = trim_space (a ''grantee_id'') in
       if gid = [] then fail (ErrNew ''grantee_id required'')
       else let drive = trim_space (a ''drive_id'') in
       if drive = [] then fail (ErrNew ''drive_id required'')
       else if a ''source_type'' \<noteq> source_type_folder \<and> a ''source_type'' \<noteq> source_type_doc
         then fail (ErrNew (''invalid source_type '' @ go_quote (a ''source_type'')))
       else bindE (require_grantee gid) (\<lambda>_.
            bindE (upsert_source now \<lparr> s_id = 0, s_grantee = gid, s_type = a ''source_type'', s_drive = drive,
                     s_added = zero_time \<rparr>) (\<lambda>_. ret ())))"

definition handle_authorize_grantee_email :: "world \<Rightarrow> handler" where
  "handle_authorize_grantee_email w raw =
     with_args [''grantee_id'', ''email''] raw (\<lambda>a.
       let gid = trim_space (a ''grantee_id'') in
       if gid = [] then fail (ErrNew ''grantee_id required'')
       else let email = trim_space (a ''email'') in
       if email = [] then fail (ErrNew ''email required'')
       else bindE (require_grantee gid) (\<lambda>_. add_grantee_email w gid email))"

text \<open>\<open>Register\<close>.\<close>

definition register_actions :: "world \<Rightarrow> int \<Rightarrow> registry \<Rightarrow> registry" where
  "register_actions w now reg =
     register (register (register (register reg
       action_add_grantee (handle_add_grantee now))
       action_add_approval_user (handle_add_approval_user w now))
       action_whitelist_doc (handle_whitelist_doc now))
       action_authorize_grantee_email (handle_authorize_grantee_email w)"

definition service_registry :: "world \<Rightarrow> int \<Rightarrow> registry" where
  "service_registry w now = register_actions w now new_registry"

lemmas handler_defs = handle_add_grantee_def handle_add_approval_user_def handle_whitelist_doc_def
  handle_authorize_grantee_email_def with_args_def require_grantee_def

lemma service_registry_cases:
  "service_registry w now action = Some h \<Longrightarrow>
     action = action_add_grantee \<and> h = handle_add_grantee now \<or>
     action = action_add_approval_user \<and> h = handle_add_approval_user w now \<or>
     action = action_whitelist_doc \<and> h = handle_whitelist_doc now \<or>
     action = action_authorize_grantee_email \<and> h = handle_authorize_grantee_email w"
  by (auto simp: service_registry_def register_actions_def register_def new_registry_def split: if_splits)

section \<open>The contract of dispatching\<close>

lemma grantee_ops_same_actions:
  "evolves (same t_actions) (ensure_grantee now g)"
  "evolves (same t_actions) (upsert_grantee now g)"
  "evolves (same t_actions) (set_grantee_status gid st)"
  "evolves (same t_actions) (add_grantee_email w gid raw)"
  "evolves (same t_actions) (remove_grantee_email w gid raw)"
  "evolves (same t_actions) (upsert_source now src)"
  "evolves (same t_actions) (delete_source gid drive)"
  unfolding ensure_grantee_def upsert_grantee_def put_grantee_def set_grantee_status_def add_grantee_email_def remove_grantee_email_def
    upsert_source_def delete_source_def Let_def require_one_row_def
  by (intro same.ev_if same.ev_fail same.ev_ret same.ev_bindE same.ev_in_tx same_pg_modify same_pg;
      auto simp: assign_threads_def assign_messages_def upsert_source_sql_def Let_def
        split: if_splits option.splits dest!: with_grantee_Inr)+

lemma user_ops_same_actions:
  "evolves (same t_actions) (upsert_approval_user w now email key fp)"
  "evolves (same t_actions) (remove_approval_user w email)"
  unfolding upsert_approval_user_def remove_approval_user_def require_one_row_def Let_def
  by (intro same.ev_if same.ev_fail same.ev_ret same.ev_bindE same_pg_modify; auto)+

text \<open>A handler satisfies every \<open>evolution\<close> that the four store operations it may call satisfy.\<close>

context evolution begin

lemma ev_require_grantee: "evolves R (require_grantee gid)"
  unfolding require_grantee_def get_grantee_def
  by (intro ev_tryE ev_case_sum ev_if ev_fail ev_ret ev_wrapE ev_pg_row)

lemma ev_with_args: "(\<And>a. evolves R (k a)) \<Longrightarrow> evolves R (with_args names raw k)"
  unfolding with_args_def by (intro ev_case_sum ev_fail)

lemma ev_handler:
  assumes "\<And>g. evolves R (ensure_grantee now g)" and "\<And>e k fp. evolves R (upsert_approval_user w now e k fp)"
    and "\<And>src. evolves R (upsert_source now src)" and "\<And>g e. evolves R (add_grantee_email w g e)"
  shows "evolves R (dispatch (service_registry w now) action raw)"
proof (cases "service_registry w now action")
  case None
  then show ?thesis by (simp add: dispatch_def ev_fail)
next
  case (Some h)
  have "evolves R (handle_add_grantee now raw)" "evolves R (handle_add_approval_user w now raw)"
    "evolves R (handle_whitelist_doc now raw)" "evolves R (handle_authorize_grantee_email w raw)"
    unfolding handle_add_grantee_def handle_add_approval_user_def handle_whitelist_doc_def
      handle_authorize_grantee_email_def Let_def
    by (intro ev_with_args ev_if ev_fail ev_ret ev_bindE ev_case_sum ev_require_grantee assms)+
  then show ?thesis
    using service_registry_cases[OF Some] by (auto simp: dispatch_def Some)
qed

end

text \<open>The contract, as the approval service sees it.\<close>

locale executor =
  fixes w :: world and run :: "string \<Rightarrow> string \<Rightarrow> unit dbm"
  assumes leaves_queue: "evolves (same t_actions) (run action args)"
    and keeps_schema: "evolves (schema_step w) (run action args)"
begin

lemma run_actions: "run action args s = (r, s') \<Longrightarrow> t_actions (db_tabs s') = t_actions (db_tabs s)"
  using evolves_same[OF leaves_queue, of action args s] by simp

lemma run_schema:
  "run action args s = (r, s') \<Longrightarrow> schema w (db_tabs s) (db_seqs s) \<Longrightarrow> schema w (db_tabs s') (db_seqs s')"
  using evolves_schema[OF keeps_schema, of s action args] by simp

end

interpretation service: executor w "dispatch (service_registry w now)"
proof
  show "evolves (same t_actions) (dispatch (service_registry w now) action args)" for action args
    by (rule same.ev_handler) (intro grantee_ops_same_actions user_ops_same_actions)+
  show "evolves (schema_step w) (dispatch (service_registry w now) action args)" for action args
    by (rule schema.ev_handler)
      (intro ensure_grantee_schema approval_user_schema upsert_source_schema add_grantee_email_schema)+
qed

section \<open>What a successful handler did\<close>

lemma with_args_Inr:
  "with_args names raw k s = (Inr (), s') \<Longrightarrow> \<exists>a. unmarshal_strings names raw = Inr a \<and> k a s = (Inr (), s')"
  by (auto simp: with_args_def split: sum.splits)

lemma require_grantee_Inr:
  "require_grantee gid s = (Inr (), s') \<Longrightarrow> has_grantee (db_tabs s) gid \<and> db_tabs s' = db_tabs s"
  by (auto simp: require_grantee_def tryE_eq split: sum.splits if_splits)
    (metis get_grantee_Inr prod.collapse)+

lemma upsert_approval_user_ok:
  assumes "upsert_approval_user w now email key fp s = (Inr (), s')"
  shows "db_tabs s' = (db_tabs s)\<lparr>t_users := upsert_by (user_key w) (\<lambda>r. r\<lparr>us_key := key, us_fingerprint := fp\<rparr>)
          \<lparr> us_email = email, us_key = key, us_fingerprint = fp, us_created = now \<rparr> (t_users (db_tabs s))\<rparr>"
  using assms by (auto simp: upsert_approval_user_def split: if_splits dest!: pg_modify_Inr(2))

text \<open>The effect of each handler on the tables, read off its arguments.\<close>

lemma handle_add_grantee_ok:
  assumes "handle_add_grantee now raw s = (Inr (), s')"
  obtains a g where "unmarshal_strings [''slug'', ''display_name''] raw = Inr a"
    "g_id g = trim_space (a ''slug'')" "g_id g \<noteq> []" "g_name g = a ''display_name''" "g_status g = status_active"
    "db_tabs s' = (db_tabs s)\<lparr>t_grantees := upsert_by gr_id (\<lambda>r. r) (new_grantee_row now g) (t_grantees (db_tabs s))\<rparr>"
proof -
  from assms obtain a where a: "unmarshal_strings [''slug'', ''display_name''] raw = Inr a"
    and ne: "trim_space (a ''slug'') \<noteq> []"
    and run: "ensure_grantee now \<lparr> g_id = trim_space (a ''slug''), g_name = a ''display_name'',
      g_status = status_active, g_emails = [], g_created = zero_time \<rparr> s = (Inr (), s')"
    by (auto simp: handle_add_grantee_def Let_def dest!: with_args_Inr split: if_splits)
  show ?thesis by (rule that[OF a _ _ _ _ ensure_grantee_ok[OF run]]) (simp_all add: ne)
qed

lemma handle_add_approval_user_ok:
  assumes "handle_add_approval_user w now raw s = (Inr (), s')"
  obtains a fp where "unmarshal_strings [''email'', ''ssh_public_key''] raw = Inr a"
    "fingerprint w (trim_space (a ''ssh_public_key'')) = Inr fp"
    "db_tabs s' = (db_tabs s)\<lparr>t_users := upsert_by (user_key w)
       (\<lambda>r. r\<lparr>us_key := trim_space (a ''ssh_public_key''), us_fingerprint := fp\<rparr>)
       \<lparr> us_email = trim_space (a ''email''), us_key = trim_space (a ''ssh_public_key''), us_fingerprint = fp,
         us_created = now \<rparr> (t_users (db_tabs s))\<rparr>"
  using assms
  by (auto simp: handle_add_approval_user_def Let_def dest!: with_args_Inr upsert_approval_user_ok
      split: if_splits sum.splits)

lemma handle_whitelist_doc_ok:
  assumes "handle_whitelist_doc now raw s = (Inr (), s')"
  obtains a r where "unmarshal_strings [''grantee_id'', ''drive_id'', ''source_type''] raw = Inr a"
    "so_grantee r = trim_space (a ''grantee_id'')" "so_drive r = trim_space (a ''drive_id'')" "so_type r = a ''source_type''"
    "has_grantee (db_tabs s) (so_grantee r)"
    "db_tabs s' = (db_tabs s)\<lparr>t_sources := upsert_by source_key (\<lambda>x. x\<lparr>so_type := so_type r\<rparr>) r (t_sources (db_tabs s))\<rparr>"
proof -
  from assms obtain a s1 i where a: "unmarshal_strings [''grantee_id'', ''drive_id'', ''source_type''] raw = Inr a"
    and req: "require_grantee (trim_space (a ''grantee_id'')) s = (Inr (), s1)"
    and up: "upsert_source now \<lparr> s_id = 0, s_grantee = trim_space (a ''grantee_id''), s_type = a ''source_type'',
      s_drive = trim_space (a ''drive_id''), s_added = zero_time \<rparr> s1 = (Inr i, s')"
    by (auto simp: handle_whitelist_doc_def Let_def bindE_Inr_iff dest!: with_args_Inr split: if_splits)
  from require_grantee_Inr[OF req] have t: "has_grantee (db_tabs s) (trim_space (a ''grantee_id''))" "db_tabs s1 = db_tabs s"
    by auto
  from up obtain r where "so_grantee r = trim_space (a ''grantee_id'')" "so_drive r = trim_space (a ''drive_id'')"
    "so_type r = a ''source_type''" "db_tabs s' = (db_tabs s1)\<lparr>t_sources :=
      upsert_by source_key (\<lambda>x. x\<lparr>so_type := so_type r\<rparr>) r (t_sources (db_tabs s1))\<rparr>"
    by (rule upsert_source_ok) simp
  with a t show ?thesis by (intro that[of a r]) simp_all
qed

lemma handle_authorize_grantee_email_ok:
  assumes "handle_authorize_grantee_email w raw s = (Inr (), s')"
  obtains a where "unmarshal_strings [''grantee_id'', ''email''] raw = Inr a"
    "has_grantee (db_tabs s) (trim_space (a ''grantee_id''))"
    "db_tabs s' = claim_email w (trim_space (a ''grantee_id'')) (to_lower w (trim_space (a ''email''))) (db_tabs s)"
proof -
  from assms obtain a s1 where a: "unmarshal_strings [''grantee_id'', ''email''] raw = Inr a"
    and req: "require_grantee (trim_space (a ''grantee_id'')) s = (Inr (), s1)"
    and add: "add_grantee_email w (trim_space (a ''grantee_id'')) (trim_space (a ''email'')) s1 = (Inr (), s')"
    by (auto simp: handle_authorize_grantee_email_def Let_def bindE_Inr_iff dest!: with_args_Inr split: if_splits)
  from require_grantee_Inr[OF req] have t: "has_grantee (db_tabs s) (trim_space (a ''grantee_id''))" "db_tabs s1 = db_tabs s"
    by auto
  show ?thesis using add
    by (rule add_grantee_email_ok) (rule that[OF a], simp_all add: t claim_email_def)
qed

text \<open>C33: running an approved action again changes nothing: if the handler of an action succeeds twice in a row on the
  same arguments, even at different times, the second run leaves every table as the first left it. (A lost race or
  a failed status update after the dispatch makes the service dispatch an action again.)\<close>

theorem handlers_idempotent:
  assumes 1: "dispatch (service_registry w now) action raw s = (Inr (), s1)"
    and 2: "dispatch (service_registry w now2) action raw s1 = (Inr (), s2)"
  shows "db_tabs s2 = db_tabs s1"
proof -
  obtain h where h: "service_registry w now action = Some h" and r1: "h raw s = (Inr (), s1)"
    using 1 by (auto simp: dispatch_def split: option.splits)
  obtain h2 where h2: "service_registry w now2 action = Some h2" and r2: "h2 raw s1 = (Inr (), s2)"
    using 2 by (auto simp: dispatch_def split: option.splits)
  consider "h = handle_add_grantee now" "h2 = handle_add_grantee now2"
    | "h = handle_add_approval_user w now" "h2 = handle_add_approval_user w now2"
    | "h = handle_whitelist_doc now" "h2 = handle_whitelist_doc now2"
    | "h = handle_authorize_grantee_email w" "h2 = handle_authorize_grantee_email w"
    using service_registry_cases[OF h] service_registry_cases[OF h2] by (auto simp: action_names)
  then show ?thesis
  proof cases
    case 1
    from r1[unfolded 1] obtain a g where f: "unmarshal_strings [''slug'', ''display_name''] raw = Inr a"
      "g_id g = trim_space (a ''slug'')"
      "db_tabs s1 = (db_tabs s)\<lparr>t_grantees := upsert_by gr_id (\<lambda>r. r) (new_grantee_row now g) (t_grantees (db_tabs s))\<rparr>"
      by (rule handle_add_grantee_ok)
    from r2[unfolded 1] obtain a2 g2 where g: "unmarshal_strings [''slug'', ''display_name''] raw = Inr a2"
      "g_id g2 = trim_space (a2 ''slug'')"
      "db_tabs s2 = (db_tabs s1)\<lparr>t_grantees := upsert_by gr_id (\<lambda>r. r) (new_grantee_row now2 g2) (t_grantees (db_tabs s1))\<rparr>"
      by (rule handle_add_grantee_ok)
    show ?thesis using f g by (simp add: upsert_by_idem new_grantee_row_def)
  next
    case 2
    from r1[unfolded 2] r2[unfolded 2] show ?thesis
      by (elim handle_add_approval_user_ok) (simp add: upsert_by_idem user_key_def)
  next
    case 3
    from r1[unfolded 3] r2[unfolded 3] show ?thesis
      by (elim handle_whitelist_doc_ok) (simp add: upsert_by_idem source_key_def)
  next
    case 4
    from r1[unfolded 4] r2[unfolded 4] show ?thesis
      by (elim handle_authorize_grantee_email_ok) (simp add: claim_email_idem)
  qed
qed

text \<open>\<open>whitelist_doc\<close> and \<open>authorize_grantee_email\<close> never create a grantee: when one of them succeeds, the grantee
  named in its arguments existed before and the grantees are what they were.\<close>

theorem grantee_actions_need_grantee:
  assumes ok: "dispatch (service_registry w now) action raw s = (Inr (), s')"
    and which: "action = ''whitelist_doc'' \<or> action = ''authorize_grantee_email''"
  shows "t_grantees (db_tabs s') = t_grantees (db_tabs s) \<and>
    (\<exists>names a. unmarshal_strings names raw = Inr a \<and> has_grantee (db_tabs s) (trim_space (a ''grantee_id'')))"
proof -
  obtain h where h: "service_registry w now action = Some h" and run: "h raw s = (Inr (), s')"
    using ok by (auto simp: dispatch_def split: option.splits)
  then have "h = handle_whitelist_doc now \<or> h = handle_authorize_grantee_email w"
    using service_registry_cases[OF h] which by (auto simp: action_names)
  with run show ?thesis
  proof (elim disjE)
    assume "h raw s = (Inr (), s')" "h = handle_whitelist_doc now"
    then have "handle_whitelist_doc now raw s = (Inr (), s')" by simp
    then show ?thesis by (elim handle_whitelist_doc_ok) auto
  next
    assume "h raw s = (Inr (), s')" "h = handle_authorize_grantee_email w"
    then have "handle_authorize_grantee_email w raw s = (Inr (), s')" by simp
    then show ?thesis
      by (elim handle_authorize_grantee_email_ok)
        (auto simp: claim_email_def assign_messages_def assign_threads_def)
  qed
qed

text \<open>
  What the code relies on in a \<open>JSONB\<close> column: an object of string fields with distinct names comes back with the
  same field values.
\<close>

definition jsonb_keeps_fields :: "world \<Rightarrow> bool" where
  "jsonb_keeps_fields w \<longleftrightarrow> (\<forall>kvs names y. distinct (map (fold_name \<circ> fst) kvs) \<longrightarrow>
     w_jsonb w (marshal_fields kvs) = Some y \<longrightarrow> unmarshal_strings names y = unmarshal_strings names (marshal_fields kvs))"

text \<open>The four actions with the values the tool was given: name, arguments, and what the action is meant to do.\<close>

datatype request =
    AddGrantee string string
  | AddApprovalUser string string
  | WhitelistDoc string string string
  | AuthorizeEmail string string

fun request_action :: "request \<Rightarrow> string" where
  "request_action (AddGrantee slug name) = action_add_grantee"
| "request_action (AddApprovalUser email key) = action_add_approval_user"
| "request_action (WhitelistDoc gid drive ty) = action_whitelist_doc"
| "request_action (AuthorizeEmail gid email) = action_authorize_grantee_email"

fun request_args :: "request \<Rightarrow> string" where
  "request_args (AddGrantee slug name) = add_grantee_args slug name"
| "request_args (AddApprovalUser email key) = add_approval_user_args email key"
| "request_args (WhitelistDoc gid drive ty) = whitelist_doc_args gid drive ty"
| "request_args (AuthorizeEmail gid email) = authorize_grantee_email_args gid email"

fun request_texts :: "request \<Rightarrow> string list" where
  "request_texts (AddGrantee slug name) = [slug, name]"
| "request_texts (AddApprovalUser email key) = [email, key]"
| "request_texts (WhitelistDoc gid drive ty) = [gid, drive, ty]"
| "request_texts (AuthorizeEmail gid email) = [gid, email]"

fun perform :: "world \<Rightarrow> int \<Rightarrow> request \<Rightarrow> unit dbm" where
  "perform w now (AddGrantee slug name) =
     (if trim_space slug = [] then fail (ErrNew ''slug required'')
      else ensure_grantee now \<lparr> g_id = trim_space slug, g_name = name, g_status = ''active'', g_emails = [],
             g_created = zero_time \<rparr>)"
| "perform w now (AddApprovalUser email key) =
     (if trim_space email = [] then fail (ErrNew ''email required'')
      else if trim_space key = [] then fail (ErrNew ''ssh_public_key required'')
      else case fingerprint w (trim_space key) of Inl e \<Rightarrow> fail e
        | Inr fp \<Rightarrow> upsert_approval_user w now (trim_space email) (trim_space key) fp)"
| "perform w now (WhitelistDoc gid drive ty) =
     (if trim_space gid = [] then fail (ErrNew ''grantee_id required'')
      else if trim_space drive = [] then fail (ErrNew ''drive_id required'')
      else if ty \<noteq> ''folder'' \<and> ty \<noteq> ''doc'' then fail (ErrNew (''invalid source_type '' @ go_quote ty))
      else bindE (require_grantee (trim_space gid)) (\<lambda>_.
        bindE (upsert_source now \<lparr> s_id = 0, s_grantee = trim_space gid, s_type = ty, s_drive = trim_space drive,
                 s_added = zero_time \<rparr>) (\<lambda>_. ret ())))"
| "perform w now (AuthorizeEmail gid email) =
     (if trim_space gid = [] then fail (ErrNew ''grantee_id required'')
      else if trim_space email = [] then fail (ErrNew ''email required'')
      else bindE (require_grantee (trim_space gid)) (\<lambda>_. add_grantee_email w (trim_space gid) (trim_space email)))"

lemma fold_name_table:
  "fold_name ''slug'' \<noteq> fold_name ''display_name''" "fold_name ''email'' \<noteq> fold_name ''ssh_public_key''"
  "fold_name ''grantee_id'' \<noteq> fold_name ''drive_id''" "fold_name ''grantee_id'' \<noteq> fold_name ''source_type''"
  "fold_name ''drive_id'' \<noteq> fold_name ''source_type''" "fold_name ''grantee_id'' \<noteq> fold_name ''email''"
  by code_simp+

lemma valid_utf8_names:
  "valid_utf8 ''slug''" "valid_utf8 ''display_name''" "valid_utf8 ''email''" "valid_utf8 ''ssh_public_key''"
  "valid_utf8 ''grantee_id''" "valid_utf8 ''drive_id''" "valid_utf8 ''source_type''"
  by code_simp+

text \<open>Decoding what the column returns gives the values that were encoded.\<close>

lemma stored_args_decode:
  assumes "jsonb_keeps_fields w" and "w_jsonb w (marshal_fields kvs) = Some raw"
    and "distinct (map (fold_name \<circ> fst) kvs)" and "set (map fst kvs) \<subseteq> set names"
    and "list_all (\<lambda>kv. valid_utf8 (fst kv) \<and> valid_utf8 (snd kv)) kvs"
  shows "unmarshal_strings names raw = Inr (\<lambda>n. case map_of kvs n of Some v \<Rightarrow> v | None \<Rightarrow> [])"
proof -
  have "distinct (map fst kvs)" using assms(3) by (metis distinct_map list.map_comp)
  moreover have "unmarshal_strings names raw = unmarshal_strings names (marshal_fields kvs)"
    using assms(1-3) unfolding jsonb_keeps_fields_def by blast
  ultimately show ?thesis using unmarshal_marshal assms(4,5) by simp
qed

lemma stored_args_perform:
  assumes "jsonb_keeps_fields w" and "w_jsonb w (request_args r) = Some raw"
    and "list_all valid_utf8 (request_texts r)"
  shows "dispatch (service_registry w now) (request_action r) raw = perform w now r"
proof (cases r)
  case (AddGrantee slug name)
  have "unmarshal_strings [''slug'', ''display_name''] raw = Inr (\<lambda>n. case map_of ((''slug'', slug) #
      omit_empty ''display_name'' name) n of Some v \<Rightarrow> v | None \<Rightarrow> [])"
    using assms by (intro stored_args_decode[where w = w])
      (auto simp: AddGrantee add_grantee_args_def omit_empty_def fold_name_table valid_utf8_names)
  then show ?thesis
    by (auto simp: AddGrantee dispatch_def service_registry_def register_actions_def register_def action_names
        handle_add_grantee_def with_args_def Let_def omit_empty_def status_active_def)
next
  case (AddApprovalUser email key)
  have "unmarshal_strings [''email'', ''ssh_public_key''] raw = Inr (\<lambda>n. case map_of [(''email'', email),
      (''ssh_public_key'', key)] n of Some v \<Rightarrow> v | None \<Rightarrow> [])"
    using assms by (intro stored_args_decode[where w = w])
      (auto simp: AddApprovalUser add_approval_user_args_def fold_name_table valid_utf8_names)
  then show ?thesis
    by (auto simp: AddApprovalUser dispatch_def service_registry_def register_actions_def register_def action_names
        handle_add_approval_user_def with_args_def Let_def split: sum.split)
next
  case (WhitelistDoc gid drive ty)
  have "unmarshal_strings [''grantee_id'', ''drive_id'', ''source_type''] raw = Inr (\<lambda>n. case map_of
      [(''grantee_id'', gid), (''drive_id'', drive), (''source_type'', ty)] n of Some v \<Rightarrow> v | None \<Rightarrow> [])"
    using assms by (intro stored_args_decode[where w = w])
      (auto simp: WhitelistDoc whitelist_doc_args_def fold_name_table valid_utf8_names)
  then show ?thesis
    by (auto simp: WhitelistDoc dispatch_def service_registry_def register_actions_def register_def action_names
        handle_whitelist_doc_def with_args_def Let_def status_defs)
next
  case (AuthorizeEmail gid email)
  have "unmarshal_strings [''grantee_id'', ''email''] raw = Inr (\<lambda>n. case map_of [(''grantee_id'', gid),
      (''email'', email)] n of Some v \<Rightarrow> v | None \<Rightarrow> [])"
    using assms by (intro stored_args_decode[where w = w])
      (auto simp: AuthorizeEmail authorize_grantee_email_args_def fold_name_table valid_utf8_names)
  then show ?thesis
    by (auto simp: AuthorizeEmail dispatch_def service_registry_def register_actions_def register_def action_names
        handle_authorize_grantee_email_def with_args_def Let_def)
qed

lemma stored_args_nonempty:
  assumes "jsonb_keeps_fields w" and "w_jsonb w (marshal_fields kvs) = Some raw" and "distinct (map (fold_name \<circ> fst) kvs)"
    and "list_all (\<lambda>kv. valid_utf8 (fst kv) \<and> valid_utf8 (snd kv)) kvs"
  shows "raw \<noteq> []"
proof
  assume "raw = []"
  moreover have "\<not> json_valid []" by code_simp
  ultimately have "\<exists>e. unmarshal_strings (map fst kvs) raw = Inl e" by (simp add: unmarshal_strings_def)
  moreover have "unmarshal_strings (map fst kvs) raw = Inr (\<lambda>n. case map_of kvs n of Some v \<Rightarrow> v | None \<Rightarrow> [])"
    using assms by (intro stored_args_decode[where w = w]) auto
  ultimately show False by simp
qed

lemma request_args_nonempty:
  assumes "jsonb_keeps_fields w" and "w_jsonb w (request_args r) = Some raw" and "list_all valid_utf8 (request_texts r)"
  shows "raw \<noteq> []"
proof (cases r)
  case (AddGrantee slug name)
  then show ?thesis using assms
    by (intro stored_args_nonempty[where w = w and kvs = "(''slug'', slug) # omit_empty ''display_name'' name"])
      (auto simp: add_grantee_args_def omit_empty_def fold_name_table valid_utf8_names)
next
  case (AddApprovalUser email key)
  then show ?thesis using assms
    by (intro stored_args_nonempty[where w = w and kvs = "[(''email'', email), (''ssh_public_key'', key)]"])
      (auto simp: add_approval_user_args_def fold_name_table valid_utf8_names)
next
  case (WhitelistDoc gid drive ty)
  then show ?thesis using assms
    by (intro stored_args_nonempty[where w = w and kvs = "[(''grantee_id'', gid), (''drive_id'', drive), (''source_type'', ty)]"])
      (auto simp: whitelist_doc_args_def fold_name_table valid_utf8_names)
next
  case (AuthorizeEmail gid email)
  then show ?thesis using assms
    by (intro stored_args_nonempty[where w = w and kvs = "[(''grantee_id'', gid), (''email'', email)]"])
      (auto simp: authorize_grantee_email_args_def fold_name_table valid_utf8_names)
qed

text \<open>C34: producer and consumer agree: running an action's handler on what the \<open>JSONB\<close> column returns for the
  arguments the enqueueing side encoded is exactly the operation the action is meant to perform, on the values the
  tool was given.\<close>

theorem producer_consumer_agree:
  assumes "jsonb_keeps_fields w" and "w_jsonb w (request_args r) = Some raw"
    and "list_all valid_utf8 (request_texts r)"
  shows "dispatch (service_registry w now) (request_action r) raw = perform w now r"
  using assms by (rule stored_args_perform)

lemma demo_jsonb: "jsonb_keeps_fields demo_world"
  by (simp add: jsonb_keeps_fields_def demo_world_def)

lemma demo_perform:
  assumes "list_all valid_utf8 (request_texts r)"
  shows "dispatch (service_registry demo_world now) (request_action r) (request_args r) = perform demo_world now r"
  using assms by (intro stored_args_perform demo_jsonb) (simp_all add: demo_world_def)

theorem producer_consumer_agree_witness:
  "dispatch (service_registry demo_world 7) (request_action (AddGrantee '' bob '' ''B & C''))
     (request_args (AddGrantee '' bob '' ''B & C'')) = perform demo_world 7 (AddGrantee '' bob '' ''B & C'')"
  by (rule producer_consumer_agree[OF demo_jsonb]) (simp add: demo_world_def, code_simp)

definition demo_added :: db where
  "demo_added = snd (perform demo_world 7 (AddGrantee '' bob '' ''B'') demo_db)"

definition demo_added2 :: db where
  "demo_added2 = snd (perform demo_world 8 (AddGrantee '' bob '' ''B'') demo_added)"

lemma demo_added:
  "perform demo_world 7 (AddGrantee '' bob '' ''B'') demo_db = (Inr (), demo_added)"
  "perform demo_world 8 (AddGrantee '' bob '' ''B'') demo_added = (Inr (), demo_added2)"
proof -
  have "fst (perform demo_world 7 (AddGrantee '' bob '' ''B'') demo_db) = Inr ()" by code_simp
  then show "perform demo_world 7 (AddGrantee '' bob '' ''B'') demo_db = (Inr (), demo_added)"
    by (metis demo_added_def prod.collapse)
  have "fst (perform demo_world 8 (AddGrantee '' bob '' ''B'') demo_added) = Inr ()" by code_simp
  then show "perform demo_world 8 (AddGrantee '' bob '' ''B'') demo_added = (Inr (), demo_added2)"
    by (metis demo_added2_def prod.collapse)
qed

theorem handlers_idempotent_witness: "db_tabs demo_added2 = db_tabs demo_added"
proof (rule handlers_idempotent)
  have "list_all valid_utf8 (request_texts (AddGrantee '' bob '' ''B''))" by code_simp
  note run = demo_perform[OF this]
  show "dispatch (service_registry demo_world 7) (request_action (AddGrantee '' bob '' ''B''))
      (request_args (AddGrantee '' bob '' ''B'')) demo_db = (Inr (), demo_added)"
    by (simp only: run demo_added)
  show "dispatch (service_registry demo_world 8) (request_action (AddGrantee '' bob '' ''B''))
      (request_args (AddGrantee '' bob '' ''B'')) demo_added = (Inr (), demo_added2)"
    by (simp only: run demo_added)
qed

theorem grantee_actions_need_grantee_witness:
  "\<exists>names a. unmarshal_strings names (request_args (AuthorizeEmail ''ann'' ''x@y.z'')) = Inr a \<and>
     has_grantee (db_tabs demo_db) (trim_space (a ''grantee_id''))"
proof -
  let ?r = "AuthorizeEmail ''ann'' ''x@y.z''"
  let ?run = "dispatch (service_registry demo_world 7) (request_action ?r) (request_args ?r) demo_db"
  have "list_all valid_utf8 (request_texts ?r)" by code_simp
  then have "?run = perform demo_world 7 ?r demo_db" by (simp only: demo_perform)
  moreover have "fst (perform demo_world 7 ?r demo_db) = Inr ()" by code_simp
  ultimately have "?run = (Inr (), snd ?run)" by (metis prod.collapse)
  from grantee_actions_need_grantee[OF this] show ?thesis
    by (simp add: action_names)
qed

end
