(* ===== verification/ApprovalServer.thy ===== *)
theory ApprovalServer
  imports Actions
begin

text \<open>
  \<open>internal/approvalserver\<close>: the REST handlers the \<open>balvi-approve\<close> client talks to. A handler is a \<open>dbm\<close> that always
  returns: a status code with the value it writes. \<open>wire_json\<close> is what \<open>json.Encoder\<close> makes of a raw JSON field.

  The section on approving is parametric in the executor (locale \<open>executor\<close>), and interpreted on the registered
  actions. Main results: nothing changes without a valid signature of a registered operator over the payload of a
  pending action; a positive reply means the action ran and is recorded as executed by the operator who signed.
\<close>

section \<open>Replies and request bodies\<close>

datatype body =
    ErrorBody string
  | ActionsBody "approval_action list"
  | ActionBody approval_action string   \<comment> \<open>action and base64 signing payload\<close>
  | UserBody string string string       \<comment> \<open>email, fingerprint, public key\<close>
  | ApprovedBody int string
  | NoBody                              \<comment> \<open>the encoder failed, its error is dropped\<close>

type_synonym reply = "nat \<times> body"

definition write_error :: "nat \<Rightarrow> string \<Rightarrow> reply dbm" where
  "write_error status msg = ret (status, ErrorBody msg)"

text \<open>The two raw JSON fields in transit: compacted and HTML-escaped by the encoder.\<close>

definition wire_action :: "approval_action \<Rightarrow> approval_action option" where
  "wire_action a =
     (case (json_compact_escaped (a_args a), json_compact_escaped (a_metadata a)) of
        (Some x, Some y) \<Rightarrow> Some (a\<lparr>a_args := x, a_metadata := y\<rparr>)
      | _ \<Rightarrow> None)"

text \<open>
  \<open>json.NewDecoder(body).Decode\<close>: the decoder reads up to the end of the first value and ignores the rest.
\<close>

fun first_value :: "jstate \<Rightarrow> string \<Rightarrow> string \<Rightarrow> string option" where
  "first_value st acc [] = (if at_end st then Some acc else None)"
| "first_value st acc (c # s) =
     (case jstep st c of
        None \<Rightarrow> if at_end st then Some acc else None
      | Some (skip, st') \<Rightarrow> if st' = (JTop, []) then Some (acc @ [c]) else first_value st' (acc @ [c]) s)"

lemma top_only_space: "compact_from False 0 (JTop, fs) s = Some t \<Longrightarrow> \<forall>c \<in> set s. is_jspace c"
  by (induction s arbitrary: t) (auto split: option.splits if_splits)

lemma first_value_valid:
  "compact_from False 0 st s = Some t \<Longrightarrow>
   \<exists>p q. s = p @ q \<and> first_value st acc s = Some (acc @ p) \<and> (\<forall>c \<in> set q. is_jspace c)"
proof (induction s arbitrary: st acc t)
  case Nil
  then show ?case by (auto split: if_splits)
next
  case (Cons c s)
  from Cons.prems obtain skip st' t' where st: "jstep st c = Some (skip, st')" "compact_from False 0 st' s = Some t'"
    by (auto split: option.splits)
  show ?case
  proof (cases "st' = (JTop, [])")
    case True
    then have "\<forall>c \<in> set s. is_jspace c" using top_only_space st(2) by blast
    with st True show ?thesis by (intro exI[of _ "[c]"] exI[of _ s]) simp
  next
    case False
    from Cons.IH[OF st(2), of "acc @ [c]"] obtain p q where "s = p @ q"
      "first_value st' (acc @ [c]) s = Some ((acc @ [c]) @ p)" "\<forall>c \<in> set q. is_jspace c" by blast
    with st False show ?thesis by (intro exI[of _ "c # p"] exI[of _ q]) simp
  qed
qed

lemma first_value_marshal: "first_value json_start [] (marshal_fields kvs) = Some (marshal_fields kvs)"
proof -
  have "compact_from False 0 json_start (marshal_fields kvs) = Some (marshal_fields kvs)"
    using json_compact_marshal[of kvs] by (simp add: json_compact_def)
  from first_value_valid[OF this, of "[]"] obtain p q where pq: "marshal_fields kvs = p @ q"
    "first_value json_start [] (marshal_fields kvs) = Some p" "\<forall>c \<in> set q. is_jspace c" by auto
  have "q = []"
  proof (rule ccontr)
    assume "q \<noteq> []"
    moreover have "last (marshal_fields kvs) = CHR ''}''" by (simp add: marshal_fields_def)
    ultimately have "last q = CHR ''}''" using pq(1) by simp
    then have "CHR ''}'' \<in> set q" using last_in_set[OF \<open>q \<noteq> []\<close>] by simp
    from bspec[OF pq(3) this] show False by (simp add: is_jspace_def)
  qed
  with pq show ?thesis by simp
qed

record approve_request =
  rq_email :: string
  rq_signature :: string

definition decode_approve :: "string \<Rightarrow> approve_request option" where
  "decode_approve raw =
     (case first_value json_start [] raw of None \<Rightarrow> None
      | Some v \<Rightarrow> (case unmarshal_strings [''email'', ''signature''] v of
          Inl e \<Rightarrow> None
        | Inr f \<Rightarrow> Some \<lparr> rq_email = f ''email'', rq_signature = f ''signature'' \<rparr>))"

lemma decode_approve_marshal:
  assumes "valid_utf8 e" "valid_utf8 sig"
  shows "decode_approve (marshal_fields [(''email'', e), (''signature'', sig)]) = Some \<lparr> rq_email = e, rq_signature = sig \<rparr>"
proof -
  have n: "valid_utf8 ''email''" "valid_utf8 ''signature''" by code_simp+
  have "unmarshal_strings [''email'', ''signature''] (marshal_fields [(''email'', e), (''signature'', sig)]) =
      Inr (\<lambda>n. case map_of [(''email'', e), (''signature'', sig)] n of Some v \<Rightarrow> v | None \<Rightarrow> [])"
    by (rule unmarshal_marshal) (simp_all add: n assms)
  then show ?thesis by (simp add: decode_approve_def first_value_marshal)
qed

text \<open>\<open>parseID\<close>.\<close>

definition parse_id :: "string \<Rightarrow> int option" where
  "parse_id raw = (case parse_int64 raw of Some i \<Rightarrow> if i \<le> 0 then None else Some i | None \<Rightarrow> None)"

section \<open>Reading\<close>

definition list_actions_handler :: "string \<Rightarrow> reply dbm" where
  "list_actions_handler query =
     (let status = (if query = [] then approval_pending else query) in
      tryE (list_actions_by_status status) (\<lambda>r. case r of
        Inl e \<Rightarrow> write_error 500 (err_text e)
      | Inr as \<Rightarrow> ret (200, case those (map wire_action as) of None \<Rightarrow> NoBody | Some ws \<Rightarrow> ActionsBody ws)))"

definition get_action_handler :: "string \<Rightarrow> reply dbm" where
  "get_action_handler raw_id =
     (case parse_id raw_id of
        None \<Rightarrow> write_error 400 ''invalid action id''
      | Some i \<Rightarrow> tryE (get_action i) (\<lambda>r. case r of
          Inl e \<Rightarrow> if err_is e ErrNotFound then write_error 404 ''action not found'' else write_error 500 (err_text e)
        | Inr a \<Rightarrow> ret (200, case wire_action a of
              None \<Rightarrow> NoBody
            | Some a' \<Rightarrow> ActionBody a' (base64_encode (signing_payload (a_id a) (a_action a) (json_or_empty (a_args a)))))))"

definition get_approval_user_handler :: "world \<Rightarrow> string \<Rightarrow> reply dbm" where
  "get_approval_user_handler w email =
     (if email = [] then write_error 400 ''email is required''
      else tryE (get_approval_user w email) (\<lambda>r. case r of
        Inl e \<Rightarrow> if err_is e ErrNotFound then write_error 404 (''no authorized key for '' @ email)
                else write_error 500 (err_text e)
      | Inr u \<Rightarrow> ret (200, UserBody (u_email u) (u_fingerprint u) (u_key u))))"

section \<open>Approving\<close>

type_synonym exec = "string \<Rightarrow> string \<Rightarrow> unit dbm"

text \<open>From the verified action on: dispatch it and record the outcome.\<close>

definition run_and_record :: "exec \<Rightarrow> int \<Rightarrow> approval_action \<Rightarrow> string \<Rightarrow> reply dbm" where
  "run_and_record run now a email =
     tryE (run (a_action a) (json_or_empty (a_args a))) (\<lambda>r. case r of
       Inl d \<Rightarrow> tryE (mark_action_failed now (a_id a) email (err_text d)) (\<lambda>_.
                 write_error 500 (''action failed: '' @ err_text d))
     | Inr _ \<Rightarrow> tryE (mark_action_executed now (a_id a) email) (\<lambda>m. case m of
                 Inl e \<Rightarrow> write_error 500 (err_text e)
               | Inr _ \<Rightarrow> ret (200, ApprovedBody (a_id a) approval_executed)))"

text \<open>The checks before: they only read. \<open>Inl\<close> is the reply that ends the request.\<close>

definition check_request :: "world \<Rightarrow> string \<Rightarrow> string \<Rightarrow> (reply + approval_action \<times> string) dbm" where
  "check_request w raw_id raw_body =
     (let stop = (\<lambda>st msg. ret (Inl (st, ErrorBody msg))) in
      case parse_id raw_id of
        None \<Rightarrow> stop 400 ''invalid action id''
      | Some i \<Rightarrow> (case decode_approve raw_body of
          None \<Rightarrow> stop 400 ''invalid request body''
        | Some req \<Rightarrow>
            if rq_email req = [] \<or> rq_signature req = [] then stop 400 ''email and signature are required''
            else tryE (get_action i) (\<lambda>r. case r of
              Inl e \<Rightarrow> if err_is e ErrNotFound then stop 404 ''action not found'' else stop 500 (err_text e)
            | Inr a \<Rightarrow>
                if a_status a \<noteq> approval_pending
                then stop 409 (''action is not pending (status='' @ a_status a @ '')'')
                else tryE (get_approval_user w (rq_email req)) (\<lambda>u. case u of
                  Inl e \<Rightarrow> if err_is e ErrNotFound then stop 403 (''no authorized key for '' @ rq_email req)
                          else stop 500 (err_text e)
                | Inr u \<Rightarrow>
                    (case verify w (u_key u) (signing_payload (a_id a) (a_action a) (json_or_empty (a_args a)))
                            (rq_signature req) of
                       Inl e \<Rightarrow> stop 403 ''signature verification failed''
                     | Inr _ \<Rightarrow> ret (Inr (a, rq_email req)))))))"

definition approve_action :: "world \<Rightarrow> exec \<Rightarrow> int \<Rightarrow> string \<Rightarrow> string \<Rightarrow> reply dbm" where
  "approve_action w run now raw_id raw_body =
     bindE (check_request w raw_id raw_body) (\<lambda>c. case c of
       Inl reply \<Rightarrow> ret reply
     | Inr (a, email) \<Rightarrow> run_and_record run now a email)"

section \<open>What the checks establish\<close>

definition authorized :: "world \<Rightarrow> tables \<Rightarrow> int \<Rightarrow> string \<Rightarrow> string \<Rightarrow> bool" where
  "authorized w t i email sig \<longleftrightarrow>
     (case lookup_by ac_id i (t_actions t) of None \<Rightarrow> False
      | Some r \<Rightarrow> ac_status r = ''pending'' \<and>
          (case lookup_by (user_key w) (citext_key w email) (t_users t) of None \<Rightarrow> False
           | Some u \<Rightarrow> verify w (us_key u) (signing_payload i (ac_action r) (ac_args r)) sig = Inr ()))"

lemma check_request_always: "\<exists>c s'. check_request w raw_id raw_body s = (Inr c, s')"
  unfolding check_request_def Let_def
  by (auto simp: tryE_eq split: option.split sum.split)

lemma signing_payload_or_empty [simp]: "signing_payload i a (json_or_empty x) = signing_payload i a x"
proof (cases "x = []")
  case True
  have "json_compact ''{}'' = Some ''{}''" by code_simp
  with True show ?thesis by (simp add: signing_payload_def canonical_args_def json_or_empty_def)
qed (simp add: json_or_empty_def)

lemma snd_get: "db_tabs (snd (get_action i s)) = db_tabs s" "db_tabs (snd (get_approval_user w e s)) = db_tabs s"
  by (auto simp: get_action_def get_approval_user_def wrapE_eq split: sum.split prod.split)
    (metis pg_row_tabs snd_conv)+

lemma check_request_tabs: "db_tabs (snd (check_request w raw_id raw_body s)) = db_tabs s"
  unfolding check_request_def Let_def
  by (auto simp: tryE_eq snd_get split: option.split sum.split)

lemma check_request_ok:
  assumes "check_request w raw_id raw_body s = (Inr (Inr (a, email)), s')"
  obtains i sig r where "parse_id raw_id = Some i" "decode_approve raw_body = Some \<lparr> rq_email = email, rq_signature = sig \<rparr>"
    "authorized w (db_tabs s) i email sig" "lookup_by ac_id i (t_actions (db_tabs s)) = Some r" "a = action_of_row r"
    "a_id a = i" "db_tabs s' = db_tabs s"
proof -
  from assms obtain i req where p: "parse_id raw_id = Some i" and d: "decode_approve raw_body = Some req"
    and ne: "\<not> (rq_email req = [] \<or> rq_signature req = [])"
    by (auto simp: check_request_def Let_def split: option.splits if_splits)
  obtain ra s1 where ga: "get_action i s = (ra, s1)" by fastforce
  obtain ru s2 where gu: "get_approval_user w (rq_email req) s1 = (ru, s2)" by fastforce
  from assms p d ne ga gu obtain b u where ra: "ra = Inr b" and ru: "ru = Inr u" and pend: "a_status b = approval_pending"
    and v: "verify w (u_key u) (signing_payload (a_id b) (a_action b) (a_args b)) (rq_signature req) = Inr ()"
    and res: "b = a" "rq_email req = email" "s2 = s'"
    by (auto simp: check_request_def Let_def tryE_eq split: sum.splits if_splits)
  obtain r where r: "lookup_by ac_id i (t_actions (db_tabs s)) = Some r" "a = action_of_row r" "db_tabs s1 = db_tabs s"
    using get_action_Inr[of i s a s1] ga ra res by blast
  obtain ur where ur: "lookup_by (user_key w) (citext_key w email) (t_users (db_tabs s)) = Some ur" "u = user_of_row ur"
      "db_tabs s' = db_tabs s"
    using get_approval_user_Inr[of w email s1 u s'] gu ru res r(3) by auto
  have id: "a_id a = i" using r lookup_by_Some[OF r(1)] by (simp add: action_of_row_def)
  show ?thesis
  proof (rule that[OF p _ _ r(1,2) id ur(3)])
    show "decode_approve raw_body = Some \<lparr> rq_email = email, rq_signature = rq_signature req \<rparr>"
      using d res(2) by simp
    show "authorized w (db_tabs s) i email (rq_signature req)"
      using v pend res r ur id lookup_by_Some[OF r(1)]
      by (simp add: authorized_def action_of_row_def user_of_row_def approval_status_defs)
  qed
qed

lemma check_request_status:
  "check_request w raw_id raw_body s = (Inr (Inl (st, b)), s') \<Longrightarrow> 400 \<le> st \<and> st \<le> 500"
  unfolding check_request_def Let_def
  by (auto simp: tryE_eq split: option.splits sum.splits if_splits)

lemma run_and_record_status:
  "run_and_record run now a email s = (Inr (st, b), s') \<Longrightarrow> st = 200 \<or> st = 500"
  unfolding run_and_record_def write_error_def
  by (auto simp: tryE_eq split: sum.splits)

lemma approve_cases:
  obtains st b s1 where "check_request w raw_id raw_body s = (Inr (Inl (st, b)), s1)"
      "approve_action w run now raw_id raw_body s = (Inr (st, b), s1)" "db_tabs s1 = db_tabs s" "400 \<le> st"
  | a email s1 where "check_request w raw_id raw_body s = (Inr (Inr (a, email)), s1)"
      "approve_action w run now raw_id raw_body s = run_and_record run now a email s1" "db_tabs s1 = db_tabs s"
proof -
  obtain c s1 where c: "check_request w raw_id raw_body s = (Inr c, s1)" using check_request_always by blast
  have t: "db_tabs s1 = db_tabs s" using check_request_tabs[of w raw_id raw_body s] c by simp
  show thesis
  proof (cases c)
    case (Inl x)
    then show thesis using that(1)[of "fst x" "snd x" s1] c t check_request_status[of w raw_id raw_body s "fst x" "snd x" s1]
      by (simp add: approve_action_def bindE_eq)
  next
    case (Inr x)
    then show thesis using that(2)[of "fst x" "snd x" s1] c t
      by (simp add: approve_action_def bindE_eq split: prod.split)
  qed
qed

text \<open>C1: no effect without a signature: if an approve request changed anything in the database, then it named a pending
  action and an operator registered in the database, and its signature verifies with that operator's key over the
  payload of exactly that action. In particular a request answered with a 4xx status changed nothing. This holds for
  whatever handlers are registered.\<close>

theorem approve_needs_signature:
  "case approve_action w run now raw_id raw_body s of (r, s') \<Rightarrow>
     (\<exists>st b. r = Inr (st, b) \<and> (400 \<le> st \<and> st < 500 \<longrightarrow> db_tabs s' = db_tabs s)) \<and>
     (db_tabs s' \<noteq> db_tabs s \<longrightarrow>
       (\<exists>i req. parse_id raw_id = Some i \<and> decode_approve raw_body = Some req \<and>
          authorized w (db_tabs s) i (rq_email req) (rq_signature req)))"
proof (rule approve_cases[of w raw_id raw_body s run now])
  fix st b s1
  assume "approve_action w run now raw_id raw_body s = (Inr (st, b), s1)" "db_tabs s1 = db_tabs s"
  then show ?thesis by simp
next
  fix a email s1
  assume c: "check_request w raw_id raw_body s = (Inr (Inr (a, email)), s1)"
    and r: "approve_action w run now raw_id raw_body s = run_and_record run now a email s1"
  have "\<exists>i req. parse_id raw_id = Some i \<and> decode_approve raw_body = Some req \<and>
          authorized w (db_tabs s) i (rq_email req) (rq_signature req)"
    using c by (rule check_request_ok) auto
  moreover have "\<exists>st b s'. run_and_record run now a email s1 = (Inr (st, b), s')"
    unfolding run_and_record_def write_error_def by (auto simp: tryE_eq split: sum.split)
  ultimately show ?thesis
    unfolding r using run_and_record_status[of run now a email s1] by auto
qed

section \<open>What a positive reply means\<close>

lemma lookup_executed:
  assumes "lookup_by ac_id i rows = Some r" and "ac_status r = approval_pending"
  shows "lookup_by ac_id i (update_where (pending_row i) (executed_row now by) rows) = Some (executed_row now by r)"
    and "lookup_by ac_id i (update_where (pending_row i) (failed_row now by msg) rows) = Some (failed_row now by msg r)"
  using assms lookup_by_Some[OF assms(1)]
  by (simp_all add: lookup_by_update_where executed_row_def failed_row_def pending_row_def)

context executor begin

lemma approve_ok:
  assumes "approve_action w run now raw_id raw_body s = (Inr (200, b), s')"
  obtains i email sig r s1 s2 where "parse_id raw_id = Some i"
    "decode_approve raw_body = Some \<lparr> rq_email = email, rq_signature = sig \<rparr>" "authorized w (db_tabs s) i email sig"
    "lookup_by ac_id i (t_actions (db_tabs s)) = Some r" "b = ApprovedBody i approval_executed"
    "db_tabs s1 = db_tabs s" "run (ac_action r) (json_or_empty (ac_args r)) s1 = (Inr (), s2)"
    "db_tabs s' = (db_tabs s2)\<lparr>t_actions := update_where (pending_row i) (executed_row now email) (t_actions (db_tabs s))\<rparr>"
proof (rule approve_cases[of w raw_id raw_body s run now])
  fix st b s1
  assume "approve_action w run now raw_id raw_body s = (Inr (st, b), s1)" "400 \<le> st"
  then show thesis using assms by simp
next
  fix a email s1
  assume c: "check_request w raw_id raw_body s = (Inr (Inr (a, email)), s1)"
    and r: "approve_action w run now raw_id raw_body s = run_and_record run now a email s1"
    and t: "db_tabs s1 = db_tabs s"
  from assms r have rec: "run_and_record run now a email s1 = (Inr (200, b), s')" by simp
  obtain rr s2 where d: "run (a_action a) (json_or_empty (a_args a)) s1 = (rr, s2)" by fastforce
  with rec have rr: "rr = Inr ()" and m: "mark_action_executed now (a_id a) email s2 = (Inr (), s')"
    and b: "b = ApprovedBody (a_id a) approval_executed"
    by (auto simp: run_and_record_def write_error_def tryE_eq split: sum.splits) (metis prod.collapse)
  have s': "db_tabs s' = (db_tabs s2)\<lparr>t_actions := update_where (pending_row (a_id a)) (executed_row now email)
      (t_actions (db_tabs s))\<rparr>"
    using mark_sql_Inr[OF m[unfolded mark_action_executed_def]] run_actions[OF d] t by simp
  show thesis using c
  proof (rule check_request_ok)
    fix i sig row
    assume f: "parse_id raw_id = Some i" "decode_approve raw_body = Some \<lparr> rq_email = email, rq_signature = sig \<rparr>"
      "authorized w (db_tabs s) i email sig" "lookup_by ac_id i (t_actions (db_tabs s)) = Some row" "a = action_of_row row"
      "a_id a = i"
    show thesis
      using that[OF f(1-4) _ t] d rr b s' f(5,6) by (simp add: action_of_row_def)
  qed
qed

lemma run_and_record_grow: "evolves actions_grow (run_and_record run now a email)"
  unfolding run_and_record_def write_error_def
  by (intro queue.ev_tryE queue.ev_case_sum queue.ev_ret mark_action_executed_grow mark_action_failed_grow
      evolves_same_grow leaves_queue)

lemma run_and_record_schema: "evolves (schema_step w) (run_and_record run now a email)"
  unfolding run_and_record_def write_error_def
  by (intro schema.ev_tryE schema.ev_case_sum schema.ev_ret mark_action_schema keeps_schema)

end

lemma check_request_grow: "evolution R \<Longrightarrow> evolves R (check_request w raw_id raw_body)"
  unfolding check_request_def Let_def get_action_def get_approval_user_def
  by (intro evolution.ev_case_option evolution.ev_case_sum evolution.ev_if evolution.ev_ret evolution.ev_tryE
      evolution.ev_wrapE evolution.ev_pg_row)

lemma approve_evolves:
  assumes "evolution R" and "\<And>a email. evolves R (run_and_record run now a email)"
  shows "evolves R (approve_action w run now raw_id raw_body)"
  unfolding approve_action_def
  by (intro evolution.ev_bindE[OF assms(1)] check_request_grow[OF assms(1)] evolution.ev_case_sum[OF assms(1)]
      evolution.ev_case_prod[OF assms(1)] evolution.ev_ret[OF assms(1)] assms(2))

text \<open>C8: a positive reply tells the truth: when the service answers 200, the named action was pending, the signature of a
  registered operator over its payload verified, the registered handler of the action succeeded on its stored
  arguments, and the action is now recorded as executed, approved by that operator, while no other action changed.\<close>

theorem approve_200_executed:
  assumes "approve_action w (dispatch (service_registry w now)) now raw_id raw_body s = (Inr (200, b), s')"
  shows "\<exists>i req r s1 s2. parse_id raw_id = Some i \<and> decode_approve raw_body = Some req \<and>
    authorized w (db_tabs s) i (rq_email req) (rq_signature req) \<and> b = ApprovedBody i ''executed'' \<and>
    lookup_by ac_id i (t_actions (db_tabs s)) = Some r \<and>
    dispatch (service_registry w now) (ac_action r) (json_or_empty (ac_args r)) s1 = (Inr (), s2) \<and>
    db_tabs s1 = db_tabs s \<and>
    db_tabs s' = (db_tabs s2)\<lparr>t_actions := update_where (pending_row i) (executed_row now (rq_email req))
      (t_actions (db_tabs s))\<rparr> \<and>
    lookup_by ac_id i (t_actions (db_tabs s')) = Some (executed_row now (rq_email req) r)"
proof (rule service.approve_ok[OF assms])
  fix i email sig r s1 s2
  assume f: "parse_id raw_id = Some i" "decode_approve raw_body = Some \<lparr> rq_email = email, rq_signature = sig \<rparr>"
    "authorized w (db_tabs s) i email sig" "lookup_by ac_id i (t_actions (db_tabs s)) = Some r"
    "b = ApprovedBody i approval_executed" "db_tabs s1 = db_tabs s"
    "dispatch (service_registry w now) (ac_action r) (json_or_empty (ac_args r)) s1 = (Inr (), s2)"
    "db_tabs s' = (db_tabs s2)\<lparr>t_actions := update_where (pending_row i) (executed_row now email) (t_actions (db_tabs s))\<rparr>"
  have "ac_status r = approval_pending" using f(3,4) by (simp add: authorized_def approval_status_defs split: option.splits)
  note l = lookup_executed(1)[OF f(4) this, of now email]
  show ?thesis
    by (rule exI[of _ i], rule exI[of _ "\<lparr> rq_email = email, rq_signature = sig \<rparr>"], rule exI[of _ r],
        rule exI[of _ s1], rule exI[of _ s2]) (simp add: f l approval_executed_def)
qed

text \<open>C10: a handler that fails leaves the action failed: for an authorized request whose handler reports an error (and a
  database that then answers), the reply is 500 with that error, the action is recorded as failed with the error's
  text and the operator, and it is no longer pending.\<close>

theorem approve_failure_recorded:
  assumes ids: "parse_id raw_id = Some i" "decode_approve raw_body = Some req" "rq_email req \<noteq> []" "rq_signature req \<noteq> []"
    and auth: "authorized w (db_tabs s) i (rq_email req) (rq_signature req)"
    and row: "lookup_by ac_id i (t_actions (db_tabs s)) = Some r"
    and bad: "dispatch (service_registry w now) (ac_action r) (json_or_empty (ac_args r)) s = (Inl e, s2)"
    and clean: "db_faults s = []" "db_faults s2 = []"
    and legal: "pg_text_ok (rq_email req)" "pg_text_ok (err_text e)"
  shows "\<exists>s'. approve_action w (dispatch (service_registry w now)) now raw_id raw_body s =
      (Inr (500, ErrorBody (''action failed: '' @ err_text e)), s') \<and>
    lookup_by ac_id i (t_actions (db_tabs s')) = Some (failed_row now (rq_email req) (err_text e) r)"
proof -
  from auth row obtain u where u: "lookup_by (user_key w) (citext_key w (rq_email req)) (t_users (db_tabs s)) = Some u"
    and v: "verify w (us_key u) (signing_payload i (ac_action r) (ac_args r)) (rq_signature req) = Inr ()"
    and p: "ac_status r = approval_pending"
    by (auto simp: authorized_def approval_status_defs split: option.splits)
  have i: "ac_id r = i" using lookup_by_Some[OF row] by simp
  have c: "check_request w raw_id raw_body s = (Inr (Inr (action_of_row r, rq_email req)), s)"
    using ids v p by (simp add: check_request_def Let_def tryE_eq get_action_clean get_approval_user_clean clean legal row u
        action_of_row_def user_of_row_def i)
  have t: "t_actions (db_tabs s2) = t_actions (db_tabs s)" using service.run_actions[OF bad] .
  have "\<exists>x \<in> set (t_actions (db_tabs s)). pending_row i x"
    using lookup_by_Some[OF row] p by (auto simp: pending_row_def)
  then have n: "count_where (pending_row i) (t_actions (db_tabs s2)) \<noteq> 0" by (auto simp: t row_simps)
  have args: "list_all pg_text_ok (rq_email req # opt_arg (null_str (err_text e)))"
    using legal by (simp add: opt_arg_def null_str_def)
  then have "\<exists>s'. mark_action_failed now i (rq_email req) (err_text e) s2 = (Inr (), s') \<and>
      t_actions (db_tabs s') = update_where (pending_row i) (failed_row now (rq_email req) (err_text e)) (t_actions (db_tabs s))"
    using n clean(2) by (simp add: mark_action_failed_def mark_sql_def clean_simps require_one_row_def t)
  then obtain s' where m: "mark_action_failed now i (rq_email req) (err_text e) s2 = (Inr (), s')"
    "t_actions (db_tabs s') = update_where (pending_row i) (failed_row now (rq_email req) (err_text e)) (t_actions (db_tabs s))"
    by blast
  have "approve_action w (dispatch (service_registry w now)) now raw_id raw_body s =
      (Inr (500, ErrorBody (''action failed: '' @ err_text e)), s')"
    using bad m(1) i by (simp add: approve_action_def bindE_eq c run_and_record_def tryE_eq action_of_row_def write_error_def)
  then show ?thesis using lookup_executed(2)[OF row p] m(2) by simp
qed

lemma served_signature_approves:
  assumes got: "get_action_handler raw_id s = (Inr (200, ActionBody a b64), s)" "parse_id raw_id = Some i"
    and row: "lookup_by ac_id i (t_actions (db_tabs s)) = Some r" "ac_status r = ''pending''"
    and user: "lookup_by (user_key w) (citext_key w (rq_email req)) (t_users (db_tabs s)) = Some u"
    and signed: "verify w (us_key u) (the (base64_decode b64)) (rq_signature req) = Inr ()"
    and body: "decode_approve raw_body = Some req" "rq_email req \<noteq> []" "rq_signature req \<noteq> []" "pg_text_ok (rq_email req)"
    and run: "dispatch (service_registry w now) (ac_action r) (json_or_empty (ac_args r)) s = (Inr (), s2)"
    and clean: "db_faults s = []" "db_faults s2 = []"
  shows "\<exists>s'. approve_action w (dispatch (service_registry w now)) now raw_id raw_body s =
    (Inr (200, ApprovedBody i ''executed''), s')"
proof -
  have i: "ac_id r = i" using lookup_by_Some[OF row(1)] by simp
  have "b64 = base64_encode (signing_payload i (ac_action r) (ac_args r))"
    using got row by (auto simp: get_action_handler_def tryE_eq get_action_clean clean action_of_row_def i split: option.splits)
  then have v: "verify w (us_key u) (signing_payload i (ac_action r) (ac_args r)) (rq_signature req) = Inr ()"
    using signed by simp
  have c: "check_request w raw_id raw_body s = (Inr (Inr (action_of_row r, rq_email req)), s)"
    using got(2) body v row user by (simp add: check_request_def Let_def tryE_eq get_action_clean get_approval_user_clean
        clean action_of_row_def user_of_row_def approval_status_defs i)
  have t: "t_actions (db_tabs s2) = t_actions (db_tabs s)" using service.run_actions[OF run] .
  have "\<exists>x \<in> set (t_actions (db_tabs s)). pending_row i x"
    using lookup_by_Some[OF row(1)] row(2) by (auto simp: pending_row_def approval_status_defs)
  then have n: "count_where (pending_row i) (t_actions (db_tabs s2)) \<noteq> 0" by (auto simp: t row_simps)
  then obtain s' where m: "mark_action_executed now i (rq_email req) s2 = (Inr (), s')"
    using clean(2) body(4) by (simp add: mark_action_executed_def mark_sql_def clean_simps require_one_row_def)
  then show ?thesis
    using run i by (simp add: approve_action_def bindE_eq c run_and_record_def tryE_eq action_of_row_def approval_executed_def)
qed

text \<open>signing what was served is enough: a client that fetches a pending action, signs the served payload with the key
  of a registered operator and posts the signature is answered 200 and the action is executed, provided the handler
  succeeds and no statement fails.\<close>

theorem get_then_approve:
  assumes got: "get_action_handler raw_id s = (Inr (200, ActionBody a b64), s)" "parse_id raw_id = Some i"
    and row: "lookup_by ac_id i (t_actions (db_tabs s)) = Some r" "ac_status r = ''pending''"
    and user: "lookup_by (user_key w) (citext_key w (rq_email req)) (t_users (db_tabs s)) = Some u"
    and signed: "verify w (us_key u) (the (base64_decode b64)) (rq_signature req) = Inr ()"
    and body: "decode_approve raw_body = Some req" "rq_email req \<noteq> []" "rq_signature req \<noteq> []" "pg_text_ok (rq_email req)"
    and run: "dispatch (service_registry w now) (ac_action r) (json_or_empty (ac_args r)) s = (Inr (), s2)"
    and clean: "db_faults s = []" "db_faults s2 = []"
  shows "\<exists>s'. approve_action w (dispatch (service_registry w now)) now raw_id raw_body s =
    (Inr (200, ApprovedBody i ''executed''), s')"
  using assms by (rule served_signature_approves)

section \<open>A concrete run\<close>

text \<open>A queue with one pending action and one operator, whose key is \<open>k\<close>; the demo world accepts the key followed by
  the payload as a signature.\<close>

definition demo_row :: action_row where
  "demo_row = new_action_row 1 7 ''add_grantee'' (add_grantee_args ''bob'' []) ''{}'' None"

definition demo_ready :: db where
  "demo_ready = demo_db\<lparr>db_tabs := (db_tabs demo_db)\<lparr>t_actions := [demo_row],
     t_users := [\<lparr> us_email = ''op'', us_key = ''k'', us_fingerprint = ''SHA256:k'', us_created = 3 \<rparr>]\<rparr>,
     db_seqs := first_seqs\<lparr>q_actions := 2\<rparr>\<rparr>"

definition demo_payload :: string where
  "demo_payload = signing_payload 1 ''add_grantee'' (add_grantee_args ''bob'' [])"

definition demo_body :: string where
  "demo_body = marshal_fields [(''email'', ''OP''), (''signature'', base64_encode (CHR ''k'' # demo_payload))]"

lemma demo_decode: "decode_approve demo_body = Some \<lparr> rq_email = ''OP'', rq_signature = base64_encode (CHR ''k'' # demo_payload) \<rparr>"
  unfolding demo_body_def by (rule decode_approve_marshal) code_simp+

definition demo_request :: approve_request where
  "demo_request = \<lparr> rq_email = ''OP'', rq_signature = base64_encode (CHR ''k'' # demo_payload) \<rparr>"

lemma demo_ready_simps:
  "db_faults demo_ready = []"
  "lookup_by ac_id 1 (t_actions (db_tabs demo_ready)) = Some demo_row"
  "ac_action demo_row = ''add_grantee''" "ac_args demo_row = add_grantee_args ''bob'' []" "ac_status demo_row = ''pending''"
  "ac_metadata demo_row = ''{}''" "ac_id demo_row = 1"
  by (simp_all add: demo_ready_def demo_row_def new_action_row_def demo_db_def fresh_db_def lookup_by_def approval_pending_def)

lemma demo_user: "lookup_by (user_key demo_world) (citext_key demo_world ''OP'') (t_users (db_tabs demo_ready)) =
    Some \<lparr> us_email = ''op'', us_key = ''k'', us_fingerprint = ''SHA256:k'', us_created = 3 \<rparr>"
  by code_simp

lemma demo_args: "json_compact_escaped (add_grantee_args ''bob'' []) = Some (add_grantee_args ''bob'' [])"
  "json_compact_escaped ''{}'' = Some ''{}''" "add_grantee_args ''bob'' [] \<noteq> []"
  by code_simp+

lemma demo_parse_id: "parse_id ''1'' = Some 1"
  by code_simp

lemma demo_get: "get_action_handler ''1'' demo_ready =
    (Inr (200, ActionBody (action_of_row demo_row) (base64_encode demo_payload)), demo_ready)"
  using demo_args by (simp add: get_action_handler_def demo_parse_id tryE_eq get_action_clean demo_ready_simps action_of_row_def
      wire_action_def demo_payload_def)

lemma demo_verify: "verify demo_world ''k'' demo_payload (rq_signature demo_request) = Inr ()"
  by (simp add: demo_request_def verify_ok_iff) (simp add: demo_world_def)

definition demo_ran :: db where
  "demo_ran = snd (perform demo_world 9 (AddGrantee ''bob'' []) demo_ready)"

lemma demo_run:
  "dispatch (service_registry demo_world 9) ''add_grantee'' (add_grantee_args ''bob'' []) demo_ready = (Inr (), demo_ran)"
  "db_faults demo_ran = []"
proof -
  have "list_all valid_utf8 (request_texts (AddGrantee ''bob'' []))" by code_simp
  from demo_perform[OF this, of 9] have "dispatch (service_registry demo_world 9) ''add_grantee'' (add_grantee_args ''bob'' [])
    = perform demo_world 9 (AddGrantee ''bob'' [])" by (simp add: action_names)
  moreover have "fst (perform demo_world 9 (AddGrantee ''bob'' []) demo_ready) = Inr ()" by code_simp
  ultimately show "dispatch (service_registry demo_world 9) ''add_grantee'' (add_grantee_args ''bob'' []) demo_ready = (Inr (), demo_ran)"
    by (metis demo_ran_def prod.collapse)
  show "db_faults demo_ran = []" by code_simp
qed

lemma demo_request_args:
  "decode_approve demo_body = Some demo_request" "rq_email demo_request = ''OP''" "rq_email demo_request \<noteq> []"
  "rq_signature demo_request \<noteq> []" "pg_text_ok (rq_email demo_request)"
  "dispatch (service_registry demo_world 9) (ac_action demo_row) (json_or_empty (ac_args demo_row)) demo_ready = (Inr (), demo_ran)"
proof -
  show "decode_approve demo_body = Some demo_request" by (simp add: demo_decode demo_request_def)
  show "rq_email demo_request = ''OP''" "rq_email demo_request \<noteq> []" "rq_signature demo_request \<noteq> []"
    by (simp_all add: demo_request_def)
  show "pg_text_ok (rq_email demo_request)" by code_simp
  show "dispatch (service_registry demo_world 9) (ac_action demo_row) (json_or_empty (ac_args demo_row)) demo_ready = (Inr (), demo_ran)"
    using demo_run(1) demo_args(3) by (simp add: demo_ready_simps json_or_empty_def)
qed

definition demo_op :: user_row where
  "demo_op = \<lparr> us_email = ''op'', us_key = ''k'', us_fingerprint = ''SHA256:k'', us_created = 3 \<rparr>"

lemma demo_user_request:
  "lookup_by (user_key demo_world) (citext_key demo_world (rq_email demo_request)) (t_users (db_tabs demo_ready)) = Some demo_op"
  "verify demo_world (us_key demo_op) (the (base64_decode (base64_encode demo_payload))) (rq_signature demo_request) = Inr ()"
  using demo_user demo_verify by (simp_all add: demo_request_args demo_op_def)

lemmas demo_case = demo_get demo_parse_id demo_ready_simps(2) demo_ready_simps(5) demo_user_request demo_request_args(1,3-6)
  demo_ready_simps(1) demo_run(2)

theorem get_then_approve_witness:
  "\<exists>s'. approve_action demo_world (dispatch (service_registry demo_world 9)) 9 ''1'' demo_body demo_ready =
     (Inr (200, ApprovedBody 1 ''executed''), s')"
  by (rule get_then_approve[OF demo_case])

theorem approve_200_executed_witness:
  "\<exists>s'. approve_action demo_world (dispatch (service_registry demo_world 9)) 9 ''1'' demo_body demo_ready =
       (Inr (200, ApprovedBody 1 ''executed''), s') \<and>
     lookup_by ac_id 1 (t_actions (db_tabs s')) = Some (executed_row 9 ''OP'' demo_row)"
proof -
  obtain s' where s': "approve_action demo_world (dispatch (service_registry demo_world 9)) 9 ''1'' demo_body demo_ready =
     (Inr (200, ApprovedBody 1 ''executed''), s')"
    using served_signature_approves[OF demo_case] by blast
  from approve_200_executed[OF this] show ?thesis
    using s' by (auto simp: demo_parse_id demo_request_args demo_ready_simps)
qed

theorem approve_needs_signature_witness:
  "\<exists>i req. parse_id ''1'' = Some i \<and> decode_approve demo_body = Some req \<and>
     authorized demo_world (db_tabs demo_ready) i (rq_email req) (rq_signature req)"
proof -
  obtain s' where s': "approve_action demo_world (dispatch (service_registry demo_world 9)) 9 ''1'' demo_body demo_ready =
     (Inr (200, ApprovedBody 1 ''executed''), s')"
    using served_signature_approves[OF demo_case] by blast
  have "ac_status (hd (t_actions (db_tabs s'))) = ''executed''" using s'
  proof (rule service.approve_ok)
    fix i email sig r s1 s2
    assume "parse_id ''1'' = Some i" "db_tabs s' = (db_tabs s2)\<lparr>t_actions :=
      update_where (pending_row i) (executed_row 9 email) (t_actions (db_tabs demo_ready))\<rparr>"
    then show ?thesis
      by (simp add: demo_parse_id demo_ready_def update_where_def pending_row_def executed_row_def approval_status_defs
          demo_row_def new_action_row_def)
  qed
  then have "db_tabs s' \<noteq> db_tabs demo_ready" by (auto simp: demo_ready_def demo_row_def new_action_row_def approval_pending_def)
  then show ?thesis
    using approve_needs_signature[where w = demo_world and run = "dispatch (service_registry demo_world 9)" and now = 9
        and raw_id = "''1''" and raw_body = demo_body and s = demo_ready]
    by (simp add: s')
qed

text \<open>And a run that fails: an action nobody registered.\<close>

definition demo_bad_row :: action_row where
  "demo_bad_row = new_action_row 1 7 ''nope'' ''{}'' ''{}'' None"

definition demo_bad :: db where
  "demo_bad = demo_db\<lparr>db_tabs := (db_tabs demo_db)\<lparr>t_actions := [demo_bad_row], t_users := [demo_op]\<rparr>\<rparr>"

definition demo_bad_request :: approve_request where
  "demo_bad_request = \<lparr> rq_email = ''op'', rq_signature = base64_encode (CHR ''k'' # signing_payload 1 ''nope'' ''{}'') \<rparr>"

theorem approve_failure_recorded_witness:
  "\<exists>s'. approve_action demo_world (dispatch (service_registry demo_world 9)) 9 ''1''
      (marshal_fields [(''email'', rq_email demo_bad_request), (''signature'', rq_signature demo_bad_request)]) demo_bad =
      (Inr (500, ErrorBody (''action failed: '' @ err_text (ErrWrap [] ErrUnknownAction ('': '' @ go_quote ''nope'')))), s') \<and>
    lookup_by ac_id 1 (t_actions (db_tabs s')) =
      Some (failed_row 9 (rq_email demo_bad_request) (err_text (ErrWrap [] ErrUnknownAction ('': '' @ go_quote ''nope''))) demo_bad_row)"
proof (rule approve_failure_recorded[OF demo_parse_id])
  show "decode_approve (marshal_fields [(''email'', rq_email demo_bad_request), (''signature'', rq_signature demo_bad_request)]) =
    Some demo_bad_request"
    by (subst decode_approve_marshal) (code_simp, code_simp, simp add: demo_bad_request_def)
  show "rq_email demo_bad_request \<noteq> []" "rq_signature demo_bad_request \<noteq> []" by (simp_all add: demo_bad_request_def)
  have l: "lookup_by ac_id 1 (t_actions (db_tabs demo_bad)) = Some demo_bad_row"
    by (simp add: demo_bad_def demo_bad_row_def new_action_row_def lookup_by_def)
  then show "lookup_by ac_id 1 (t_actions (db_tabs demo_bad)) = Some demo_bad_row" .
  have u: "lookup_by (user_key demo_world) (citext_key demo_world ''op'') (t_users (db_tabs demo_bad)) = Some demo_op"
    by code_simp
  have v: "verify demo_world ''k'' (signing_payload 1 ''nope'' ''{}'') (rq_signature demo_bad_request) = Inr ()"
    by (simp add: demo_bad_request_def verify_ok_iff) (simp add: demo_world_def)
  show "authorized demo_world (db_tabs demo_bad) 1 (rq_email demo_bad_request) (rq_signature demo_bad_request)"
    using u v by (simp add: authorized_def l demo_bad_request_def)
      (simp add: demo_bad_row_def new_action_row_def approval_pending_def demo_op_def)
  show "dispatch (service_registry demo_world 9) (ac_action demo_bad_row) (json_or_empty (ac_args demo_bad_row)) demo_bad =
      (Inl (ErrWrap [] ErrUnknownAction ('': '' @ go_quote ''nope'')), demo_bad)"
    by (simp add: dispatch_def service_registry_def register_actions_def register_def new_registry_def action_names
        demo_bad_row_def new_action_row_def)
  show "db_faults demo_bad = []" "db_faults demo_bad = []" by (simp_all add: demo_bad_def demo_db_def fresh_db_def)
  show "pg_text_ok (rq_email demo_bad_request)" by code_simp
  show "pg_text_ok (err_text (ErrWrap [] ErrUnknownAction ('': '' @ go_quote ''nope'')))" by code_simp
qed

end
