(* ===== verification/ApprovalRace.thy ===== *)
theory ApprovalRace
  imports ApprovalServer "HOL-Library.Multiset"
begin

text \<open>
  The approval service under concurrency. \<open>net/http\<close> serves each approve request in its own goroutine and
  \<open>approveAction\<close> holds no lock: between the status check, the dispatch and the status update other requests and other
  processes run. \<open>service_step\<close> interleaves the stages of any number of approve requests (the read of the action, the read of
  the operator with the check of the signature, the dispatch, the status update) with any other operation that respects
  the queue and the schema. The handler that a dispatch runs is one step, although two of the four handlers read the grantee in a
  statement of its own before they write.

  The guard \<open>AND status = 'pending'\<close> of the update makes the outcome unique (\<open>one_approval_per_action\<close>), but it
  comes after the dispatch: two requests can both run the handler (\<open>race_dispatches_twice\<close>).
\<close>

section \<open>Stages of a request\<close>

datatype stage =
    Waiting string string                             \<comment> \<open>path id and body\<close>
  | Found approval_action approve_request             \<comment> \<open>pending when it was read\<close>
  | Checked approval_action string                    \<comment> \<open>signature verified, operator's email\<close>
  | Ran approval_action string "err option"           \<comment> \<open>handler returned\<close>
  | Answered reply

record service =
  sv_db :: db
  sv_reqs :: "stage list"

text \<open>\<open>check_request\<close> in its two reads.\<close>

definition find_pending :: "string \<Rightarrow> string \<Rightarrow> (reply + approval_action \<times> approve_request) dbm" where
  "find_pending raw_id raw_body =
     (let stop = (\<lambda>st msg. ret (Inl (st, ErrorBody msg))) in
      case parse_id raw_id of
        None \<Rightarrow> stop 400 ''invalid action id''
      | Some i \<Rightarrow> (case decode_approve raw_body of
          None \<Rightarrow> stop 400 ''invalid request body''
        | Some req \<Rightarrow>
            if rq_email req = [] \<or> rq_signature req = [] then stop 400 ''email and signature are required''
            else tryE (get_action i) (\<lambda>r. case r of
              Inl e \<Rightarrow> if err_is e ErrNotFound then stop 404 ''action not found'' else stop 500 (err_text e)
            | Inr a \<Rightarrow>
                if a_status a \<noteq> approval_pending
                then stop 409 (''action is not pending (status='' @ a_status a @ '')'')
                else ret (Inr (a, req)))))"

definition check_signer :: "world \<Rightarrow> approval_action \<Rightarrow> approve_request \<Rightarrow> (reply + approval_action \<times> string) dbm" where
  "check_signer w a req =
     (let stop = (\<lambda>st msg. ret (Inl (st, ErrorBody msg))) in
      tryE (get_approval_user w (rq_email req)) (\<lambda>u. case u of
        Inl e \<Rightarrow> if err_is e ErrNotFound then stop 403 (''no authorized key for '' @ rq_email req) else stop 500 (err_text e)
      | Inr u \<Rightarrow>
          (case verify w (u_key u) (signing_payload (a_id a) (a_action a) (json_or_empty (a_args a))) (rq_signature req) of
             Inl e \<Rightarrow> stop 403 ''signature verification failed''
           | Inr _ \<Rightarrow> ret (Inr (a, rq_email req)))))"

lemma check_request_stages:
  "check_request w raw_id raw_body =
     bindE (find_pending raw_id raw_body) (\<lambda>c. case c of Inl reply \<Rightarrow> ret (Inl reply) | Inr (a, req) \<Rightarrow> check_signer w a req)"
  by (rule ext)
    (auto simp: check_request_def find_pending_def check_signer_def Let_def bindE_eq tryE_eq split: option.split sum.split prod.split)

fun after_find :: "reply + approval_action \<times> approve_request \<Rightarrow> stage" where
  "after_find (Inl reply) = Answered reply"
| "after_find (Inr (a, req)) = Found a req"

fun after_check :: "reply + approval_action \<times> string \<Rightarrow> stage" where
  "after_check (Inl reply) = Answered reply"
| "after_check (Inr (a, email)) = Checked a email"

fun after_run :: "approval_action \<Rightarrow> string \<Rightarrow> err + unit \<Rightarrow> stage" where
  "after_run a email (Inl e) = Ran a email (Some e)"
| "after_run a email (Inr _) = Ran a email None"

fun after_mark :: "approval_action \<Rightarrow> err + unit \<Rightarrow> stage" where
  "after_mark a (Inl e) = Answered (500, ErrorBody (err_text e))"
| "after_mark a (Inr _) = Answered (200, ApprovedBody (a_id a) approval_executed)"

inductive service_step :: "world \<Rightarrow> service \<Rightarrow> service \<Rightarrow> bool" for w where
  find: "k < length reqs \<Longrightarrow> reqs ! k = Waiting raw_id raw_body \<Longrightarrow>
    find_pending raw_id raw_body s = (Inr f, s') \<Longrightarrow>
    service_step w \<lparr> sv_db = s, sv_reqs = reqs \<rparr> \<lparr> sv_db = s', sv_reqs = reqs[k := after_find f] \<rparr>"
| check: "k < length reqs \<Longrightarrow> reqs ! k = Found a req \<Longrightarrow>
    check_signer w a req s = (Inr c, s') \<Longrightarrow>
    service_step w \<lparr> sv_db = s, sv_reqs = reqs \<rparr> \<lparr> sv_db = s', sv_reqs = reqs[k := after_check c] \<rparr>"
| run: "k < length reqs \<Longrightarrow> reqs ! k = Checked a email \<Longrightarrow>
    dispatch (service_registry w now) (a_action a) (json_or_empty (a_args a)) s = (r, s') \<Longrightarrow>
    service_step w \<lparr> sv_db = s, sv_reqs = reqs \<rparr> \<lparr> sv_db = s', sv_reqs = reqs[k := after_run a email r] \<rparr>"
| fail_mark: "k < length reqs \<Longrightarrow> reqs ! k = Ran a email (Some e) \<Longrightarrow>
    mark_action_failed now (a_id a) email (err_text e) s = (r, s') \<Longrightarrow>
    service_step w \<lparr> sv_db = s, sv_reqs = reqs \<rparr>
      \<lparr> sv_db = s', sv_reqs = reqs[k := Answered (500, ErrorBody (''action failed: '' @ err_text e))] \<rparr>"
| ok_mark: "k < length reqs \<Longrightarrow> reqs ! k = Ran a email None \<Longrightarrow>
    mark_action_executed now (a_id a) email s = (r, s') \<Longrightarrow>
    service_step w \<lparr> sv_db = s, sv_reqs = reqs \<rparr> \<lparr> sv_db = s', sv_reqs = reqs[k := after_mark a r] \<rparr>"
| arrive: "service_step w \<lparr> sv_db = s, sv_reqs = reqs \<rparr> \<lparr> sv_db = s, sv_reqs = reqs @ [Waiting raw_id raw_body] \<rparr>"
| other: "evolves actions_grow m \<Longrightarrow> evolves (schema_step w) m \<Longrightarrow> m s = (r :: err + unit, s') \<Longrightarrow>
    service_step w \<lparr> sv_db = s, sv_reqs = reqs \<rparr> \<lparr> sv_db = s', sv_reqs = reqs \<rparr>"

inductive service_run :: "world \<Rightarrow> service \<Rightarrow> service \<Rightarrow> bool" for w where
  start: "service_run w \<sigma> \<sigma>"
| step: "service_run w \<sigma> \<sigma>' \<Longrightarrow> service_step w \<sigma>' \<sigma>'' \<Longrightarrow> service_run w \<sigma> \<sigma>''"

inductive_cases service_stepE: "service_step w \<sigma> \<sigma>'"

text \<open>The ids the service has answered positively for.\<close>

fun approved_id :: "stage \<Rightarrow> int list" where
  "approved_id (Answered (st, ApprovedBody i s)) = [i]"
| "approved_id _ = []"

definition approved_ids :: "stage list \<Rightarrow> int list" where
  "approved_ids reqs = concat (map approved_id reqs)"

section \<open>One positive answer per action\<close>

definition decided :: "tables \<Rightarrow> int \<Rightarrow> bool" where
  "decided t i \<longleftrightarrow> (\<exists>r \<in> set (t_actions t). ac_id r = i \<and> ac_status r \<noteq> approval_pending)"

definition race_inv :: "world \<Rightarrow> service \<Rightarrow> bool" where
  "race_inv w \<sigma> \<longleftrightarrow> schema w (db_tabs (sv_db \<sigma>)) (db_seqs (sv_db \<sigma>)) \<and> distinct (approved_ids (sv_reqs \<sigma>)) \<and>
     (\<forall>i \<in> set (approved_ids (sv_reqs \<sigma>)). decided (db_tabs (sv_db \<sigma>)) i)"

lemma approved_ids_update:
  assumes "k < length reqs" and "approved_id (reqs ! k) = []"
  shows "mset (approved_ids (reqs[k := x])) = mset (approved_ids reqs) + mset (approved_id x)"
proof -
  have "approved_ids reqs = approved_ids (take k reqs @ reqs ! k # drop (Suc k) reqs)"
    by (rule arg_cong[OF id_take_nth_drop[OF assms(1)]])
  also have "\<dots> = approved_ids (take k reqs) @ approved_ids (drop (Suc k) reqs)"
    using assms(2) by (simp add: approved_ids_def)
  finally have "approved_ids reqs = approved_ids (take k reqs) @ approved_ids (drop (Suc k) reqs)" .
  moreover have "approved_ids (reqs[k := x]) = approved_ids (take k reqs) @ approved_id x @ approved_ids (drop (Suc k) reqs)"
    using assms(1) by (simp add: approved_ids_def upd_conv_take_nth_drop)
  ultimately show ?thesis by simp
qed

lemma decided_grow: "actions_grow (snap s) (snap s') \<Longrightarrow> decided (db_tabs s) i \<Longrightarrow> decided (db_tabs s') i"
proof -
  assume "actions_grow (snap s) (snap s')" "decided (db_tabs s) i"
  then obtain old new r where "t_actions (db_tabs s') = old @ new" "list_all2 action_le (t_actions (db_tabs s)) old"
    and r: "r \<in> set (t_actions (db_tabs s))" "ac_id r = i" "ac_status r \<noteq> approval_pending"
    by (auto simp: actions_grow_def snap_def decided_def)
  then obtain r' where "r' \<in> set (t_actions (db_tabs s'))" "action_le r r'"
    by (metis Un_iff in_set_conv_nth list_all2_conv_all_nth set_append)
  with r show ?thesis by (auto simp: decided_def action_le_def)
qed

text \<open>A stage change that answers nothing new keeps the invariant if the database change does.\<close>

lemma race_inv_quiet:
  assumes "race_inv w \<lparr> sv_db = s, sv_reqs = reqs \<rparr>"
    and "mset (approved_ids reqs') = mset (approved_ids reqs)"
    and "actions_grow (snap s) (snap s')" and "schema_step w (snap s) (snap s')"
  shows "race_inv w \<lparr> sv_db = s', sv_reqs = reqs' \<rparr>"
  using assms decided_grow[OF assms(3)]
  by (auto simp: race_inv_def schema_step_def snap_def dest: mset_eq_setD mset_eq_imp_distinct_iff)

lemma read_stages_error:
  "find_pending raw_id raw_body s = (Inr f, s') \<Longrightarrow> approved_id (after_find f) = []"
  "check_signer w a req s = (Inr c, s') \<Longrightarrow> approved_id (after_check c) = []"
  unfolding find_pending_def check_signer_def Let_def
  by (auto simp: tryE_eq split: option.splits sum.splits if_splits)

context evolution begin

lemma ev_read_stages: "evolves R (find_pending raw_id raw_body)" "evolves R (check_signer w a req)"
  unfolding find_pending_def check_signer_def Let_def get_action_def get_approval_user_def
  by (intro ev_case_option ev_case_sum ev_if ev_ret ev_tryE ev_wrapE ev_pg_row)+

end

lemma executed_decided:
  assumes "mark_action_executed now i email s = (Inr (), s')" and "schema w (db_tabs s) q"
  shows "\<not> decided (db_tabs s) i \<and> decided (db_tabs s') i"
proof -
  from mark_sql_Inr[OF assms(1)[unfolded mark_action_executed_def]] obtain r where
    r: "r \<in> set (t_actions (db_tabs s))" "pending_row i r" and
    s': "db_tabs s' = (db_tabs s)\<lparr>t_actions := update_where (pending_row i) (executed_row now email) (t_actions (db_tabs s))\<rparr>"
    by blast
  have "distinct (map ac_id (t_actions (db_tabs s)))"
    using schema_parts(7)[OF assms(2)] by (simp add: ok_actions_def)
  then have "x = r" if "x \<in> set (t_actions (db_tabs s))" "ac_id x = i" for x
    using that r by (auto simp: pending_row_def distinct_map inj_on_def)
  then have "\<not> decided (db_tabs s) i" using r by (auto simp: decided_def pending_row_def)
  moreover have "executed_row now email r \<in> set (t_actions (db_tabs s'))" using r s' by (auto simp: row_simps)
  moreover have "ac_id (executed_row now email r) = i \<and> ac_status (executed_row now email r) \<noteq> approval_pending"
    using r(2) by (simp add: executed_row_def pending_row_def approval_status_defs)
  ultimately show ?thesis unfolding decided_def by blast
qed

lemma race_inv_step: "service_step w \<sigma> \<sigma>' \<Longrightarrow> race_inv w \<sigma> \<Longrightarrow> race_inv w \<sigma>'"
proof (induction rule: service_step.induct)
  case (find k reqs raw_id raw_body s f s')
  show ?case using find.prems
  proof (rule race_inv_quiet)
    show "mset (approved_ids (reqs[k := after_find f])) = mset (approved_ids reqs)"
      using approved_ids_update[of k reqs "after_find f"] find read_stages_error(1)[OF find(3)] by simp
    show "actions_grow (snap s) (snap s')" "schema_step w (snap s) (snap s')"
      by (rule evolvesD[OF queue.ev_read_stages(1) find(3)] evolvesD[OF schema.ev_read_stages(1) find(3)])+
  qed
next
  case (check k reqs a req s c s')
  show ?case using check.prems
  proof (rule race_inv_quiet)
    show "mset (approved_ids (reqs[k := after_check c])) = mset (approved_ids reqs)"
      using approved_ids_update[of k reqs "after_check c"] check read_stages_error(2)[OF check(3)] by simp
    show "actions_grow (snap s) (snap s')" "schema_step w (snap s) (snap s')"
      by (rule evolvesD[OF queue.ev_read_stages(2) check(3)] evolvesD[OF schema.ev_read_stages(2) check(3)])+
  qed
next
  case (run k reqs a email now s r s')
  show ?case using run.prems
  proof (rule race_inv_quiet)
    show "mset (approved_ids (reqs[k := after_run a email r])) = mset (approved_ids reqs)"
      using approved_ids_update[of k reqs "after_run a email r"] run by (cases r) simp_all
    show "actions_grow (snap s) (snap s')" "schema_step w (snap s) (snap s')"
      using evolvesD[OF evolves_same_grow[OF service.leaves_queue] run(3)] evolvesD[OF service.keeps_schema run(3)] by blast+
  qed
next
  case (fail_mark k reqs a email e now s r s')
  show ?case using fail_mark.prems
  proof (rule race_inv_quiet)
    show "mset (approved_ids (reqs[k := Answered (500, ErrorBody (''action failed: '' @ err_text e))])) = mset (approved_ids reqs)"
      using approved_ids_update[of k reqs "Answered (500, ErrorBody (''action failed: '' @ err_text e))"] fail_mark by simp
    show "actions_grow (snap s) (snap s')" "schema_step w (snap s) (snap s')"
      using evolvesD[OF mark_action_failed_grow fail_mark(3)] evolvesD[OF mark_action_schema(2) fail_mark(3)] by blast+
  qed
next
  case (ok_mark k reqs a email now s r s')
  have ev: "actions_grow (snap s) (snap s')" "schema_step w (snap s) (snap s')"
    using evolvesD[OF mark_action_executed_grow ok_mark(3)] evolvesD[OF mark_action_schema(1) ok_mark(3)] by blast+
  show ?case
  proof (cases r)
    case (Inl e)
    show ?thesis using ok_mark.prems
    proof (rule race_inv_quiet[OF _ _ ev])
      show "mset (approved_ids (reqs[k := after_mark a r])) = mset (approved_ids reqs)"
        using approved_ids_update[of k reqs "after_mark a r"] ok_mark Inl by simp
    qed
  next
    case (Inr u)
    have inv: "schema w (db_tabs s) (db_seqs s)" "distinct (approved_ids reqs)"
      "\<forall>i \<in> set (approved_ids reqs). decided (db_tabs s) i"
      using ok_mark.prems by (auto simp: race_inv_def)
    have d: "\<not> decided (db_tabs s) (a_id a)" "decided (db_tabs s') (a_id a)"
      using executed_decided[OF _ inv(1)] ok_mark(3) Inr by simp_all
    have m: "mset (approved_ids (reqs[k := after_mark a r])) = add_mset (a_id a) (mset (approved_ids reqs))"
      using approved_ids_update[of k reqs "after_mark a r"] ok_mark Inr by simp
    then have st: "set (approved_ids (reqs[k := after_mark a r])) = insert (a_id a) (set (approved_ids reqs))"
      by (metis set_mset_add_mset_insert set_mset_mset)
    have "a_id a \<notin> set (approved_ids reqs)" using inv(3) d(1) by blast
    then have "distinct (a_id a # approved_ids reqs)" using inv(2) by simp
    then have "distinct (approved_ids (reqs[k := after_mark a r]))"
      using m by (metis mset.simps(2) mset_eq_imp_distinct_iff)
    then show ?thesis
      using inv d(2) decided_grow[OF ev(1)] ev(2) st by (auto simp: race_inv_def schema_step_def snap_def)
  qed
next
  case (arrive s reqs raw_id raw_body)
  then show ?case by (simp add: race_inv_def approved_ids_def)
next
  case (other m s r s' reqs)
  show ?case using other.prems
    by (rule race_inv_quiet) (use evolvesD[OF other(1,3)] evolvesD[OF other(2,3)] in auto)
qed

lemma race_inv_run: "service_run w \<sigma> \<sigma>' \<Longrightarrow> race_inv w \<sigma> \<Longrightarrow> race_inv w \<sigma>'"
  by (induction rule: service_run.induct) (auto intro: race_inv_step)

text \<open>C11: at most one positive answer per action: however the stages of any number of approve requests, for the same or
  different actions, interleave with each other and with other store operations, the service never answers 200 twice
  for one action id.\<close>

theorem one_approval_per_action:
  assumes "service_run w \<lparr> sv_db = s, sv_reqs = [] \<rparr> \<sigma>" and "schema w (db_tabs s) (db_seqs s)"
  shows "distinct (approved_ids (sv_reqs \<sigma>))"
proof -
  have "race_inv w \<lparr> sv_db = s, sv_reqs = [] \<rparr>" using assms(2) by (simp add: race_inv_def approved_ids_def)
  then show ?thesis using race_inv_run[OF assms(1)] by (simp add: race_inv_def)
qed

section \<open>The handler can run twice\<close>

text \<open>A well-formed approve request for action \<open>i\<close> that an operator of the database has signed.\<close>

definition signed_request :: "world \<Rightarrow> db \<Rightarrow> int \<Rightarrow> string \<Rightarrow> string \<Rightarrow> approve_request \<Rightarrow> bool" where
  "signed_request w s i raw_id raw req \<longleftrightarrow> parse_id raw_id = Some i \<and> decode_approve raw = Some req \<and> rq_email req \<noteq> [] \<and>
     rq_signature req \<noteq> [] \<and> pg_text_ok (rq_email req) \<and> authorized w (db_tabs s) i (rq_email req) (rq_signature req)"

lemma signed_stages:
  assumes req: "signed_request w s i raw_id raw req" and row: "lookup_by ac_id i (t_actions (db_tabs s)) = Some r" and clean: "db_faults s = []"
  shows "find_pending raw_id raw s = (Inr (Inr (action_of_row r, req)), s)"
    "check_signer w (action_of_row r) req s = (Inr (Inr (action_of_row r, rq_email req)), s)"
    "ac_status r = approval_pending" "a_id (action_of_row r) = i"
proof -
  from req row obtain u where u: "lookup_by (user_key w) (citext_key w (rq_email req)) (t_users (db_tabs s)) = Some u"
    and v: "verify w (us_key u) (signing_payload i (ac_action r) (ac_args r)) (rq_signature req) = Inr ()"
    and p: "ac_status r = approval_pending"
    by (auto simp: signed_request_def authorized_def approval_status_defs split: option.splits)
  have i: "ac_id r = i" using lookup_by_Some[OF row] by simp
  show "find_pending raw_id raw s = (Inr (Inr (action_of_row r, req)), s)"
    using req p by (simp add: signed_request_def find_pending_def Let_def tryE_eq get_action_clean clean row action_of_row_def)
  show "check_signer w (action_of_row r) req s = (Inr (Inr (action_of_row r, rq_email req)), s)"
    using req v by (simp add: signed_request_def check_signer_def Let_def tryE_eq get_approval_user_clean clean u action_of_row_def
        user_of_row_def i)
  show "ac_status r = approval_pending" "a_id (action_of_row r) = i" using p i by (simp_all add: action_of_row_def)
qed

lemma mark_after_dispatch:
  assumes row: "lookup_by ac_id i (t_actions (db_tabs s)) = Some r" "ac_status r = approval_pending"
    and same: "t_actions (db_tabs s2) = t_actions (db_tabs s)" and clean: "db_faults s2 = []" and email: "pg_text_ok email"
  shows "\<exists>s3. mark_action_executed now i email s2 = (Inr (), s3) \<and> db_faults s3 = [] \<and>
    lookup_by ac_id i (t_actions (db_tabs s3)) = Some (executed_row now email r)"
proof -
  have "\<exists>x \<in> set (t_actions (db_tabs s)). pending_row i x"
    using lookup_by_Some[OF row(1)] row(2) by (auto simp: pending_row_def)
  then have "count_where (pending_row i) (t_actions (db_tabs s2)) \<noteq> 0" by (auto simp: same row_simps)
  then show ?thesis using clean email lookup_executed(1)[OF row, of now email]
    by (simp add: mark_action_executed_def mark_sql_def clean_simps require_one_row_def same)
qed

lemma race_interleaving:
  assumes first: "signed_request w s i id1 raw1 req1" and second: "signed_request w s i id2 raw2 req2"
    and row: "lookup_by ac_id i (t_actions (db_tabs s)) = Some r"
    and run1: "dispatch (service_registry w now) (ac_action r) (json_or_empty (ac_args r)) s = (Inr (), s1)"
    and run2: "dispatch (service_registry w now2) (ac_action r) (json_or_empty (ac_args r)) s1 = (Inr (), s2)"
    and clean: "db_faults s = []" "db_faults s1 = []" "db_faults s2 = []"
  shows "\<exists>a \<sigma>. a_id a = i \<and>
      service_run w \<lparr> sv_db = s, sv_reqs = [] \<rparr> \<lparr> sv_db = s2, sv_reqs = [Ran a (rq_email req1) None, Ran a (rq_email req2) None] \<rparr> \<and>
      service_run w \<lparr> sv_db = s2, sv_reqs = [Ran a (rq_email req1) None, Ran a (rq_email req2) None] \<rparr> \<sigma> \<and>
      sv_reqs \<sigma> = [Answered (200, ApprovedBody i ''executed''), Answered (500, ErrorBody (err_text ErrNotFound))] \<and>
      lookup_by ac_id i (t_actions (db_tabs (sv_db \<sigma>))) = Some (executed_row now (rq_email req1) r)"
proof -
  let ?a = "action_of_row r" and ?st = "\<lambda>s reqs. \<lparr> sv_db = s, sv_reqs = reqs \<rparr>"
  let ?e1 = "rq_email req1" and ?e2 = "rq_email req2" and ?w1 = "Waiting id1 raw1" and ?w2 = "Waiting id2 raw2"
  note c1 = signed_stages[OF first row clean(1)] and c2 = signed_stages[OF second row clean(1)]
  have act: "a_action ?a = ac_action r" "a_args ?a = ac_args r" by (simp_all add: action_of_row_def)
  have email: "pg_text_ok ?e1" "pg_text_ok ?e2" using first second by (simp_all add: signed_request_def)
  have t1: "t_actions (db_tabs s1) = t_actions (db_tabs s)" by (rule service.run_actions[OF run1])
  then have t2: "t_actions (db_tabs s2) = t_actions (db_tabs s)" using service.run_actions[OF run2] by simp
  obtain s3 where m1: "mark_action_executed now i ?e1 s2 = (Inr (), s3)" "db_faults s3 = []"
    "lookup_by ac_id i (t_actions (db_tabs s3)) = Some (executed_row now ?e1 r)"
    using mark_after_dispatch[OF row c1(3) t2 clean(3) email(1)] by blast
  have m2: "mark_action_executed now2 i ?e2 s3 = (Inl ErrNotFound, s3)"
    using decided_once[of now i ?e1 s2 s3 "[]" ?e2 "[]" now2] m1 email(2) by (simp add: pg_text_ok_def)
  have 1: "service_step w (?st s []) (?st s [?w1])" using service_step.arrive[of w s "[]" id1 raw1] by simp
  have 2: "service_step w (?st s [?w1]) (?st s [?w1, ?w2])" using service_step.arrive[of w s "[?w1]" id2 raw2] by simp
  have 3: "service_step w (?st s [?w1, ?w2]) (?st s [Found ?a req1, ?w2])"
    using service_step.find[of 0 "[?w1, ?w2]" id1 raw1 s "Inr (?a, req1)" s w] c1(1) by simp
  have 4: "service_step w (?st s [Found ?a req1, ?w2]) (?st s [Found ?a req1, Found ?a req2])"
    using service_step.find[of 1 "[Found ?a req1, ?w2]" id2 raw2 s "Inr (?a, req2)" s w] c2(1) by simp
  have 5: "service_step w (?st s [Found ?a req1, Found ?a req2]) (?st s [Checked ?a ?e1, Found ?a req2])"
    using service_step.check[of 0 "[Found ?a req1, Found ?a req2]" ?a req1 w s "Inr (?a, ?e1)" s] c1(2) by simp
  have 6: "service_step w (?st s [Checked ?a ?e1, Found ?a req2]) (?st s [Checked ?a ?e1, Checked ?a ?e2])"
    using service_step.check[of 1 "[Checked ?a ?e1, Found ?a req2]" ?a req2 w s "Inr (?a, ?e2)" s] c2(2) by simp
  have 7: "service_step w (?st s [Checked ?a ?e1, Checked ?a ?e2]) (?st s1 [Ran ?a ?e1 None, Checked ?a ?e2])"
    using service_step.run[of 0 "[Checked ?a ?e1, Checked ?a ?e2]" ?a ?e1 w now s "Inr ()" s1] run1 act by simp
  have 8: "service_step w (?st s1 [Ran ?a ?e1 None, Checked ?a ?e2]) (?st s2 [Ran ?a ?e1 None, Ran ?a ?e2 None])"
    using service_step.run[of 1 "[Ran ?a ?e1 None, Checked ?a ?e2]" ?a ?e2 w now2 s1 "Inr ()" s2] run2 act by simp
  have ran: "service_run w (?st s []) (?st s2 [Ran ?a ?e1 None, Ran ?a ?e2 None])"
    by (intro service_run.step[OF _ 8] service_run.step[OF _ 7] service_run.step[OF _ 6] service_run.step[OF _ 5]
        service_run.step[OF _ 4] service_run.step[OF _ 3] service_run.step[OF _ 2] service_run.step[OF _ 1] service_run.start)
  let ?ok = "Answered (200, ApprovedBody i ''executed'')"
  have 9: "service_step w (?st s2 [Ran ?a ?e1 None, Ran ?a ?e2 None]) (?st s3 [?ok, Ran ?a ?e2 None])"
    using service_step.ok_mark[of 0 "[Ran ?a ?e1 None, Ran ?a ?e2 None]" ?a ?e1 now s2 "Inr ()" s3 w] m1(1) c1(4)
    by (simp add: approval_executed_def)
  have 10: "service_step w (?st s3 [?ok, Ran ?a ?e2 None]) (?st s3 [?ok, Answered (500, ErrorBody (err_text ErrNotFound))])"
    using service_step.ok_mark[of 1 "[?ok, Ran ?a ?e2 None]" ?a ?e2 now2 s3 "Inl ErrNotFound" s3 w] m2 c1(4) by simp
  have marked: "service_run w (?st s2 [Ran ?a ?e1 None, Ran ?a ?e2 None]) (?st s3 [?ok, Answered (500, ErrorBody (err_text ErrNotFound))])"
    by (intro service_run.step[OF _ 10] service_run.step[OF _ 9] service_run.start)
  show ?thesis using ran marked m1(3) c1(4) by (intro exI[of _ ?a] exI[of _ "?st s3 [?ok, _]"]) simp
qed

lemma second_refused:
  assumes first: "signed_request w s i id1 raw1 req1" and second: "signed_request w s i id2 raw2 req2"
    and row: "lookup_by ac_id i (t_actions (db_tabs s)) = Some r"
    and run1: "dispatch (service_registry w now) (ac_action r) (json_or_empty (ac_args r)) s = (Inr (), s1)"
    and clean: "db_faults s = []" "db_faults s1 = []"
  shows "\<exists>sA. approve_action w (dispatch (service_registry w now)) now id1 raw1 s = (Inr (200, ApprovedBody i ''executed''), sA) \<and>
      approve_action w (dispatch (service_registry w now2)) now2 id2 raw2 sA =
        (Inr (409, ErrorBody ''action is not pending (status=executed)''), sA)"
proof -
  let ?a = "action_of_row r" and ?e1 = "rq_email req1"
  note c1 = signed_stages[OF first row clean(1)]
  have email: "pg_text_ok ?e1" using first by (simp add: signed_request_def)
  have act: "a_action ?a = ac_action r" "a_args ?a = ac_args r" by (simp_all add: action_of_row_def)
  have t1: "t_actions (db_tabs s1) = t_actions (db_tabs s)" by (rule service.run_actions[OF run1])
  obtain sA where mA: "mark_action_executed now i ?e1 s1 = (Inr (), sA)" "db_faults sA = []"
    "lookup_by ac_id i (t_actions (db_tabs sA)) = Some (executed_row now ?e1 r)"
    using mark_after_dispatch[OF row c1(3) t1 clean(2) email] by blast
  have "check_request w id1 raw1 s = (Inr (Inr (?a, ?e1)), s)" by (simp add: check_request_stages bindE_eq c1(1,2))
  then have "approve_action w (dispatch (service_registry w now)) now id1 raw1 s = (Inr (200, ApprovedBody i ''executed''), sA)"
    using run1 mA(1) c1(4) act by (simp add: approve_action_def bindE_eq run_and_record_def tryE_eq approval_executed_def)
  moreover have "approve_action w (dispatch (service_registry w now2)) now2 id2 raw2 sA =
      (Inr (409, ErrorBody ''action is not pending (status=executed)''), sA)"
    using second mA(2,3) by (simp add: approve_action_def bindE_eq check_request_def tryE_eq get_action_clean signed_request_def
        action_of_row_def executed_row_def approval_status_defs)
  ultimately show ?thesis by blast
qed

text \<open>C38: the pending check does not protect the handler: whenever two approve requests for one pending action, from one operator
  or two, carry valid signatures (one request sent twice will do), and its handler would succeed twice, there is an
  interleaving in which both run the handler to success before either records the outcome, and which ends with one
  request answered 200 and the other 500 \<open>not found\<close>, although its handler ran. Handled one after the other, the second
  request is refused with 409 and runs nothing.\<close>

theorem race_dispatches_twice:
  assumes first: "signed_request w s i id1 raw1 req1" and second: "signed_request w s i id2 raw2 req2"
    and row: "lookup_by ac_id i (t_actions (db_tabs s)) = Some r"
    and run1: "dispatch (service_registry w now) (ac_action r) (json_or_empty (ac_args r)) s = (Inr (), s1)"
    and run2: "dispatch (service_registry w now2) (ac_action r) (json_or_empty (ac_args r)) s1 = (Inr (), s2)"
    and clean: "db_faults s = []" "db_faults s1 = []" "db_faults s2 = []"
  shows "(\<exists>a \<sigma>. a_id a = i \<and>
      service_run w \<lparr> sv_db = s, sv_reqs = [] \<rparr> \<lparr> sv_db = s2, sv_reqs = [Ran a (rq_email req1) None, Ran a (rq_email req2) None] \<rparr> \<and>
      service_run w \<lparr> sv_db = s2, sv_reqs = [Ran a (rq_email req1) None, Ran a (rq_email req2) None] \<rparr> \<sigma> \<and>
      sv_reqs \<sigma> = [Answered (200, ApprovedBody i ''executed''), Answered (500, ErrorBody (err_text ErrNotFound))] \<and>
      lookup_by ac_id i (t_actions (db_tabs (sv_db \<sigma>))) = Some (executed_row now (rq_email req1) r)) \<and>
    (\<exists>sA. approve_action w (dispatch (service_registry w now)) now id1 raw1 s = (Inr (200, ApprovedBody i ''executed''), sA) \<and>
      approve_action w (dispatch (service_registry w now2)) now2 id2 raw2 sA =
        (Inr (409, ErrorBody ''action is not pending (status=executed)''), sA))"
  using race_interleaving[OF assms] second_refused[OF first second row run1 clean(1,2)] by blast

section \<open>One request sent twice\<close>

definition demo_ran2 :: db where
  "demo_ran2 = snd (perform demo_world 9 (AddGrantee ''bob'' []) demo_ran)"

lemma demo_run2:
  "dispatch (service_registry demo_world 9) ''add_grantee'' (add_grantee_args ''bob'' []) demo_ran = (Inr (), demo_ran2)"
  "db_faults demo_ran2 = []"
proof -
  have "list_all valid_utf8 (request_texts (AddGrantee ''bob'' []))" by code_simp
  from demo_perform[OF this, of 9] have "dispatch (service_registry demo_world 9) ''add_grantee'' (add_grantee_args ''bob'' [])
    = perform demo_world 9 (AddGrantee ''bob'' [])" by (simp add: action_names)
  moreover have "fst (perform demo_world 9 (AddGrantee ''bob'' []) demo_ran) = Inr ()" by code_simp
  ultimately show "dispatch (service_registry demo_world 9) ''add_grantee'' (add_grantee_args ''bob'' []) demo_ran = (Inr (), demo_ran2)"
    by (metis demo_ran2_def prod.collapse)
  show "db_faults demo_ran2 = []" by code_simp
qed

lemma demo_signed: "signed_request demo_world demo_ready 1 ''1'' demo_body demo_request"
  using demo_user_request demo_verify demo_request_args(5)[unfolded demo_request_args(2)]
  by (simp add: signed_request_def demo_parse_id demo_request_args demo_ready_simps authorized_def demo_payload_def)

lemma demo_dispatches:
  "dispatch (service_registry demo_world 9) (ac_action demo_row) (json_or_empty (ac_args demo_row)) demo_ready = (Inr (), demo_ran)"
  "dispatch (service_registry demo_world 9) (ac_action demo_row) (json_or_empty (ac_args demo_row)) demo_ran = (Inr (), demo_ran2)"
  using demo_run(1) demo_run2(1) demo_args(3) by (simp_all add: demo_ready_simps json_or_empty_def)

lemmas demo_twice = demo_signed demo_signed demo_ready_simps(2) demo_dispatches demo_ready_simps(1) demo_run(2) demo_run2(2)

theorem race_dispatches_twice_witness:
  "\<exists>a. service_run demo_world \<lparr> sv_db = demo_ready, sv_reqs = [] \<rparr> \<lparr> sv_db = demo_ran2, sv_reqs = [Ran a ''OP'' None, Ran a ''OP'' None] \<rparr>"
  using race_dispatches_twice[OF demo_twice] by (auto simp: demo_request_args(2))

lemma service_run_trans: "service_run w b c \<Longrightarrow> service_run w a b \<Longrightarrow> service_run w a c"
  by (induction rule: service_run.induct) (auto intro: service_run.step)

lemma demo_ready_schema: "schema demo_world (db_tabs demo_ready) (db_seqs demo_ready)"
  by code_simp

theorem one_approval_per_action_witness:
  "distinct (approved_ids [Answered (200, ApprovedBody 1 ''executed''), Answered (500, ErrorBody (err_text ErrNotFound))])"
proof -
  from race_interleaving[OF demo_twice] obtain a \<sigma> \<sigma>' where "service_run demo_world \<lparr> sv_db = demo_ready, sv_reqs = [] \<rparr> \<sigma>'"
    "service_run demo_world \<sigma>' \<sigma>"
    and reqs: "sv_reqs \<sigma> = [Answered (200, ApprovedBody 1 ''executed''), Answered (500, ErrorBody (err_text ErrNotFound))]" by blast
  then have "service_run demo_world \<lparr> sv_db = demo_ready, sv_reqs = [] \<rparr> \<sigma>" using service_run_trans by blast
  from one_approval_per_action[OF this demo_ready_schema] show ?thesis by (simp only: reqs)
qed

end
