(* ===== verification/GoUrl.thy ===== *)
theory GoUrl
  imports JsonFields
begin

text \<open>
  The parts of \<open>net/url\<close> the clients build their requests with: \<open>PathEscape\<close>, \<open>QueryEscape\<close>, their inverse and
  \<open>Values.Encode\<close>, and how a URL splits into path and query. What both escapings share is proved in the locale
  \<open>url_escaping\<close>: unescaping gives the text back, and an escaped text holds none of the bytes that structure a URL.
\<close>

section \<open>Escaping\<close>

definition upper_hex :: "nat \<Rightarrow> char" where
  "upper_hex n = ''0123456789ABCDEF'' ! n"

definition unreserved :: "char \<Rightarrow> bool" where
  "unreserved c \<longleftrightarrow> is_digit c \<or> 97 \<le> byte c \<and> byte c \<le> 122 \<or> 65 \<le> byte c \<and> byte c \<le> 90 \<or>
     c \<in> {CHR ''-'', CHR ''_'', CHR ''.'', CHR ''~''}"

text \<open>What \<open>shouldEscape\<close> lets through in a path segment and in a query component.\<close>

definition segment_char :: "char \<Rightarrow> bool" where
  "segment_char c \<longleftrightarrow> unreserved c \<or> c \<in> {CHR ''$'', CHR ''&'', CHR ''+'', CHR '':'', CHR ''='', CHR ''@''}"

definition percent :: "char \<Rightarrow> string" where
  "percent c = [CHR ''%'', upper_hex (byte c div 16), upper_hex (byte c mod 16)]"

text \<open>\<open>spc\<close>: a space becomes a plus sign.\<close>

definition escape_byte :: "bool \<Rightarrow> (char \<Rightarrow> bool) \<Rightarrow> char \<Rightarrow> string" where
  "escape_byte spc keep c = (if keep c then [c] else if spc \<and> c = CHR '' '' then ''+'' else percent c)"

definition url_escape :: "bool \<Rightarrow> (char \<Rightarrow> bool) \<Rightarrow> string \<Rightarrow> string" where
  "url_escape spc keep s = concat (map (escape_byte spc keep) s)"

definition path_escape :: "string \<Rightarrow> string" where
  "path_escape = url_escape False segment_char"

definition query_escape :: "string \<Rightarrow> string" where
  "query_escape = url_escape True unreserved"

fun url_unescape :: "bool \<Rightarrow> string \<Rightarrow> string option" where
  "url_unescape spc [] = Some []"
| "url_unescape spc (c # s) =
     (if c = CHR ''%'' then
        (case s of
           a # b # t \<Rightarrow>
             if is_hex a \<and> is_hex b
             then map_option ((#) (char_of (16 * hex_val a + hex_val b))) (url_unescape spc t) else None
         | _ \<Rightarrow> None)
      else map_option ((#) (if spc \<and> c = CHR ''+'' then CHR '' '' else c)) (url_unescape spc s))"

text \<open>\<open>Values.Encode\<close> of single-valued keys: sorted by key.\<close>

definition encode_pair :: "string \<times> string \<Rightarrow> string" where
  "encode_pair kv = query_escape (fst kv) @ ''='' @ query_escape (snd kv)"

definition values_encode :: "(string \<times> string) list \<Rightarrow> string" where
  "values_encode kvs = join_with ''&'' (map encode_pair (sort_key fst kvs))"

text \<open>The query of a request as the server reads it: \<open>Query().Get\<close>, the first value of the key. A pair with a
  semicolon or a malformed escape is dropped.\<close>

definition query_pair :: "string \<Rightarrow> (string \<times> string) option" where
  "query_pair p =
     (if p = [] \<or> CHR '';'' \<in> set p then None
      else let k = takeWhile (\<lambda>c. c \<noteq> CHR ''='') p; v = drop (length k + 1) p in
        (case (url_unescape True k, url_unescape True v) of (Some a, Some b) \<Rightarrow> Some (a, b) | _ \<Rightarrow> None))"

definition query_pairs :: "string \<Rightarrow> (string \<times> string) list" where
  "query_pairs q = List.map_filter query_pair (split_on CHR ''&'' q)"

definition query_get :: "string \<Rightarrow> string \<Rightarrow> string" where
  "query_get q k = (case map_of (query_pairs q) k of None \<Rightarrow> [] | Some v \<Rightarrow> v)"

text \<open>A URL without its server: the fragment is not sent, the first question mark starts the query.\<close>

definition cut_url :: "string \<Rightarrow> string \<times> string" where
  "cut_url u = (let s = takeWhile (\<lambda>c. c \<noteq> CHR ''#'') u; p = takeWhile (\<lambda>c. c \<noteq> CHR ''?'') s
     in (p, drop (length p + 1) s))"

section \<open>What escaping promises\<close>

lemma upper_hex_table: "list_all (\<lambda>n. hex_val (upper_hex n) = n \<and> is_hex (upper_hex n) \<and> unreserved (upper_hex n)) [0..<16]"
  by code_simp

lemma upper_hex_facts:
  assumes "n < 16"
  shows "hex_val (upper_hex n) = n" "is_hex (upper_hex n)" "unreserved (upper_hex n)"
  using upper_hex_table assms by (auto simp: list_all_iff)

lemma unescape_percent: "url_unescape spc (percent c @ t) = map_option ((#) c) (url_unescape spc t)"
proof -
  have "16 * (byte c div 16) + byte c mod 16 = byte c" by simp
  moreover have "byte c mod 16 < 16" by simp
  ultimately show ?thesis
    by (simp add: percent_def upper_hex_facts byte_div_16)
qed

lemma set_percent: "d \<in> set (percent c) \<Longrightarrow> unreserved d \<or> d = CHR ''%''"
  using upper_hex_facts(3)[of "byte c div 16"] upper_hex_facts(3)[of "byte c mod 16"]
  by (auto simp: percent_def byte_div_16 simp del: char.inject)

locale url_escaping =
  fixes spc :: bool and keep :: "char \<Rightarrow> bool"
  assumes keeps_no_percent: "\<not> keep CHR ''%''"
    and plus_free: "spc \<Longrightarrow> \<not> keep CHR ''+''"
begin

lemma unescape_byte: "url_unescape spc (escape_byte spc keep c @ t) = map_option ((#) c) (url_unescape spc t)"
proof (cases "keep c")
  case True
  then have "c \<noteq> CHR ''%''" "\<not> (spc \<and> c = CHR ''+'')" using keeps_no_percent plus_free by blast+
  with True show ?thesis by (auto simp: escape_byte_def simp del: char.inject)
next
  case False
  then show ?thesis by (simp add: escape_byte_def unescape_percent)
qed

lemma url_roundtrip: "url_unescape spc (url_escape spc keep s) = Some s"
  by (induction s) (simp_all add: url_escape_def unescape_byte)

lemma escaped_byte: "d \<in> set (escape_byte spc keep c) \<Longrightarrow> keep d \<or> unreserved d \<or> d = CHR ''%'' \<or> spc \<and> d = CHR ''+''"
  using set_percent[of d c] by (auto simp: escape_byte_def simp del: char.inject split: if_splits)

lemma escaped_chars: "d \<in> set (url_escape spc keep s) \<Longrightarrow> keep d \<or> unreserved d \<or> d = CHR ''%'' \<or> spc \<and> d = CHR ''+''"
  using escaped_byte by (auto simp: url_escape_def simp del: char.inject)

lemma url_escape_Nil: "url_escape spc keep s = [] \<longleftrightarrow> s = []"
  by (cases s) (simp_all add: url_escape_def escape_byte_def percent_def del: char.inject)

lemma url_escape_inj: "url_escape spc keep s = url_escape spc keep t \<Longrightarrow> s = t"
  by (metis url_roundtrip option.inject)

end

interpretation segment: url_escaping False segment_char
  by unfold_locales (simp_all add: segment_char_def unreserved_def is_digit_def)

interpretation component: url_escaping True unreserved
  by unfold_locales (simp_all add: unreserved_def is_digit_def)

lemma unescape_path [simp]: "url_unescape False (path_escape s) = Some s"
  unfolding path_escape_def by (rule segment.url_roundtrip)

lemma unescape_query [simp]: "url_unescape True (query_escape s) = Some s"
  unfolding query_escape_def by (rule component.url_roundtrip)

lemma path_escape_free:
  assumes "c \<in> {CHR ''/'', CHR ''?'', CHR ''#'', CHR '' '', CHR '';'', CHR '',''}"
  shows "c \<notin> set (path_escape s)"
  using segment.escaped_chars[of c s] assms
  by (auto simp: path_escape_def segment_char_def unreserved_def is_digit_def)

lemma query_escape_free:
  assumes "c \<in> {CHR ''/'', CHR ''?'', CHR ''#'', CHR '' '', CHR '';'', CHR ''&'', CHR ''=''}"
  shows "c \<notin> set (query_escape s)"
  using component.escaped_chars[of c s] assms
  by (auto simp: query_escape_def unreserved_def is_digit_def)

lemma path_escape_Nil [simp]: "path_escape s = [] \<longleftrightarrow> s = []"
  unfolding path_escape_def by (rule segment.url_escape_Nil)

subsection \<open>Encoding values and reading them back\<close>

lemma takeWhile_sep: "c \<notin> set k \<Longrightarrow> takeWhile (\<lambda>x. x \<noteq> c) (k @ c # v) = k"
  by (induction k) auto

lemma query_pair_encode: "query_pair (encode_pair kv) = Some kv"
proof -
  have "takeWhile (\<lambda>c. c \<noteq> CHR ''='') (encode_pair kv) = query_escape (fst kv)"
    using query_escape_free[of "CHR ''=''" "fst kv"] by (simp add: encode_pair_def takeWhile_sep)
  moreover have "encode_pair kv \<noteq> []" "CHR '';'' \<notin> set (encode_pair kv)"
    using query_escape_free[of "CHR '';''"] by (auto simp: encode_pair_def)
  moreover have "drop (length (query_escape (fst kv)) + 1) (encode_pair kv) = query_escape (snd kv)"
    by (simp add: encode_pair_def)
  ultimately show ?thesis by (simp add: query_pair_def)
qed

lemma encode_pair_free: "CHR ''&'' \<notin> set (encode_pair kv)"
  using query_escape_free[of "CHR ''&''"] by (auto simp: encode_pair_def)

lemma map_filter_encode: "List.map_filter query_pair (map encode_pair ps) = ps"
  by (induction ps) (simp_all add: map_filter_simps query_pair_encode)

lemma query_pairs_encode: "kvs \<noteq> [] \<Longrightarrow> query_pairs (values_encode kvs) = sort_key fst kvs"
proof -
  assume ne: "kvs \<noteq> []"
  let ?ps = "sort_key fst kvs"
  have "?ps \<noteq> []" using ne by (metis length_0_conv length_sort)
  then have "split_on CHR ''&'' (join_with ''&'' (map encode_pair ?ps)) = map encode_pair ?ps"
    by (intro split_on_join) (auto simp: encode_pair_free simp del: char.inject)
  then show ?thesis by (simp add: query_pairs_def values_encode_def map_filter_encode)
qed

lemma query_get_encode:
  assumes "kvs \<noteq> []" and "distinct (map fst kvs)"
  shows "query_get (values_encode kvs) k = (case map_of kvs k of None \<Rightarrow> [] | Some v \<Rightarrow> v)"
proof -
  have "distinct (map fst (sort_key fst kvs))"
    using assms(2) by (metis distinct_map distinct_sort set_sort)
  then have "map_of (sort_key fst kvs) = map_of kvs" using map_of_inject_set assms(2) by (metis set_sort)
  then show ?thesis by (simp add: query_get_def query_pairs_encode[OF assms(1)])
qed

lemma values_encode_free:
  assumes "c \<in> {CHR ''?'', CHR ''#''}"
  shows "c \<notin> set (values_encode kvs)"
proof -
  have "c \<notin> set (encode_pair kv)" for kv
    using query_escape_free[of c "fst kv"] query_escape_free[of c "snd kv"] assms by (auto simp: encode_pair_def)
  then have "c \<notin> set (concat (map (\<lambda>q. ''&'' @ q) (map encode_pair ps)))" for ps using assms by auto
  with \<open>\<And>kv. c \<notin> set (encode_pair kv)\<close> show ?thesis
    by (cases "sort_key fst kvs") (simp_all add: values_encode_def join_with_def)
qed

lemma cut_query:
  assumes "CHR ''?'' \<notin> set p" "CHR ''#'' \<notin> set p" "CHR ''#'' \<notin> set q"
  shows "cut_url (p @ CHR ''?'' # q) = (p, q)"
proof -
  have "CHR ''#'' \<notin> set (p @ CHR ''?'' # q)" using assms by simp
  then have a: "takeWhile (\<lambda>c. c \<noteq> CHR ''#'') (p @ CHR ''?'' # q) = p @ CHR ''?'' # q"
    by (auto simp: takeWhile_eq_all_conv)
  have b: "takeWhile (\<lambda>c. c \<noteq> CHR ''?'') (p @ CHR ''?'' # q) = p" by (rule takeWhile_sep[OF assms(1)])
  show ?thesis unfolding cut_url_def Let_def a b by simp
qed

section \<open>Paths\<close>

text \<open>A segment in a URL: free of the bytes that structure it.\<close>

definition segment_free :: "string \<Rightarrow> bool" where
  "segment_free s \<longleftrightarrow> CHR ''/'' \<notin> set s \<and> CHR ''?'' \<notin> set s \<and> CHR ''#'' \<notin> set s"

lemma path_escape_segment: "segment_free (path_escape s)"
  using path_escape_free by (auto simp: segment_free_def)

lemma cut_plain: "CHR ''?'' \<notin> set u \<Longrightarrow> CHR ''#'' \<notin> set u \<Longrightarrow> cut_url u = (u, [])"
proof -
  assume "CHR ''?'' \<notin> set u" and "CHR ''#'' \<notin> set u"
  then have a: "takeWhile (\<lambda>c. c \<noteq> CHR ''#'') u = u" and b: "takeWhile (\<lambda>c. c \<noteq> CHR ''?'') u = u"
    by (auto simp: takeWhile_eq_all_conv)
  show ?thesis unfolding cut_url_def Let_def a b by simp
qed

lemma path_segments:
  assumes "ss \<noteq> []" and "\<And>s. s \<in> set ss \<Longrightarrow> segment_free s"
  shows "cut_url (concat (map (\<lambda>s. CHR ''/'' # s) ss)) = (concat (map (\<lambda>s. CHR ''/'' # s) ss), [])"
    and "split_on CHR ''/'' (concat (map (\<lambda>s. CHR ''/'' # s) ss)) = [] # ss"
proof -
  show "cut_url (concat (map (\<lambda>s. CHR ''/'' # s) ss)) = (concat (map (\<lambda>s. CHR ''/'' # s) ss), [])"
    using assms(2) by (intro cut_plain) (auto simp: segment_free_def)
  have "(@) ''/'' = (#) CHR ''/''" by (rule ext) simp
  then have "join_with ''/'' ([] # ss) = concat (map (\<lambda>s. CHR ''/'' # s) ss)" by (simp add: join_with_def)
  moreover have "split_on CHR ''/'' (join_with ''/'' ([] # ss)) = [] # ss"
    by (rule split_on_join) (use assms in \<open>auto simp: segment_free_def\<close>)
  ultimately show "split_on CHR ''/'' (concat (map (\<lambda>s. CHR ''/'' # s) ss)) = [] # ss" by simp
qed

end
