(* ===== verification/ApprovalHttp.thy ===== *)
theory ApprovalHttp
  imports ApprovalServer GoUrl
begin

text \<open>
  \<open>internal/approvalserver/server.go\<close>: how a request reaches a handler. A transport takes a URL and, for a POST, the body;
  \<open>serve\<close> is the service behind a network that may fail before a request arrives or lose its reply. For a path that is not
  in its clean form the standard library's mux answers with a redirect; that reply is a parameter.
\<close>

datatype content = JsonContent body | TextContent string

type_synonym response = "nat \<times> content"
type_synonym transport = "string \<Rightarrow> string option \<Rightarrow> response dbm"

definition json_reply :: "reply dbm \<Rightarrow> response dbm" where
  "json_reply m = bindE m (\<lambda>(st, b). ret (st, JsonContent b))"

text \<open>A path the mux does not clean: no dot segments and no empty segment before the last.\<close>

definition clean_path :: "string \<Rightarrow> bool" where
  "clean_path p \<longleftrightarrow>
     (let segs = tl (split_on CHR ''/'' p) in
      list_all (\<lambda>s. s \<noteq> ''.'' \<and> s \<noteq> ''..'') segs \<and> list_all (\<lambda>s. s \<noteq> []) (butlast segs))"

text \<open>The patterns of \<open>Run\<close>; \<open>Some\<close> of a body is a POST. A wildcard matches one segment that is not empty.\<close>

definition approval_mux :: "world \<Rightarrow> exec \<Rightarrow> int \<Rightarrow> string list \<Rightarrow> string \<Rightarrow> string option \<Rightarrow> response dbm" where
  "approval_mux w run now segs query post =
     (let wrong = ret (405, TextContent (''Method Not Allowed'' @ [newline]));
          absent = ret (404, TextContent (''404 page not found'' @ [newline])) in
      case segs of
        [a] \<Rightarrow>
          if a = ''actions'' then
            (if post = None then json_reply (list_actions_handler (query_get query ''status'')) else wrong)
          else if a = ''healthz'' then (if post = None then ret (200, TextContent ''ok'') else wrong)
          else absent
      | [a, x] \<Rightarrow>
          if x = [] then absent
          else if a = ''actions'' then (if post = None then json_reply (get_action_handler x) else wrong)
          else if a = ''approval-users'' then (if post = None then json_reply (get_approval_user_handler w x) else wrong)
          else absent
      | [a, x, b] \<Rightarrow>
          if x \<noteq> [] \<and> a = ''actions'' \<and> b = ''approve'' then
            (case post of None \<Rightarrow> wrong | Some raw \<Rightarrow> json_reply (approve_action w run now x raw))
          else absent
      | _ \<Rightarrow> absent)"

record network =
  nt_server :: string
  nt_error :: "string \<Rightarrow> err option"    \<comment> \<open>the request does not arrive\<close>
  nt_lost :: "string \<Rightarrow> err option"     \<comment> \<open>the reply does not arrive\<close>
  nt_redirected :: "string \<Rightarrow> response"

definition serve :: "world \<Rightarrow> exec \<Rightarrow> int \<Rightarrow> network \<Rightarrow> transport" where
  "serve w run now nt url post =
     (let (path, query) = cut_url (drop (length (nt_server nt)) url) in
      case (nt_error nt url, those (map (url_unescape False) (tl (split_on CHR ''/'' path)))) of
        (Some e, _) \<Rightarrow> fail e
      | (None, None) \<Rightarrow> fail (ErrNew ''invalid URL escape'')
      | (None, Some segs) \<Rightarrow>
          bindE (if clean_path path then approval_mux w run now segs query post else ret (nt_redirected nt url))
            (\<lambda>r. case nt_lost nt url of Some e \<Rightarrow> fail e | None \<Rightarrow> ret r))"

section \<open>Requests that reach a handler\<close>

text \<open>An argument that is one clean path segment as it stands.\<close>

definition plain_segment :: "string \<Rightarrow> bool" where
  "plain_segment s \<longleftrightarrow> s \<noteq> [] \<and> list_all unreserved s \<and> s \<noteq> ''.'' \<and> s \<noteq> ''..''"

lemma plain_unescape: "list_all unreserved s \<Longrightarrow> url_unescape False s = Some s"
  by (induction s) (auto simp: unreserved_def is_digit_def)

lemma unreserved_free: "unreserved c \<Longrightarrow> c \<noteq> CHR ''/'' \<and> c \<noteq> CHR ''?'' \<and> c \<noteq> CHR ''#''"
  by (auto simp: unreserved_def is_digit_def)

lemma plain_free: "list_all unreserved s \<Longrightarrow> segment_free s"
  using unreserved_free by (auto simp: segment_free_def list_all_iff)

definition ok_segment :: "string \<Rightarrow> bool" where
  "ok_segment s \<longleftrightarrow> segment_free s \<and> s \<noteq> [] \<and> s \<noteq> ''.'' \<and> s \<noteq> ''..''"

lemma plain_ok: "plain_segment s \<Longrightarrow> ok_segment s"
  using plain_free by (simp add: plain_segment_def ok_segment_def)

text \<open>The three requests of the client arrive where they should.\<close>

lemma serve_segments:
  assumes "ss \<noteq> []" and "list_all ok_segment ss"
    and "those (map (url_unescape False) ss) = Some segs"
    and "url = nt_server nt @ concat (map (\<lambda>s. CHR ''/'' # s) ss)"
  shows "serve w run now nt url post =
    (case nt_error nt url of Some e \<Rightarrow> fail e
     | None \<Rightarrow> bindE (approval_mux w run now segs [] post) (\<lambda>r. case nt_lost nt url of Some e \<Rightarrow> fail e | None \<Rightarrow> ret r))"
proof -
  let ?p = "concat (map (\<lambda>s. CHR ''/'' # s) ss)"
  have f: "\<And>s. s \<in> set ss \<Longrightarrow> segment_free s" using assms(2) by (simp add: list_all_iff ok_segment_def)
  have "clean_path ?p" using path_segments(2)[OF assms(1) f] assms(2)
    by (auto simp: clean_path_def list_all_iff ok_segment_def dest: in_set_butlastD)
  then show ?thesis using path_segments[OF assms(1) f] assms(3)
    by (simp add: serve_def assms(4) split: option.split)
qed

end
