(* ===== verification/Signers.thy ===== *)
theory Signers
  imports Approval
begin

text \<open>
  \<open>cmd/approve/main.go\<close>, the ssh signer: which private key the operator's client signs with. The agent, the files and the
  parser of private keys are the record \<open>key_env\<close>; a signer is its public key, the comment an agent key carries, and its
  signing function.

  \<open>signer_is_wanted\<close>: when the server names a fingerprint, the key chosen is that one, from the agent or (as the
  \<open>.pub\<close> file beside it promises) from the key file, and nothing is signed with another.
\<close>

record signer =
  sg_key :: string
  sg_comment :: "string option"
  sg_sign :: "string \<Rightarrow> err + string"

datatype private_key = UsableKey signer | NeedsPassphrase | UnusableKey err

record key_env =
  ke_sock :: string                           \<comment> \<open>\<open>SSH_AUTH_SOCK\<close>\<close>
  ke_dial :: "err option"                     \<comment> \<open>\<open>net.Dial\<close> fails\<close>
  ke_signers :: "err + signer list"           \<comment> \<open>\<open>agent.Client.Signers\<close>\<close>
  ke_file :: "string \<Rightarrow> err + string"          \<comment> \<open>\<open>os.ReadFile\<close>\<close>
  ke_parse :: "string \<Rightarrow> private_key"          \<comment> \<open>\<open>ssh.ParsePrivateKey\<close>\<close>

text \<open>\<open>agentSigners\<close>: the keys, and the error that stands for their absence.\<close>

definition agent_signers :: "key_env \<Rightarrow> signer list \<times> err option" where
  "agent_signers env =
     (if ke_sock env = [] then ([], Some (ErrNew ''SSH_AUTH_SOCK is not set''))
      else (case ke_dial env of
          Some e \<Rightarrow> ([], Some (ErrWrap ''dial ssh-agent: '' e []))
        | None \<Rightarrow> (case ke_signers env of Inl e \<Rightarrow> ([], Some e) | Inr ss \<Rightarrow> (ss, None))))"

definition signer_fp :: "world \<Rightarrow> signer \<Rightarrow> string" where
  "signer_fp w s = w_key_fp w (sg_key s)"

definition agent_key_comment :: "signer \<Rightarrow> string" where
  "agent_key_comment s = (case sg_comment s of Some c \<Rightarrow> c | None \<Rightarrow> [])"

definition agent_key_by_fingerprint :: "world \<Rightarrow> signer list \<Rightarrow> string \<Rightarrow> signer option" where
  "agent_key_by_fingerprint w ss fp = find (\<lambda>s. signer_fp w s = fp) ss"

text \<open>The lines of \<open>formatAgentKeys\<close>; only trailing line breaks are trimmed.\<close>

definition format_agent_keys :: "world \<Rightarrow> signer list \<Rightarrow> string" where
  "format_agent_keys w ss =
     rev (dropWhile (\<lambda>c. c = newline)
       (rev (concat (map (\<lambda>s. ''  '' @ signer_fp w s @ ''  '' @ agent_key_comment s @ [newline]) ss))))"

fun select_loop :: "world \<Rightarrow> string \<Rightarrow> signer list \<Rightarrow> signer list \<Rightarrow> signer + signer list" where
  "select_loop w sel [] found = Inr found"
| "select_loop w sel (s # ss) found =
     (if signer_fp w s = sel then Inl s
      else if agent_key_comment s \<noteq> [] \<and> contains (agent_key_comment s) sel then select_loop w sel ss (found @ [s])
      else select_loop w sel ss found)"

definition select_agent_key :: "world \<Rightarrow> signer list \<Rightarrow> string \<Rightarrow> err + signer" where
  "select_agent_key w ss sel =
     (case select_loop w sel ss [] of
        Inl s \<Rightarrow> Inr s
      | Inr [] \<Rightarrow> Inl (ErrNew (''no ssh-agent key matches '' @ go_quote sel @ ''; available keys:'' @ newline # format_agent_keys w ss))
      | Inr [s] \<Rightarrow> Inr s
      | Inr found \<Rightarrow> Inl (ErrNew (go_quote sel @ '' matches '' @ nat_text (length found) @
          '' ssh-agent keys; use a full SHA256 fingerprint:'' @ newline # format_agent_keys w found)))"

definition pub_file_fingerprint :: "world \<Rightarrow> key_env \<Rightarrow> string \<Rightarrow> string" where
  "pub_file_fingerprint w env path =
     (case ke_file env (path @ ''.pub'') of
        Inl e \<Rightarrow> []
      | Inr b \<Rightarrow> (case w_parse_key w b of None \<Rightarrow> [] | Some k \<Rightarrow> w_key_fp w k))"

definition load_key_file :: "key_env \<Rightarrow> string \<Rightarrow> err + signer" where
  "load_key_file env path =
     (case ke_file env path of
        Inl e \<Rightarrow> Inl (ErrWrap (''read key '' @ path @ '': '') e [])
      | Inr raw \<Rightarrow> (case ke_parse env raw of
          UsableKey s \<Rightarrow> Inr s
        | NeedsPassphrase \<Rightarrow> Inl (ErrNew (''key '' @ path @ '' is passphrase-protected; add it to ssh-agent (ssh-add '' @ path @ '') and retry''))
        | UnusableKey e \<Rightarrow> Inl (ErrWrap (''parse key '' @ path @ '': '') e [])))"

text \<open>\<open>%w\<close> of the agent's error, which is absent when the agent answered with no keys.\<close>

definition no_agent_keys :: "string \<Rightarrow> err option \<Rightarrow> err" where
  "no_agent_keys sel agent_err =
     (let msg = ''--agent-key '' @ go_quote sel @ '' given but ssh-agent has no usable keys (is SSH_AUTH_SOCK set?): '' in
      case agent_err of Some e \<Rightarrow> ErrWrap msg e [] | None \<Rightarrow> ErrNew (msg @ ''%!w(<nil>)''))"

definition not_held :: "world \<Rightarrow> signer list \<Rightarrow> string \<Rightarrow> string \<Rightarrow> err" where
  "not_held w ss want path =
     ErrNew (''your authorized key for this email ('' @ want @ '') is not in ssh-agent or at '' @ path @
       (if ss = [] then [] else newline # ''ssh-agent holds:'' @ newline # format_agent_keys w ss))"

definition get_signer :: "world \<Rightarrow> key_env \<Rightarrow> string \<Rightarrow> string \<Rightarrow> string \<Rightarrow> err + signer" where
  "get_signer w env path sel want =
     (let (ss, agent_err) = agent_signers env in
      if sel \<noteq> [] then (if ss = [] then Inl (no_agent_keys sel agent_err) else select_agent_key w ss sel)
      else if want \<noteq> [] then
        (case agent_key_by_fingerprint w ss want of
           Some s \<Rightarrow> Inr s
         | None \<Rightarrow> if pub_file_fingerprint w env path = want then load_key_file env path else Inl (not_held w ss want path))
      else
        (let fp = pub_file_fingerprint w env path in
         case (if fp = [] then None else agent_key_by_fingerprint w ss fp) of
           Some s \<Rightarrow> Inr s
         | None \<Rightarrow>
            (case ss of
               [s] \<Rightarrow> Inr s
             | _ \<Rightarrow>
                (case load_key_file env path of
                   Inr s \<Rightarrow> Inr s
                 | Inl e \<Rightarrow>
                     if length ss > 1
                     then Inl (ErrNew (''ssh-agent holds '' @ nat_text (length ss) @ '' keys and none could be auto-selected (no '' @
                       path @ ''.pub to match); pass --agent-key with a fingerprint or comment:'' @ newline # format_agent_keys w ss))
                     else Inl e))))"

section \<open>Which key is used\<close>

lemma agent_key_found: "agent_key_by_fingerprint w ss fp = Some s \<Longrightarrow> s \<in> set ss \<and> signer_fp w s = fp"
  unfolding agent_key_by_fingerprint_def by (auto simp: find_Some_iff)

lemma select_loop_found:
  "select_loop w sel ss found = Inl s \<Longrightarrow> s \<in> set ss \<and> signer_fp w s = sel"
  "select_loop w sel ss found = Inr ms \<Longrightarrow>
     ms = found @ filter (\<lambda>s. agent_key_comment s \<noteq> [] \<and> contains (agent_key_comment s) sel) ss"
  by (induction w sel ss found rule: select_loop.induct) (auto split: if_splits)

text \<open>An override picks a key by fingerprint, or the only one whose comment matches.\<close>

lemma select_agent_key_ok:
  assumes "select_agent_key w ss sel = Inr s"
  shows "s \<in> set ss \<and> (signer_fp w s = sel \<or> filter (\<lambda>s. agent_key_comment s \<noteq> [] \<and> contains (agent_key_comment s) sel) ss = [s])"
proof (cases "select_loop w sel ss []")
  case (Inl x)
  then show ?thesis using assms select_loop_found(1)[OF Inl] by (simp add: select_agent_key_def)
next
  case (Inr ms)
  with assms have "ms = [s]" by (auto simp: select_agent_key_def split: list.splits)
  then have one: "filter (\<lambda>s. agent_key_comment s \<noteq> [] \<and> contains (agent_key_comment s) sel) ss = [s]"
    using select_loop_found(2)[OF Inr] by simp
  then have "s \<in> set ss" by (metis filter_is_subset list.set_intros(1) subsetD)
  with one show ?thesis by simp
qed

text \<open>When the server has named the operator's key, no other key is used, unless the \<open>.pub\<close> file lies about its neighbour.\<close>

lemma signer_is_wanted:
  assumes "get_signer w env path [] want = Inr s" and "want \<noteq> []"
  shows "s \<in> set (fst (agent_signers env)) \<and> signer_fp w s = want \<or>
    pub_file_fingerprint w env path = want \<and> load_key_file env path = Inr s"
  using assms agent_key_found
  by (auto simp: get_signer_def split: prod.splits option.splits if_splits)

lemma get_signer_agent:
  assumes "agent_signers env = (ss, ae)" "agent_key_by_fingerprint w ss want = Some s" "want \<noteq> []"
  shows "get_signer w env path [] want = Inr s"
  using assms by (simp add: get_signer_def)

end
