(* ===== verification/JsonIndent.thy ===== *)
theory JsonIndent
  imports JsonFields
begin

text \<open>
  \<open>json.Indent\<close> over the scanner, as the operator's client prints arguments with it. Indenting only moves white space:
  the indented text compacts to what the original compacts to, so what is shown is what is signed.
\<close>

definition indent_newline :: "string \<Rightarrow> string \<Rightarrow> nat \<Rightarrow> string" where
  "indent_newline pre ind d = CHR 0x0A # pre @ concat (replicate d ind)"

definition closes :: "char \<Rightarrow> bool" where
  "closes c \<longleftrightarrow> c = CHR ''}'' \<or> c = CHR '']''"

definition opens :: "char \<Rightarrow> bool" where
  "opens c \<longleftrightarrow> c = CHR ''{'' \<or> c = CHR ''[''"

text \<open>
  The loop of \<open>appendIndent\<close>: \<open>need\<close> is \<open>needIndent\<close>, set by an opening brace until the next significant byte; \<open>d\<close> is the
  depth. Bytes inside a string are copied (\<open>scanContinue\<close>).
\<close>

fun indent_from :: "string \<Rightarrow> string \<Rightarrow> bool \<Rightarrow> nat \<Rightarrow> jstate \<Rightarrow> string \<Rightarrow> string option" where
  "indent_from pre ind need d st [] = (if at_end st then Some [] else None)"
| "indent_from pre ind need d st (c # s) =
     (case jstep st c of None \<Rightarrow> None
      | Some (skip, st') \<Rightarrow>
          if skip then indent_from pre ind need d st' s
          else let quiet = in_str (fst st);
            first = need \<and> (quiet \<or> \<not> closes c);
            d1 = (if first then d + 1 else d);
            lead = (if first then indent_newline pre ind d1 else []) in
          if quiet then map_option (\<lambda>r. lead @ c # r) (indent_from pre ind False d1 st' s)
          else if opens c then map_option (\<lambda>r. lead @ c # r) (indent_from pre ind True d1 st' s)
          else if c = CHR '','' then map_option (\<lambda>r. lead @ c # indent_newline pre ind d1 @ r) (indent_from pre ind False d1 st' s)
          else if c = CHR '':'' then map_option (\<lambda>r. lead @ c # CHR '' '' # r) (indent_from pre ind False d1 st' s)
          else if closes c then
            (if need then map_option (\<lambda>r. c # r) (indent_from pre ind False d st' s)
             else map_option (\<lambda>r. indent_newline pre ind (d - 1) @ c # r) (indent_from pre ind False (d - 1) st' s))
          else map_option (\<lambda>r. lead @ c # r) (indent_from pre ind False d1 st' s))"

definition json_indent :: "string \<Rightarrow> string \<Rightarrow> string \<Rightarrow> string option" where
  "json_indent pre ind s = indent_from pre ind False 0 json_start s"

section \<open>White space between tokens\<close>

definition steady :: "jstate \<Rightarrow> bool" where
  "steady st \<longleftrightarrow> (\<forall>c. is_jspace c \<longrightarrow> jstep st c = Some (True, st))"

lemma steady_simps [simp]:
  "steady (JVal, fs)" "steady (JValOrEmpty, fs)" "steady (JKeyOrEmpty, fs)" "steady (JKey, fs)" "steady (JEnd, f # fs)"
  by (simp_all add: steady_def begin_value_def begin_string_def)

lemma compact_spaces: "list_all is_jspace u \<Longrightarrow> steady b \<Longrightarrow> compact_from False 0 b (u @ t) = compact_from False 0 b t"
proof (induction u)
  case (Cons c u)
  then have "jstep b c = Some (True, b)" by (simp add: steady_def)
  with Cons show ?case by (simp add: option.map_ident)
qed simp

lemma space_newline:
  assumes "list_all is_jspace pre" and "list_all is_jspace ind"
  shows "list_all is_jspace (indent_newline pre ind d)"
proof -
  have "list_all is_jspace (concat (replicate d ind))" using assms(2) by (induction d) simp_all
  moreover have "is_jspace CHR 0x0A" by (simp add: is_jspace_def)
  ultimately show ?thesis using assms(1) by (simp add: indent_newline_def)
qed

text \<open>The literals the scanner waits for consist of letters, so a literal is never mistaken for structure.\<close>

definition structural :: "char \<Rightarrow> bool" where
  "structural c \<longleftrightarrow> c = CHR '','' \<or> c = CHR '':'' \<or> opens c \<or> closes c"

definition lit_ok :: "jst \<Rightarrow> bool" where
  "lit_ok q \<longleftrightarrow> (case q of JLit r \<Rightarrow> list_all (\<lambda>c. \<not> structural c) r | _ \<Rightarrow> True)"

lemma end_value_lit: "end_value fs c = Some (skip, q, gs) \<Longrightarrow> lit_ok q"
  by (cases fs) (auto simp: lit_ok_def pop_frame_def split: if_splits frame.splits)

lemma begin_value_lit: "begin_value fs c = Some (skip, q, gs) \<Longrightarrow> lit_ok q"
  by (auto simp: begin_value_def push_frame_def lit_ok_def structural_def opens_def closes_def split: if_splits)

lemma jstep_lit: "jstep (p, fs) c = Some (skip, q, gs) \<Longrightarrow> lit_ok p \<Longrightarrow> lit_ok q"
  by (cases "((p, fs), c)" rule: jstep.cases)
    (auto simp: begin_string_def step_0_def step_esign_def lit_ok_def pop_frame_def
      dest: end_value_lit[unfolded lit_ok_def] begin_value_lit[unfolded lit_ok_def] split: if_splits list.splits)

text \<open>What a structural byte leads to.\<close>

lemma end_structure:
  assumes "end_value fs c = Some (False, st')"
  shows "c = CHR '','' \<or> c = CHR '':'' \<Longrightarrow> steady st'" and "\<not> opens c"
  using assms by (cases fs; auto simp: pop_frame_def opens_def split: if_splits frame.splits)+

lemma begin_structure:
  assumes "begin_value fs c = Some (False, st')"
  shows "opens c \<Longrightarrow> fst st' \<in> {JKeyOrEmpty, JValOrEmpty}" and "c \<noteq> CHR '',''" and "c \<noteq> CHR '':''" and "\<not> closes c"
proof -
  have o: "begin_value fs CHR ''{'' = push_frame JKeyOrEmpty FKey fs" "begin_value fs CHR ''['' = push_frame JValOrEmpty FArr fs"
    by (simp_all add: begin_value_def is_jspace_def)
  show "fst st' \<in> {JKeyOrEmpty, JValOrEmpty}" if "opens c"
    using that unfolding opens_def by (elim disjE) (use assms o in \<open>auto simp: push_frame_def split: if_splits\<close>)
  have n: "begin_value fs CHR '','' = None" "begin_value fs CHR '':'' = None" "begin_value fs CHR ''}'' = None"
    "begin_value fs CHR '']'' = None"
    by (simp_all add: begin_value_def is_jspace_def is_digit_def)
  show "c \<noteq> CHR '',''" "c \<noteq> CHR '':''" using assms n by auto
  show "\<not> closes c" using assms n unfolding closes_def by auto
qed

text \<open>The states a number or a finished value can be in, before a structural byte.\<close>

lemma number_structure:
  assumes "jstep (q, fs) c = Some (False, st')" and "structural c" and "q \<in> {J1, J0, JDot0, JE0, JEnd}"
  shows "end_value fs c = Some (False, st')"
proof -
  have "\<not> is_digit c" "c \<noteq> CHR ''.''" "c \<noteq> CHR ''e''" "c \<noteq> CHR ''E''"
    using assms(2) unfolding structural_def opens_def closes_def by (elim disjE; simp add: is_digit_def)+
  with assms(1,3) show ?thesis by (auto simp: step_0_def simp del: end_value.simps)
qed

lemma structure_states:
  assumes "jstep (q, fs) c = Some (False, st')" and "structural c" and "\<not> in_str q" and "lit_ok q"
  shows "q \<in> {J1, J0, JDot0, JE0, JEnd} \<or> q = JVal \<or> q = JValOrEmpty \<or> q = JKeyOrEmpty"
proof -
  have c: "\<not> is_digit c" "c \<noteq> CHR ''-''" "c \<noteq> CHR ''+''" "c \<noteq> CHR 0x22" "\<not> is_jspace c"
    using assms(2) unfolding structural_def opens_def closes_def
    by (elim disjE; simp add: is_digit_def is_jspace_def)+
  show ?thesis
  proof (cases q)
    case (JLit r)
    then show ?thesis using assms(1,2,4) by (cases r) (auto simp: lit_ok_def split: if_splits)
  next
    case JNeg
    then show ?thesis using assms(1) c by (auto simp: is_digit_def split: if_splits)
  qed (use assms(1,3) c in \<open>auto simp: begin_string_def step_esign_def split: if_splits\<close>)
qed

lemma number_space:
  assumes "q \<in> {J1, J0, JDot0, JE0, JEnd}" and "is_jspace c"
  shows "jstep (q, f # fs) c = Some (True, JEnd, f # fs)"
  using assms(1) space_facts[OF assms(2)] assms(2) by (auto simp: step_0_def)

lemma structure_step:
  assumes step: "jstep (q, fs) c = Some (False, st')" and q: "\<not> in_str q" "lit_ok q"
  shows "c = CHR '','' \<or> c = CHR '':'' \<Longrightarrow> steady st'"
    and "opens c \<Longrightarrow> fst st' \<in> {JKeyOrEmpty, JValOrEmpty}"
    and "closes c \<Longrightarrow> \<exists>b. steady b \<and> (\<forall>d. is_jspace d \<longrightarrow> jstep (q, fs) d = Some (True, b)) \<and> jstep b c = Some (False, st')"
proof -
  assume c: "c = CHR '','' \<or> c = CHR '':''"
  then have s: "structural c" by (auto simp: structural_def)
  from structure_states[OF step s q] show "steady st'"
  proof (elim disjE)
    assume "q \<in> {J1, J0, JDot0, JE0, JEnd}"
    from number_structure[OF step s this] show ?thesis using c by (rule end_structure)
  next
    assume "q = JVal" then show ?thesis using step c begin_structure(2,3)[of fs c st'] by auto
  next
    assume "q = JValOrEmpty"
    then show ?thesis using step c begin_structure(2,3)[of fs c st'] by (auto split: if_splits)
  next
    assume "q = JKeyOrEmpty"
    then show ?thesis using step c by (auto simp: begin_string_def split: if_splits)
  qed
next
  assume c: "opens c"
  then have s: "structural c" by (auto simp: structural_def)
  from structure_states[OF step s q] show "fst st' \<in> {JKeyOrEmpty, JValOrEmpty}"
  proof (elim disjE)
    assume "q \<in> {J1, J0, JDot0, JE0, JEnd}"
    from number_structure[OF step s this] show ?thesis using c end_structure(2) by blast
  next
    assume "q = JVal" then show ?thesis using step c begin_structure(1)[of fs c st'] by simp
  next
    assume "q = JValOrEmpty"
    moreover have "c \<noteq> CHR '']''" "\<not> is_jspace c" using c by (auto simp: opens_def is_jspace_def)
    ultimately show ?thesis using step c begin_structure(1)[of fs c st'] by simp
  next
    assume "q = JKeyOrEmpty"
    then show ?thesis using step c by (auto simp: begin_string_def opens_def split: if_splits)
  qed
next
  assume c: "closes c"
  then have s: "structural c" by (auto simp: structural_def)
  let ?goal = "\<exists>b. steady b \<and> (\<forall>d. is_jspace d \<longrightarrow> jstep (q, fs) d = Some (True, b)) \<and> jstep b c = Some (False, st')"
  have stay: ?goal if "steady (q, fs)" using step that by (auto simp: steady_def)
  from structure_states[OF step s q] show ?goal
  proof (elim disjE)
    assume num: "q \<in> {J1, J0, JDot0, JE0, JEnd}"
    from number_structure[OF step s this] have e: "end_value fs c = Some (False, st')" .
    then obtain f gs where fs: "fs = f # gs" by (cases fs) (auto split: if_splits)
    have "jstep (JEnd, fs) c = Some (False, st')" using e by simp
    then show ?thesis using number_space[OF num] unfolding fs by (intro exI[of _ "(JEnd, f # gs)"]) simp
  qed (use stay in simp_all)
qed

text \<open>Reading the indented text, the scanner is where it is in the original, up to the lag of an open number.\<close>

lemma lags_same: "lags a b \<Longrightarrow> \<not> num_open (fst a) \<Longrightarrow> fst a \<noteq> JTop \<Longrightarrow> a = b"
  by (auto simp: lags_def num_open_def)

lemma compact_indent:
  assumes "list_all is_jspace pre" and "list_all is_jspace ind"
  shows "indent_from pre ind need d a s = Some t \<Longrightarrow> lags a b \<Longrightarrow> lit_ok (fst b) \<Longrightarrow>
    (need \<Longrightarrow> fst a \<in> {JKeyOrEmpty, JValOrEmpty}) \<Longrightarrow> compact_from False 0 b t = compact_from False 0 a s"
proof (induction s arbitrary: need d a b t)
  case Nil
  then show ?case using lags_at_end[of a b] by (auto split: if_splits)
next
  case (Cons c s)
  obtain skip a' where st: "jstep a c = Some (skip, a')" using Cons.prems(1) by (auto split: option.splits)
  show ?case
  proof (cases skip)
    case True
    have "lags a' b" using lags_skip[of a c a' b] st True Cons.prems(2) by simp
    moreover have "need \<Longrightarrow> fst a' \<in> {JKeyOrEmpty, JValOrEmpty}"
      using jstep_skip[of a c a'] st True Cons.prems(4) by (auto simp: num_open_def)
    moreover have "indent_from pre ind need d a' s = Some t" using Cons.prems(1) st True by simp
    ultimately have "compact_from False 0 b t = compact_from False 0 a' s" using Cons.IH Cons.prems(3) by blast
    then show ?thesis using st True by (simp add: option.map_ident)
  next
    case False
    with st have st: "jstep a c = Some (False, a')" by simp
    have sb: "jstep b c = Some (False, a')" by (rule lags_keep[OF st Cons.prems(2)])
    have lit: "lit_ok (fst a')" using jstep_lit[of "fst b" "snd b" c False "fst a'" "snd a'"] sb Cons.prems(3) by simp
    have rest: "compact_from False 0 a' (u @ r) = compact_from False 0 a' s"
      if "indent_from pre ind n k a' s = Some r" "n \<Longrightarrow> fst a' \<in> {JKeyOrEmpty, JValOrEmpty}"
        "u = [] \<or> list_all is_jspace u \<and> steady a'" for n k r u
      using Cons.IH[OF that(1) _ lit that(2)] that(3) compact_spaces[of u a' r] by (auto simp: lags_def)
    have quiet: "in_str (fst a) \<longleftrightarrow> in_str (fst b)" using Cons.prems(2) by (auto simp: lags_def num_open_def in_str_def)
    have sp: "list_all is_jspace (indent_newline pre ind k)" for k using assms by (rule space_newline)
    have lead: "compact_from False 0 b (u @ c # x) = map_option ((#) c) (compact_from False 0 a' x)"
      if "u = [] \<or> need \<and> list_all is_jspace u" for u x
      using that
    proof
      assume "u = []" then show ?thesis using sb by simp
    next
      assume u: "need \<and> list_all is_jspace u"
      then have a: "fst a = JKeyOrEmpty \<or> fst a = JValOrEmpty" using Cons.prems(4) by simp
      then have "a = b" using lags_same[OF Cons.prems(2)] by (auto simp: num_open_def)
      moreover have "steady a" using a by (cases a) auto
      ultimately show ?thesis using u sb by (simp add: compact_spaces)
    qed
    obtain q fs where b: "b = (q, fs)" by (cases b)
    have sq: "jstep (q, fs) c = Some (False, a')" using sb b by simp
    have goal: "compact_from False 0 a (c # s) = map_option ((#) c) (compact_from False 0 a' s)" using st by simp
    consider (inside) "in_str (fst a)" | (brace) "\<not> in_str (fst a)" "opens c" | (sep) "\<not> in_str (fst a)" "c = CHR '','' \<or> c = CHR '':''"
      | (close) "\<not> in_str (fst a)" "closes c" | (plain) "\<not> in_str (fst a)" "\<not> structural c"
      unfolding structural_def by blast
    then show ?thesis
    proof cases
      case inside
      then obtain r k u where "t = u @ c # r" "u = [] \<or> need \<and> list_all is_jspace u" "indent_from pre ind False k a' s = Some r"
        using Cons.prems(1) st sp by (auto simp: Let_def split: if_splits)
      then show ?thesis using lead[of u r] rest[of False k r "[]"] goal by simp
    next
      case brace
      then have "\<not> closes c" "c \<noteq> CHR '',''" "c \<noteq> CHR '':''" by (auto simp: opens_def closes_def)
      then obtain r k u where "t = u @ c # r" "u = [] \<or> need \<and> list_all is_jspace u" "indent_from pre ind True k a' s = Some r"
        using Cons.prems(1) st sp brace by (auto simp: Let_def split: if_splits)
      moreover have "fst a' \<in> {JKeyOrEmpty, JValOrEmpty}"
        using structure_step(2)[OF sq] brace quiet Cons.prems(3) by (simp add: b)
      ultimately show ?thesis using lead[of u r] rest[of True k r "[]"] goal by simp
    next
      case sep
      then have "\<not> opens c" "\<not> closes c" by (auto simp: opens_def closes_def)
      then have "\<exists>r k u v. t = u @ c # v @ r \<and> (u = [] \<or> need \<and> list_all is_jspace u) \<and> list_all is_jspace v \<and>
          indent_from pre ind False k a' s = Some r"
      proof (cases "c = CHR '',''")
        case True
        with sep obtain r k u where "t = u @ c # indent_newline pre ind k @ r" "u = [] \<or> need \<and> list_all is_jspace u"
            "indent_from pre ind False k a' s = Some r"
          using Cons.prems(1) st sp \<open>\<not> opens c\<close> \<open>\<not> closes c\<close> by (auto simp: Let_def split: if_splits)
        with sp show ?thesis by blast
      next
        case False
        with sep obtain r k u where "t = u @ c # [CHR '' ''] @ r" "u = [] \<or> need \<and> list_all is_jspace u"
            "indent_from pre ind False k a' s = Some r"
          using Cons.prems(1) st sp \<open>\<not> opens c\<close> \<open>\<not> closes c\<close> by (auto simp: Let_def split: if_splits)
        moreover have "list_all is_jspace [CHR '' '']" by (simp add: is_jspace_def)
        ultimately show ?thesis by blast
      qed
      then obtain r k u v where "t = u @ c # v @ r" "u = [] \<or> need \<and> list_all is_jspace u" "list_all is_jspace v"
          "indent_from pre ind False k a' s = Some r" by blast
      moreover have "steady a'" using structure_step(1)[OF sq] sep quiet Cons.prems(3) by (simp add: b)
      ultimately show ?thesis using lead[of u "v @ r"] rest[of False k r v] goal by simp
    next
      case close
      then have "\<not> opens c" "c \<noteq> CHR '',''" "c \<noteq> CHR '':''" by (auto simp: opens_def closes_def)
      then have "\<exists>r k u. t = u @ c # r \<and> list_all is_jspace u \<and> indent_from pre ind False k a' s = Some r"
      proof (cases need)
        case True
        with close show ?thesis using Cons.prems(1) st \<open>\<not> opens c\<close> \<open>c \<noteq> CHR '',''\<close> \<open>c \<noteq> CHR '':''\<close>
          by (intro exI[of _ "tl t"] exI[of _ d] exI[of _ "[]"]) (auto simp: Let_def)
      next
        case False
        with close show ?thesis using Cons.prems(1) st sp \<open>\<not> opens c\<close> \<open>c \<noteq> CHR '',''\<close> \<open>c \<noteq> CHR '':''\<close>
          by (auto simp: Let_def)
      qed
      then obtain r k u where t: "t = u @ c # r" and u: "list_all is_jspace u" and r: "indent_from pre ind False k a' s = Some r"
        by blast
      obtain b' where b': "steady b'" "\<forall>d. is_jspace d \<longrightarrow> jstep b d = Some (True, b')" "jstep b' c = Some (False, a')"
        using structure_step(3)[OF sq] close quiet Cons.prems(3) by (auto simp: b)
      have "compact_from False 0 b (u @ c # r) = map_option ((#) c) (compact_from False 0 a' r)"
        using u b' sb compact_spaces[of "tl u" b' "c # r"] by (cases u) (auto simp: option.map_ident)
      then show ?thesis using t rest[OF r, of "[]"] goal by simp
    next
      case plain
      then have "\<not> opens c" "\<not> closes c" "c \<noteq> CHR '',''" "c \<noteq> CHR '':''" by (auto simp: structural_def)
      then obtain r k u where "t = u @ c # r" "u = [] \<or> need \<and> list_all is_jspace u" "indent_from pre ind False k a' s = Some r"
        using Cons.prems(1) st sp plain by (auto simp: Let_def split: if_splits)
      then show ?thesis using lead[of u r] rest[of False k r "[]"] goal by simp
    qed
  qed
qed


text \<open>What is shown is what is signed, up to white space.\<close>

lemma json_indent_compact:
  assumes "json_indent pre ind s = Some t" and "list_all is_jspace pre" and "list_all is_jspace ind"
  shows "json_compact t = json_compact s"
  using compact_indent[OF assms(2,3), of False 0 json_start s t json_start] assms(1)
  by (simp add: json_indent_def json_compact_def lags_def json_start_def lit_ok_def)

lemma indent_total: "indent_from pre ind need d a s = None \<longleftrightarrow> compact_from False 0 a s = None"
  by (induction s arbitrary: need d a) (auto simp: Let_def split: option.splits)

lemma json_indent_valid: "json_indent pre ind s = None \<longleftrightarrow> \<not> json_valid s"
  by (simp add: json_indent_def json_valid_def json_compact_def indent_total)

end
