(* ===== verification/ApproveCli.thy ===== *)
theory ApproveCli
  imports ApprovalHttp Signers JsonIndent
begin

text \<open>
  \<open>cmd/approve/main.go\<close>: the operator's client. A command runs over a transport and returns what it prints, or its error.
  Strings in a reply went through the JSON encoder and decoder (\<open>over_wire\<close>); raw JSON fields arrive as the encoder wrote
  them (\<open>wire_action\<close>). A printed time is kept as the instant; alignment of columns is left out.

  Main results: \<open>cli_runs_what_it_shows\<close> (a confirmed approval executes exactly the action that was printed, with
  arguments equal up to white space), \<open>cli_approves\<close> (with the registered key at hand the command goes through, when the
  stored arguments need no HTML escaping) and \<open>cli_refuses_escaped\<close> (when they do, it never can).
\<close>

section \<open>Replies\<close>

definition over_wire :: "string \<Rightarrow> string" where
  "over_wire s = unquote_json (quote_json s)"

lemma over_wire_valid [simp]: "valid_utf8 s \<Longrightarrow> over_wire s = s"
  by (simp add: over_wire_def unquote_quote)

definition received_action :: "approval_action \<Rightarrow> approval_action" where
  "received_action a = a\<lparr>a_action := over_wire (a_action a), a_status := over_wire (a_status a),
     a_requested_by := over_wire (a_requested_by a), a_approved_by := over_wire (a_approved_by a),
     a_last_error := over_wire (a_last_error a)\<rparr>"

definition status_line :: "nat \<Rightarrow> string" where
  "status_line st = nat_text st @ '' '' @
     (if st = 200 then ''OK'' else if st = 400 then ''Bad Request'' else if st = 403 then ''Forbidden''
      else if st = 404 then ''Not Found'' else if st = 405 then ''Method Not Allowed'' else if st = 409 then ''Conflict''
      else if st = 500 then ''Internal Server Error'' else [])"

text \<open>\<open>doJSON\<close>. The service sends no other JSON with a status from 300 up than an error.\<close>

definition error_reply :: "nat \<Rightarrow> content \<Rightarrow> err" where
  "error_reply st c = ErrNew (status_line st @ '': '' @
     (case c of
        JsonContent (ErrorBody m) \<Rightarrow> if over_wire m = [] then marshal_fields [(''error'', m)] @ [newline] else over_wire m
      | JsonContent _ \<Rightarrow> []
      | TextContent t \<Rightarrow> t))"

definition do_json :: "(body \<Rightarrow> err + 'a) \<Rightarrow> response \<Rightarrow> err + 'a" where
  "do_json decode r =
     (if fst r \<ge> 300 then Inl (error_reply (fst r) (snd r))
      else (case snd r of
          TextContent t \<Rightarrow> Inl (ErrNew ''invalid JSON'')
        | JsonContent NoBody \<Rightarrow> Inl (ErrNew ''unexpected end of JSON input'')
        | JsonContent b \<Rightarrow> decode b))"

definition lift_result :: "err + 'a \<Rightarrow> 'a dbm" where
  "lift_result r = (case r of Inl e \<Rightarrow> fail e | Inr x \<Rightarrow> ret x)"

definition get_json :: "transport \<Rightarrow> (body \<Rightarrow> err + 'a) \<Rightarrow> string \<Rightarrow> 'a dbm" where
  "get_json t decode url = bindE (t url None) (\<lambda>r. lift_result (do_json decode r))"

definition post_json :: "transport \<Rightarrow> (body \<Rightarrow> err + 'a) \<Rightarrow> string \<Rightarrow> string \<Rightarrow> 'a dbm" where
  "post_json t decode url raw = bindE (t url (Some raw)) (\<lambda>r. lift_result (do_json decode r))"

text \<open>Decoding into the client's structs: members they do not have are ignored, missing ones stay zero.\<close>

definition zero_action :: approval_action where
  "zero_action = \<lparr> a_id = 0, a_action = [], a_args = [], a_metadata = [], a_status = [], a_requested_by = [], a_approved_by = [],
     a_created = zero_time, a_approved_at = None, a_executed_at = None, a_last_error = [] \<rparr>"

definition decode_view :: "body \<Rightarrow> err + approval_action \<times> string" where
  "decode_view b = Inr (case b of ActionBody a b64 \<Rightarrow> (received_action a, over_wire b64) | _ \<Rightarrow> (zero_action, []))"

definition decode_list :: "body \<Rightarrow> err + approval_action list" where
  "decode_list b = Inr (case b of ActionsBody as \<Rightarrow> map received_action as | _ \<Rightarrow> [])"

definition decode_who :: "body \<Rightarrow> err + string" where
  "decode_who b = Inr (case b of UserBody e fp k \<Rightarrow> over_wire fp | _ \<Rightarrow> [])"

definition decode_approved :: "body \<Rightarrow> err + int \<times> string" where
  "decode_approved b = Inr (case b of ApprovedBody i st \<Rightarrow> (i, over_wire st) | _ \<Rightarrow> (0, []))"

section \<open>Printing\<close>

datatype printed = Text string | Instant gotime

definition dash_if_empty :: "string \<Rightarrow> string" where
  "dash_if_empty s = (if s = [] then ''-'' else s)"

definition cli_truncate :: "string \<Rightarrow> nat \<Rightarrow> string" where
  "cli_truncate s n = (if length s \<le> n then s else take (n - 1) s @ ellipsis)"

definition indent_json :: "string \<Rightarrow> string" where
  "indent_json raw =
     (if raw = [] then ''{}''
      else (case json_indent (replicate 14 CHR '' '') ''  '' raw of None \<Rightarrow> raw | Some t \<Rightarrow> t))"

definition print_action :: "approval_action \<Rightarrow> (string \<times> printed) list" where
  "print_action v =
     [(''ID'', Text (int_text (a_id v))), (''Action'', Text (a_action v)), (''Status'', Text (a_status v)),
      (''Requested by'', Text (dash_if_empty (a_requested_by v))), (''Created'', Instant (a_created v)),
      (''Args'', Text (indent_json (a_args v))), (''Metadata'', Text (indent_json (a_metadata v)))]"

definition confirmed :: "string \<Rightarrow> bool" where
  "confirmed answer \<longleftrightarrow> answer = ''y'' \<or> answer = ''Y'' \<or> answer = ''yes''"

section \<open>Commands\<close>

record cli_flags =
  cf_server :: string
  cf_email :: string
  cf_key :: string
  cf_agent_key :: string

definition env_default :: "string \<Rightarrow> string \<Rightarrow> string" where
  "env_default v def = (if v = [] then def else v)"

definition list_row :: "approval_action \<Rightarrow> printed list" where
  "list_row a = [Text (int_text (a_id a)), Text (a_action a), Text (a_status a), Text (dash_if_empty (a_requested_by a)),
     Instant (a_created a), Text (cli_truncate (a_args a) 60)]"

definition cli_list :: "transport \<Rightarrow> cli_flags \<Rightarrow> string \<Rightarrow> printed list list dbm" where
  "cli_list t g status =
     bindE (get_json t decode_list (cf_server g @ ''/actions?status='' @ status)) (\<lambda>as.
       if as = [] then ret [[Text (''no actions with status '' @ go_quote status)]]
       else ret (map Text [''ID'', ''ACTION'', ''STATUS'', ''REQUESTED_BY'', ''CREATED'', ''ARGS''] # map list_row as))"

definition cli_show :: "transport \<Rightarrow> cli_flags \<Rightarrow> string \<Rightarrow> (string \<times> printed) list dbm" where
  "cli_show t g arg =
     bindE (get_json t decode_view (cf_server g @ ''/actions/'' @ arg)) (\<lambda>v. ret (print_action (fst v)))"

text \<open>What is signed: the payload built from the view, if the server names the same one.\<close>

definition agreed_payload :: "approval_action \<Rightarrow> string \<Rightarrow> err + string" where
  "agreed_payload v b64 =
     (let local = signing_payload (a_id v) (a_action v) (a_args v) in
      case base64_decode b64 of
        None \<Rightarrow> Inl (ErrWrap ''decode server payload: '' (ErrNew ''illegal base64 data'') [])
      | Some payload \<Rightarrow>
          if local = payload then Inr local
          else Inl (ErrNew ''signing payload mismatch between client and server; refusing to sign''))"

definition sign_with :: "signer \<Rightarrow> string \<Rightarrow> err + string" where
  "sign_with sg payload = (case sg_sign sg payload of Inl e \<Rightarrow> Inl (ErrWrap ''sign: '' e []) | Inr sig \<Rightarrow> Inr sig)"

definition submit :: "world \<Rightarrow> key_env \<Rightarrow> transport \<Rightarrow> cli_flags \<Rightarrow> string \<Rightarrow> string \<Rightarrow> string dbm" where
  "submit w env t g arg payload =
     tryE (get_json t decode_who (cf_server g @ ''/approval-users/'' @ path_escape (cf_email g))) (\<lambda>who.
       let want = (case who of Inl e \<Rightarrow> [] | Inr fp \<Rightarrow> fp) in
       bindE (lift_result (get_signer w env (cf_key g) (cf_agent_key g) want)) (\<lambda>sg.
       bindE (lift_result (sign_with sg payload)) (\<lambda>sig.
       bindE (post_json t decode_approved (cf_server g @ ''/actions/'' @ arg @ ''/approve'')
           (marshal_fields [(''email'', cf_email g), (''signature'', marshal_signature sig)])) (\<lambda>(i, st).
         ret (''ok: action '' @ int_text i @ '' '' @ st)))))"

definition cli_approve ::
  "world \<Rightarrow> key_env \<Rightarrow> transport \<Rightarrow> cli_flags \<Rightarrow> bool \<Rightarrow> string \<Rightarrow> string \<Rightarrow> ((string \<times> printed) list \<times> string) dbm" where
  "cli_approve w env t g yes answer arg =
     (if cf_email g = [] then fail (ErrNew ''--email is required (must match an authorized approval user)'')
      else bindE (get_json t decode_view (cf_server g @ ''/actions/'' @ arg)) (\<lambda>(v, b64).
        if a_status v \<noteq> approval_pending
        then fail (ErrNew (''action '' @ int_text (a_id v) @ '' is not pending (status='' @ a_status v @ '')''))
        else bindE (lift_result (agreed_payload v b64)) (\<lambda>payload.
          if \<not> yes \<and> \<not> confirmed answer then fail (ErrNew ''aborted'')
          else bindE (submit w env t g arg payload) (\<lambda>line. ret (print_action v, line)))))"

section \<open>What the client receives\<close>

lemma b64_ascii: "n < 64 \<Longrightarrow> byte (b64_char n) < 128"
proof -
  assume "n < 64"
  moreover have "length b64_alphabet = 64" by (simp add: b64_alphabet_def)
  moreover have "list_all (\<lambda>c. byte c < 128) b64_alphabet" by (simp add: b64_alphabet_def)
  ultimately show ?thesis by (simp add: b64_char_def list_all_length)
qed

lemma base64_ascii: "is_ascii (base64_encode x)"
proof -
  note b = b64_ascii
  show ?thesis
  proof (induction x rule: base64_encode.induct)
    case (2 x)
    then show ?case using quad_less(1,2)[of 0 0 x] b by (simp add: quad_def is_ascii_def numeral_2_eq_2)
  next
    case (3 x y)
    then show ?case using quad_less(1,2)[of "byte y" 0 x] quad_less(3)[of "byte y" 0] b
      by (simp add: quad_def is_ascii_def numeral_3_eq_3)
  qed (simp_all add: quad_def is_ascii_def quad_bytes b)
qed

lemma base64_valid [simp]: "valid_utf8 (base64_encode x)"
  by (rule valid_utf8_ascii[OF base64_ascii])

lemma lift_result_Inr: "lift_result r s = (Inr x, s') \<longleftrightarrow> r = Inr x \<and> s' = s"
  by (auto simp: lift_result_def split: sum.split)

lemma do_json_Inr: "do_json decode r = Inr x \<Longrightarrow> \<exists>b. snd r = JsonContent b \<and> fst r < 300 \<and> decode b = Inr x \<and> b \<noteq> NoBody"
  by (auto simp: do_json_def split: if_splits content.splits body.splits)

text \<open>The two requests that name the action.\<close>

abbreviation action_url :: "network \<Rightarrow> string \<Rightarrow> string" where
  "action_url nt arg \<equiv> nt_server nt @ ''/actions/'' @ arg"

abbreviation approve_url :: "network \<Rightarrow> string \<Rightarrow> string" where
  "approve_url nt arg \<equiv> nt_server nt @ ''/actions/'' @ arg @ ''/approve''"

lemma fixed_unescape [simp]:
  "url_unescape False ''actions'' = Some ''actions''" "url_unescape False ''approve'' = Some ''approve''"
  "url_unescape False ''approval-users'' = Some ''approval-users''"
  by code_simp+

lemma fixed_ok [simp]: "ok_segment ''actions''" "ok_segment ''approve''" "ok_segment ''approval-users''"
  by (simp_all add: ok_segment_def segment_free_def)

declare url_unescape.simps [simp del]

lemma plain_self: "plain_segment s \<Longrightarrow> url_unescape False s = Some s"
  using plain_unescape by (simp add: plain_segment_def)

lemma plain_nonempty: "plain_segment s \<Longrightarrow> s \<noteq> []"
  by (simp add: plain_segment_def)

definition behind :: "network \<Rightarrow> string \<Rightarrow> response dbm \<Rightarrow> response dbm" where
  "behind nt url m = (case nt_error nt url of Some e \<Rightarrow> fail e
     | None \<Rightarrow> bindE m (\<lambda>r. case nt_lost nt url of Some e \<Rightarrow> fail e | None \<Rightarrow> ret r))"

lemma serve_action:
  assumes "plain_segment arg"
  shows "serve w run now nt (action_url nt arg) None = behind nt (action_url nt arg) (json_reply (get_action_handler arg))"
proof -
  have "serve w run now nt (action_url nt arg) None =
      behind nt (action_url nt arg) (approval_mux w run now [''actions'', arg] [] None)"
    unfolding behind_def
    by (rule serve_segments[where ss = "[''actions'', arg]"])
      (simp_all add: plain_ok[OF assms] plain_self[OF assms])
  then show ?thesis using plain_nonempty[OF assms] by (simp add: approval_mux_def)
qed

lemma serve_approve:
  assumes "plain_segment arg"
  shows "serve w run now nt (approve_url nt arg) (Some raw) =
    behind nt (approve_url nt arg) (json_reply (approve_action w run now arg raw))"
proof -
  have "serve w run now nt (approve_url nt arg) (Some raw) =
      behind nt (approve_url nt arg) (approval_mux w run now [''actions'', arg, ''approve''] [] (Some raw))"
    unfolding behind_def
    by (rule serve_segments[where ss = "[''actions'', arg, ''approve'']"])
      (simp_all add: plain_ok[OF assms] plain_self[OF assms])
  then show ?thesis using plain_nonempty[OF assms] by (simp add: approval_mux_def)
qed

lemma serve_user:
  assumes "email \<noteq> []" and "email \<noteq> ''.''" and "email \<noteq> ''..''"
  shows "serve w run now nt (nt_server nt @ ''/approval-users/'' @ path_escape email) None =
    behind nt (nt_server nt @ ''/approval-users/'' @ path_escape email) (json_reply (get_approval_user_handler w email))"
proof -
  have dots: "path_escape ''.'' = ''.''" "path_escape ''..'' = ''..''" by code_simp+
  have "path_escape email \<noteq> ''.''" "path_escape email \<noteq> ''..''"
    using assms dots by (metis option.inject unescape_path)+
  then have "ok_segment (path_escape email)" using assms(1) path_escape_segment by (simp add: ok_segment_def)
  then have "serve w run now nt (nt_server nt @ ''/approval-users/'' @ path_escape email) None =
      behind nt (nt_server nt @ ''/approval-users/'' @ path_escape email) (approval_mux w run now [''approval-users'', email] [] None)"
    unfolding behind_def
    by (intro serve_segments[where ss = "[''approval-users'', path_escape email]"])
      simp_all
  then show ?thesis using assms by (simp add: approval_mux_def)
qed

lemma behind_Inr:
  "behind nt url m s = (Inr r, s') \<Longrightarrow> m s = (Inr r, s')"
  by (auto simp: behind_def bindE_Inr_iff split: option.splits)

lemma json_reply_Inr: "json_reply m s = (Inr (st, c), s') \<longleftrightarrow> (\<exists>b. c = JsonContent b \<and> m s = (Inr (st, b), s'))"
  by (auto simp: json_reply_def bindE_Inr_iff)

lemma action_reply:
  assumes "get_action_handler raw s = (Inr (st, b), s')" and "st < 300"
  obtains i x where "parse_id raw = Some i" "get_action i s = (Inr x, s')" "(st, b) = (200, case wire_action x of None \<Rightarrow> NoBody
      | Some a \<Rightarrow> ActionBody a (base64_encode (signing_payload (a_id x) (a_action x) (json_or_empty (a_args x)))))"
proof (cases "parse_id raw")
  case None
  with assms show thesis by (simp add: get_action_handler_def write_error_def)
next
  case (Some i)
  obtain r s1 where g: "get_action i s = (r, s1)" by fastforce
  show thesis
  proof (cases r)
    case (Inl e)
    with assms Some g show thesis by (simp add: get_action_handler_def write_error_def tryE_eq split: if_splits)
  next
    case (Inr x)
    with assms Some g show thesis by (intro that[OF Some, of x]) (simp_all add: get_action_handler_def tryE_eq)
  qed
qed

text \<open>A view the client accepts is that of the stored row.\<close>

lemma get_view:
  assumes "get_json (serve w run now nt) decode_view (action_url nt arg) s = (Inr (v, b64), s')" and "plain_segment arg"
  shows "\<exists>i r a. parse_id arg = Some i \<and> lookup_by ac_id i (t_actions (db_tabs s)) = Some r \<and> db_tabs s' = db_tabs s \<and>
    wire_action (action_of_row r) = Some a \<and> v = received_action a \<and>
    b64 = base64_encode (signing_payload i (ac_action r) (ac_args r))"
proof -
  from assms(1) obtain st c where rep: "serve w run now nt (action_url nt arg) None s = (Inr (st, c), s')"
    and dec: "do_json decode_view (st, c) = Inr (v, b64)"
    by (auto simp: get_json_def bindE_Inr_iff lift_result_Inr)
  obtain b where b: "c = JsonContent b" "st < 300" "decode_view b = Inr (v, b64)" "b \<noteq> NoBody" using do_json_Inr[OF dec] by auto
  from rep b(1) have h: "get_action_handler arg s = (Inr (st, b), s')"
    unfolding serve_action[OF assms(2)] by (auto dest!: behind_Inr simp: json_reply_Inr)
  then obtain i x where i: "parse_id arg = Some i" and x: "get_action i s = (Inr x, s')"
    and reply: "(st, b) = (200, case wire_action x of None \<Rightarrow> NoBody
      | Some a \<Rightarrow> ActionBody a (base64_encode (signing_payload (a_id x) (a_action x) (json_or_empty (a_args x)))))"
    using b(2) by (rule action_reply)
  obtain r where r: "lookup_by ac_id i (t_actions (db_tabs s)) = Some r" "x = action_of_row r" "db_tabs s' = db_tabs s"
    using get_action_Inr[OF x] by blast
  obtain a where a: "wire_action x = Some a" using reply b(4) by (auto split: option.splits)
  have "ac_id r = i" using lookup_by_Some[OF r(1)] by simp
  then show ?thesis using i r a reply b(3) by (auto simp: decode_view_def action_of_row_def)
qed

section \<open>What is shown is what runs\<close>

lemma indent_json_canonical: "canonical_args (indent_json x) = canonical_args x"
proof (cases "x = []")
  case True
  then show ?thesis by (simp add: indent_json_def canonical_args_def json_or_empty_def split: option.split)
next
  case False
  show ?thesis
  proof (cases "json_indent (replicate 14 CHR '' '') ''  '' x")
    case None
    then show ?thesis using False by (simp add: indent_json_def)
  next
    case (Some t)
    have "list_all is_jspace (replicate 14 CHR '' '')" "list_all is_jspace ''  ''"
      by (simp_all add: is_jspace_def list_all_iff)
    from json_indent_compact[OF Some this] have c: "json_compact t = json_compact x" .
    have "json_compact x \<noteq> None" using json_indent_valid[of "replicate 14 CHR '' ''" "''  ''" x] Some by (simp add: json_valid_def)
    then have "t \<noteq> []" using c json_compact_Nil by auto
    then show ?thesis using False Some c \<open>json_compact x \<noteq> None\<close>
      by (auto simp: indent_json_def canonical_args_def json_or_empty_def)
  qed
qed

lemma agreed_payload_Inr:
  assumes "agreed_payload v (base64_encode p) = Inr q"
  shows "q = p" and "signing_payload (a_id v) (a_action v) (a_args v) = p"
  using assms by (auto simp: agreed_payload_def Let_def split: if_splits)

lemma wire_action_simps:
  "wire_action x = Some a \<Longrightarrow> a_id a = a_id x \<and> a_action a = a_action x \<and> a_status a = a_status x"
  by (auto simp: wire_action_def split: option.splits)

text \<open>A GET changes nothing, wherever it lands.\<close>

lemma ev_json_reply: "evolves (same view) m \<Longrightarrow> evolves (same view) (json_reply m)"
  unfolding json_reply_def by (intro same.ev_bindE same.ev_case_prod same.ev_ret)

lemma get_handlers_same:
  "evolves (same view) (list_actions_handler q)" "evolves (same view) (get_action_handler x)"
  "evolves (same view) (get_approval_user_handler w x)"
  unfolding list_actions_handler_def get_action_handler_def get_approval_user_handler_def Let_def write_error_def
    list_actions_by_status_def get_action_def get_approval_user_def
  by (intro same.ev_if same.ev_case_option same.ev_tryE same.ev_case_sum same.ev_ret same.ev_wrapE same.ev_fail same.ev_pg_row
      same.ev_pg_read)+

lemma get_same: "evolves (same view) (serve w run now nt url None)"
proof -
  have "evolves (same view) (approval_mux w run now segs q None)" for segs q
    unfolding approval_mux_def Let_def option.case
    by (intro same.ev_case_list same.ev_if same.ev_ret ev_json_reply get_handlers_same)
  then show ?thesis unfolding serve_def Let_def
    by (intro same.ev_case_prod same.ev_case_option same.ev_fail same.ev_bindE same.ev_if same.ev_ret) simp_all
qed

lemma get_json_same: "evolves (same view) (get_json (serve w run now nt) decode url)"
  unfolding get_json_def lift_result_def
  by (intro same.ev_bindE get_same same.ev_case_sum same.ev_fail same.ev_ret)

text \<open>Submitting: whatever key signed, a positive reply is the service's.\<close>

lemma submit_ok:
  assumes "submit w env (serve w' run now nt) g arg payload s = (Inr line, s')" and "cf_server g = nt_server nt" and "plain_segment arg"
  obtains raw sig st b s1 where "raw = marshal_fields [(''email'', cf_email g), (''signature'', base64_encode sig)]"
    "db_tabs s1 = db_tabs s" "approve_action w' run now arg raw s1 = (Inr (st, b), s')" "st < 300"
    "\<And>i x. b = ApprovedBody i x \<Longrightarrow> line = ''ok: action '' @ int_text i @ '' '' @ over_wire x"
proof -
  let ?who = "get_json (serve w' run now nt) decode_who (cf_server g @ ''/approval-users/'' @ path_escape (cf_email g))"
  obtain who s1 where who: "?who s = (who, s1)" by fastforce
  have t: "db_tabs s1 = db_tabs s"
    using evolves_same[OF get_json_same[where view = "\<lambda>t. t"], of w' run now nt decode_who _ s] who by (metis snd_conv)
  from assms(1) who obtain sg sig i x where
    "post_json (serve w' run now nt) decode_approved (cf_server g @ ''/actions/'' @ arg @ ''/approve'')
           (marshal_fields [(''email'', cf_email g), (''signature'', marshal_signature sig)]) s1 = (Inr (i, x), s')"
    and line: "line = ''ok: action '' @ int_text i @ '' '' @ x"
    unfolding submit_def by (auto simp: tryE_eq Let_def bindE_Inr_iff lift_result_Inr)
  then obtain st c where rep: "serve w' run now nt (approve_url nt arg) (Some (marshal_fields [(''email'', cf_email g),
      (''signature'', base64_encode sig)])) s1 = (Inr (st, c), s')" and dec: "do_json decode_approved (st, c) = Inr (i, x)"
    by (auto simp: post_json_def bindE_Inr_iff lift_result_Inr assms(2) marshal_signature_def)
  obtain b where b: "c = JsonContent b" "st < 300" "decode_approved b = Inr (i, x)" using do_json_Inr[OF dec] by auto
  have "approve_action w' run now arg (marshal_fields [(''email'', cf_email g), (''signature'', base64_encode sig)]) s1 = (Inr (st, b), s')"
    using rep b(1) unfolding serve_approve[OF assms(3)] by (auto dest!: behind_Inr simp: json_reply_Inr)
  moreover have "line = ''ok: action '' @ int_text j @ '' '' @ over_wire y" if "b = ApprovedBody j y" for j y
    using line b(3) that by (simp add: decode_approved_def)
  ultimately show thesis using that[OF refl t _ b(2)] by blast
qed

lemma approve_positive: "approve_action w run now raw_id raw_body s = (Inr (st, b), s') \<Longrightarrow> st < 300 \<Longrightarrow> st = 200"
proof (rule approve_cases[of w raw_id raw_body s run now])
  fix st' b' s1
  assume "approve_action w run now raw_id raw_body s = (Inr (st', b'), s1)" "400 \<le> st'"
    "approve_action w run now raw_id raw_body s = (Inr (st, b), s')" "st < 300"
  then show ?thesis by simp
next
  fix a email s1
  assume "approve_action w run now raw_id raw_body s = run_and_record run now a email s1"
    "approve_action w run now raw_id raw_body s = (Inr (st, b), s')" "st < 300"
  then show ?thesis using run_and_record_status[of run now a email s1 st b s'] by simp
qed

text \<open>A registered action has an ASCII name, which the wire leaves alone.\<close>

lemma dispatched_name: "dispatch (service_registry w now) action args s = (Inr (), s') \<Longrightarrow> valid_utf8 action"
proof -
  assume "dispatch (service_registry w now) action args s = (Inr (), s')"
  then obtain h where "service_registry w now action = Some h" by (auto simp: dispatch_def split: option.splits)
  from service_registry_cases[OF this] have "is_ascii action" by (elim disjE conjE) (simp_all add: action_names is_ascii_def)
  then show ?thesis by (rule valid_utf8_ascii)
qed

lemma cli_approve_Inr:
  assumes "cli_approve w env t g yes answer arg s = (Inr (shown, line), s')"
  obtains v b64 s1 p where "get_json t decode_view (cf_server g @ ''/actions/'' @ arg) s = (Inr (v, b64), s1)"
    "a_status v = approval_pending" "agreed_payload v b64 = Inr p" "yes \<or> confirmed answer"
    "submit w env t g arg p s1 = (Inr line, s')" "shown = print_action v"
  using assms by (auto simp: cli_approve_def bindE_Inr_iff lift_result_Inr split: if_splits)

text \<open>C6: the operator approves what was shown: when the client reports success, the argument names an action that was pending,
  the operator confirmed (or passed \<open>--yes\<close>), the action that was printed is the one whose handler ran, with arguments
  equal to the stored ones up to white space, and it is recorded as executed by that operator. This holds for whatever the
  agent, the key files and the network do.\<close>

theorem cli_runs_what_it_shows:
  assumes "cli_approve w env (serve w (dispatch (service_registry w now)) now nt) g yes answer arg s = (Inr (shown, line), s')"
    and srv: "cf_server g = nt_server nt" and arg: "plain_segment arg" and email: "valid_utf8 (cf_email g)"
  shows "\<exists>i r before after x. parse_id arg = Some i \<and> lookup_by ac_id i (t_actions (db_tabs s)) = Some r \<and>
    ac_status r = ''pending'' \<and> (yes \<or> confirmed answer) \<and>
    (''Action'', Text (ac_action r)) \<in> set shown \<and> (''Args'', Text x) \<in> set shown \<and> canonical_args x = canonical_args (ac_args r) \<and>
    db_tabs before = db_tabs s \<and>
    dispatch (service_registry w now) (ac_action r) (json_or_empty (ac_args r)) before = (Inr (), after) \<and>
    db_tabs s' = (db_tabs after)\<lparr>t_actions := update_where (pending_row i) (executed_row now (cf_email g)) (t_actions (db_tabs s))\<rparr> \<and>
    line = ''ok: action '' @ int_text i @ '' executed''"
proof (rule cli_approve_Inr[OF assms(1)])
  fix v b64 s1 p
  assume view: "get_json (serve w (dispatch (service_registry w now)) now nt) decode_view (cf_server g @ ''/actions/'' @ arg) s = (Inr (v, b64), s1)"
    and agree: "agreed_payload v b64 = Inr p" and conf: "yes \<or> confirmed answer"
    and sub: "submit w env (serve w (dispatch (service_registry w now)) now nt) g arg p s1 = (Inr line, s')"
    and shown: "shown = print_action v"
  obtain i r a where i: "parse_id arg = Some i" and r: "lookup_by ac_id i (t_actions (db_tabs s)) = Some r"
    and s1: "db_tabs s1 = db_tabs s" and a: "wire_action (action_of_row r) = Some a" and v: "v = received_action a"
    and b64: "b64 = base64_encode (signing_payload i (ac_action r) (ac_args r))"
    using get_view[OF view[unfolded srv] arg] by blast
  note same = agreed_payload_Inr[OF agree[unfolded b64]]
  obtain raw sig st b s2 where raw: "raw = marshal_fields [(''email'', cf_email g), (''signature'', base64_encode sig)]"
    and s2: "db_tabs s2 = db_tabs s1"
    and run: "approve_action w (dispatch (service_registry w now)) now arg raw s2 = (Inr (st, b), s')" and st: "st < 300"
    and line: "\<And>i x. b = ApprovedBody i x \<Longrightarrow> line = ''ok: action '' @ int_text i @ '' '' @ over_wire x"
    by (rule submit_ok[OF sub srv arg]) blast
  have ok: "approve_action w (dispatch (service_registry w now)) now arg raw s2 = (Inr (200, b), s')"
    using approve_positive[OF run st] run by simp
  have dec: "decode_approve raw = Some \<lparr> rq_email = cf_email g, rq_signature = base64_encode sig \<rparr>"
    unfolding raw by (rule decode_approve_marshal[OF email base64_valid])
  show ?thesis
  proof (rule service.approve_ok[OF ok])
    fix j who sg x before after
    assume f: "parse_id arg = Some j" "decode_approve raw = Some \<lparr> rq_email = who, rq_signature = sg \<rparr>"
      "authorized w (db_tabs s2) j who sg" "lookup_by ac_id j (t_actions (db_tabs s2)) = Some x"
      "b = ApprovedBody j approval_executed" "db_tabs before = db_tabs s2"
      "dispatch (service_registry w now) (ac_action x) (json_or_empty (ac_args x)) before = (Inr (), after)"
      "db_tabs s' = (db_tabs after)\<lparr>t_actions := update_where (pending_row j) (executed_row now who) (t_actions (db_tabs s2))\<rparr>"
    have j: "j = i" and x: "x = r" and who: "who = cf_email g" using f(1,2,4) i r dec s1 s2 by auto
    have name: "over_wire (ac_action r) = ac_action r" using dispatched_name[OF f(7)] x by simp
    have wire: "a_id v = i" "a_action v = ac_action r"
      using wire_action_simps[OF a] lookup_by_Some[OF r] name by (auto simp: v received_action_def action_of_row_def)
    then have "canonical_args (a_args v) = canonical_args (ac_args r)"
      using same(2) by (simp add: signing_payload_def)
    then have args: "canonical_args (indent_json (a_args v)) = canonical_args (ac_args r)" by (simp add: indent_json_canonical)
    have "ac_status r = ''pending''" using f(3,4) x by (auto simp: authorized_def split: option.splits)
    moreover have "over_wire approval_executed = ''executed''" by code_simp
    moreover have "(''Action'', Text (ac_action r)) \<in> set shown" "(''Args'', Text (indent_json (a_args v))) \<in> set shown"
      using wire by (simp_all add: shown print_action_def)
    ultimately show ?thesis
      using i r conf args f j x who s1 s2 line[OF f(5)] by auto
  qed
qed

section \<open>When the client gets through\<close>

lemma behind_clear:
  assumes "nt_error nt url = None" and "nt_lost nt url = None" and "m s = (Inr r, s')"
  shows "behind nt url m s = (Inr r, s')"
  using assms by (simp add: behind_def bindE_eq)

text \<open>What the client decodes of a pending row, and the payload it builds from it.\<close>

definition served_payload :: "action_row \<Rightarrow> string" where
  "served_payload r = signing_payload (ac_id r) (ac_action r) (ac_args r)"

lemma get_view_clean:
  assumes "plain_segment arg" and "parse_id arg = Some i" and "lookup_by ac_id i (t_actions (db_tabs s)) = Some r"
    and "db_faults s = []" and "wire_action (action_of_row r) = Some a"
    and "nt_error nt (action_url nt arg) = None" and "nt_lost nt (action_url nt arg) = None"
  shows "get_action_handler arg s = (Inr (200, ActionBody a (base64_encode (served_payload r))), s)"
    and "get_json (serve w run now nt) decode_view (action_url nt arg) s =
      (Inr (received_action a, base64_encode (served_payload r)), s)"
proof -
  have i: "ac_id r = i" using lookup_by_Some[OF assms(3)] by simp
  show h: "get_action_handler arg s = (Inr (200, ActionBody a (base64_encode (served_payload r))), s)"
    using assms(2-5) by (simp add: get_action_handler_def tryE_eq get_action_clean action_of_row_def i served_payload_def)
  then have "json_reply (get_action_handler arg) s = (Inr (200, JsonContent (ActionBody a (base64_encode (served_payload r)))), s)"
    by (simp add: json_reply_Inr)
  then have "serve w run now nt (action_url nt arg) None s = (Inr (200, JsonContent (ActionBody a (base64_encode (served_payload r)))), s)"
    unfolding serve_action[OF assms(1)] by (rule behind_clear[OF assms(6,7)])
  then show "get_json (serve w run now nt) decode_view (action_url nt arg) s =
      (Inr (received_action a, base64_encode (served_payload r)), s)"
    by (simp add: get_json_def bindE_eq do_json_def decode_view_def lift_result_def)
qed

lemma cli_approve_pending:
  assumes "get_json t decode_view (cf_server g @ ''/actions/'' @ arg) s = (Inr (v, b64), s)" and "a_status v = approval_pending"
    and "cf_email g \<noteq> []"
  shows "cli_approve w env t g yes answer arg s =
    (case agreed_payload v b64 of Inl e \<Rightarrow> (Inl e, s)
     | Inr p \<Rightarrow> if \<not> yes \<and> \<not> confirmed answer then (Inl (ErrNew ''aborted''), s)
        else bindE (submit w env t g arg p) (\<lambda>line. ret (print_action v, line)) s)"
  using assms by (simp add: cli_approve_def bindE_eq lift_result_def split: sum.split)

lemma received_facts:
  assumes "wire_action (action_of_row r) = Some a" and "valid_utf8 (ac_action r)" and "ac_status r = ''pending''"
  shows "a_id (received_action a) = ac_id r" "a_action (received_action a) = ac_action r"
    "a_status (received_action a) = approval_pending" "json_compact_escaped (ac_args r) = Some (a_args (received_action a))"
proof -
  have "over_wire ''pending'' = ''pending''" by code_simp
  then show "a_id (received_action a) = ac_id r" "a_action (received_action a) = ac_action r"
    "a_status (received_action a) = approval_pending" "json_compact_escaped (ac_args r) = Some (a_args (received_action a))"
    using assms by (auto simp: wire_action_def received_action_def action_of_row_def approval_pending_def split: option.splits)
qed

lemma agreed_payload_eq:
  assumes "signing_payload (a_id v) (a_action v) (a_args v) = p"
  shows "agreed_payload v (base64_encode p) = Inr p"
  using assms by (simp add: agreed_payload_def)

text \<open>Arguments that need no escaping reach the client with the same canonical form.\<close>

lemma wire_canonical:
  assumes "json_compact_escaped x = Some y" and "html_free x"
  shows "canonical_args y = canonical_args x"
proof -
  have c: "json_compact x = Some y" using assms json_compact_escaped_free by simp
  then have "x \<noteq> []" using json_compact_Nil by auto
  with c have "json_compact (json_or_empty x) = Some y" by (simp add: json_or_empty_def)
  from canonical_args_stable[OF this] show ?thesis using \<open>json_compact (json_or_empty x) = Some y\<close>
    by (simp add: canonical_args_def)
qed

lemma wire_canonical_clean:
  assumes "json_compact_escaped x = Some y" and "c \<in> set (canonical_args y)"
  shows "\<not> is_html c"
proof -
  have y: "d \<in> set y \<Longrightarrow> \<not> is_html d" for d
    using assms(1) compact_escaped_clean[of 0 json_start x y d] by (simp add: json_compact_escaped_def)
  have e: "d \<in> set (json_or_empty y) \<Longrightarrow> \<not> is_html d" for d
    using y[of d] by (auto simp: json_or_empty_def is_html_def split: if_splits)
  show ?thesis
  proof (cases "json_compact (json_or_empty y)")
    case None
    then show ?thesis using assms(2) e by (simp add: canonical_args_def)
  next
    case (Some z)
    then have "set z \<subseteq> set (json_or_empty y)" using compact_subset unfolding json_compact_def by blast
    then show ?thesis using assms(2) Some e by (auto simp: canonical_args_def)
  qed
qed

text \<open>C40: the client cannot approve an action whose arguments hold a byte the JSON encoder escapes: if the canonical form of the
  stored arguments contains an ampersand or an angle bracket, the view it receives has it escaped, its payload differs
  from the server's, and it refuses to sign; nothing changes. \<open>JSONB\<close> stores the plain byte even where the producer
  escaped it.\<close>

theorem cli_refuses_escaped:
  assumes arg: "plain_segment arg" "parse_id arg = Some i" and srv: "cf_server g = nt_server nt" "cf_email g \<noteq> []"
    and row: "lookup_by ac_id i (t_actions (db_tabs s)) = Some r" "ac_status r = ''pending''" "valid_utf8 (ac_action r)"
    and wire: "wire_action (action_of_row r) = Some a" and html: "c \<in> set (canonical_args (ac_args r))" "is_html c"
    and clean: "db_faults s = []" "nt_error nt (action_url nt arg) = None" "nt_lost nt (action_url nt arg) = None"
  shows "cli_approve w env (serve w run now nt) g yes answer arg s =
    (Inl (ErrNew ''signing payload mismatch between client and server; refusing to sign''), s)"
proof -
  note f = received_facts[OF wire row(3,2)]
  have v: "get_json (serve w run now nt) decode_view (cf_server g @ ''/actions/'' @ arg) s =
      (Inr (received_action a, base64_encode (served_payload r)), s)"
    unfolding srv(1) by (rule get_view_clean(2)[OF arg row(1) clean(1) wire clean(2,3)])
  have "canonical_args (a_args (received_action a)) \<noteq> canonical_args (ac_args r)"
    using wire_canonical_clean[OF f(4), of c] html by metis
  then have "agreed_payload (received_action a) (base64_encode (served_payload r)) =
      Inl (ErrNew ''signing payload mismatch between client and server; refusing to sign'')"
    by (simp add: agreed_payload_def f(1,2) signing_payload_def served_payload_def)
  then show ?thesis using cli_approve_pending[OF v f(3) srv(2)] by simp
qed

text \<open>With the registered key in the agent, everything between the view and the reply goes through.\<close>

definition calm :: "network \<Rightarrow> bool" where
  "calm nt \<longleftrightarrow> (\<forall>url. nt_error nt url = None \<and> nt_lost nt url = None)"

lemma calm_behind: "calm nt \<Longrightarrow> m s = (Inr r, s') \<Longrightarrow> behind nt url m s = (Inr r, s')"
  by (rule behind_clear) (auto simp: calm_def)

lemma get_who_clean:
  assumes "lookup_by (user_key w) (citext_key w email) (t_users (db_tabs s)) = Some u" and "db_faults s = []" and "calm nt"
    and "email \<noteq> []" "email \<noteq> ''.''" "email \<noteq> ''..''" "pg_text_ok email" and "valid_utf8 (us_fingerprint u)"
  shows "get_json (serve w run now nt) decode_who (nt_server nt @ ''/approval-users/'' @ path_escape email) s = (Inr (us_fingerprint u), s)"
proof -
  have "get_approval_user_handler w email s = (Inr (200, UserBody (us_email u) (us_fingerprint u) (us_key u)), s)"
    using assms by (simp add: get_approval_user_handler_def tryE_eq get_approval_user_clean user_of_row_def)
  then have "json_reply (get_approval_user_handler w email) s =
      (Inr (200, JsonContent (UserBody (us_email u) (us_fingerprint u) (us_key u))), s)"
    by (simp add: json_reply_Inr)
  then have "serve w run now nt (nt_server nt @ ''/approval-users/'' @ path_escape email) None s =
      (Inr (200, JsonContent (UserBody (us_email u) (us_fingerprint u) (us_key u))), s)"
    unfolding serve_user[OF assms(4-6)] by (rule calm_behind[OF assms(3)])
  then show ?thesis by (simp add: get_json_def bindE_eq do_json_def decode_who_def lift_result_def assms(8))
qed

lemma submit_clean:
  assumes "get_json (serve w run now nt) decode_who (nt_server nt @ ''/approval-users/'' @ path_escape (cf_email g)) s = (Inr want, s)"
    and "get_signer w env (cf_key g) (cf_agent_key g) want = Inr sg" and "sg_sign sg payload = Inr sig"
    and "approve_action w run now arg (marshal_fields [(''email'', cf_email g), (''signature'', marshal_signature sig)]) s =
      (Inr (200, ApprovedBody i ''executed''), s')"
    and "calm nt" "cf_server g = nt_server nt" "plain_segment arg"
  shows "submit w env (serve w run now nt) g arg payload s = (Inr (''ok: action '' @ int_text i @ '' executed''), s')"
proof -
  let ?raw = "marshal_fields [(''email'', cf_email g), (''signature'', marshal_signature sig)]"
  have "json_reply (approve_action w run now arg ?raw) s = (Inr (200, JsonContent (ApprovedBody i ''executed'')), s')"
    using assms(4) by (simp add: json_reply_Inr)
  then have rep: "serve w run now nt (approve_url nt arg) (Some ?raw) s = (Inr (200, JsonContent (ApprovedBody i ''executed'')), s')"
    unfolding serve_approve[OF assms(7)] by (rule calm_behind[OF assms(5)])
  have "over_wire ''executed'' = ''executed''" by code_simp
  with rep have post: "post_json (serve w run now nt) decode_approved (approve_url nt arg) ?raw s = (Inr (i, ''executed''), s')"
    by (simp add: post_json_def bindE_eq do_json_def decode_approved_def lift_result_def)
  with assms(1-3) show ?thesis
    unfolding submit_def assms(6) by (simp add: tryE_eq bindE_eq lift_result_def sign_with_def)
qed

lemma registered_key_approves:
  assumes arg: "plain_segment arg" "parse_id arg = Some i" and srv: "cf_server g = nt_server nt" "calm nt"
    and row: "lookup_by ac_id i (t_actions (db_tabs s)) = Some r" "ac_status r = ''pending''"
    and wire: "wire_action (action_of_row r) = Some a" "html_free (ac_args r)"
    and email: "cf_email g \<noteq> []" "cf_email g \<noteq> ''.''" "cf_email g \<noteq> ''..''" "pg_text_ok (cf_email g)"
    and user: "lookup_by (user_key w) (citext_key w (cf_email g)) (t_users (db_tabs s)) = Some u"
      "us_fingerprint u \<noteq> []" "valid_utf8 (us_fingerprint u)"
    and key: "cf_agent_key g = []" "agent_key_by_fingerprint w (fst (agent_signers env)) (us_fingerprint u) = Some sg"
      "sg_sign sg (served_payload r) = Inr sig" "verify w (us_key u) (served_payload r) (marshal_signature sig) = Inr ()" "sig \<noteq> []"
    and run: "dispatch (service_registry w now) (ac_action r) (json_or_empty (ac_args r)) s = (Inr (), s2)"
    and clean: "db_faults s = []" "db_faults s2 = []" and conf: "yes \<or> confirmed answer"
  shows "\<exists>s'. cli_approve w env (serve w (dispatch (service_registry w now)) now nt) g yes answer arg s =
    (Inr (print_action (received_action a), ''ok: action '' @ int_text i @ '' executed''), s')"
proof -
  let ?t = "serve w (dispatch (service_registry w now)) now nt"
  let ?raw = "marshal_fields [(''email'', cf_email g), (''signature'', marshal_signature sig)]"
  note f = received_facts[OF wire(1) dispatched_name[OF run] row(2)]
  have net: "nt_error nt url = None" "nt_lost nt url = None" for url using srv(2) by (simp_all add: calm_def)
  note view = get_view_clean[OF arg row(1) clean(1) wire(1) net]
  have agree: "agreed_payload (received_action a) (base64_encode (served_payload r)) = Inr (served_payload r)"
    using wire_canonical[OF f(4) wire(2)] by (intro agreed_payload_eq) (simp add: f signing_payload_def served_payload_def)
  have utf8: "valid_utf8 (cf_email g)" using email(4) by (simp add: pg_text_ok_def)
  have dec: "decode_approve ?raw = Some \<lparr> rq_email = cf_email g, rq_signature = marshal_signature sig \<rparr>"
    by (rule decode_approve_marshal[OF utf8]) (simp add: marshal_signature_def)
  have "\<exists>s'. approve_action w (dispatch (service_registry w now)) now arg ?raw s = (Inr (200, ApprovedBody i ''executed''), s')"
    by (rule served_signature_approves[OF view(1) arg(2) row, where ?s2.0 = s2 and req = "\<lparr> rq_email = cf_email g, rq_signature = marshal_signature sig \<rparr>"])
      (use user(1) key email dec run clean in \<open>simp_all add: marshal_signature_def\<close>)
  then obtain s' where ok: "approve_action w (dispatch (service_registry w now)) now arg ?raw s = (Inr (200, ApprovedBody i ''executed''), s')"
    by blast
  obtain ss ae where ag: "agent_signers env = (ss, ae)" by fastforce
  have signer: "get_signer w env (cf_key g) (cf_agent_key g) (us_fingerprint u) = Inr sg"
    unfolding key(1) by (rule get_signer_agent[OF ag _ user(2)]) (use key(2) ag in simp)
  have "submit w env ?t g arg (served_payload r) s = (Inr (''ok: action '' @ int_text i @ '' executed''), s')"
    by (rule submit_clean[OF get_who_clean[OF user(1) clean(1) srv(2) email user(3)] signer key(3) ok srv(2,1) arg(1)])
  then have "cli_approve w env ?t g yes answer arg s =
      (Inr (print_action (received_action a), ''ok: action '' @ int_text i @ '' executed''), s')"
    using cli_approve_pending[OF view(2)[folded srv(1)] f(3) email(1)] agree conf by (simp add: bindE_eq)
  then show ?thesis by blast
qed

text \<open>C7: the registered key is all an operator needs: for a pending action whose stored arguments need no HTML escaping, a
  registered email, and an agent that holds the key with the registered fingerprint and makes signatures that verify, the
  client finds that key without further options and the approval goes through, provided the handler succeeds, the operator
  confirms and nothing fails on the way.\<close>

theorem cli_approves:
  assumes arg: "plain_segment arg" "parse_id arg = Some i" and srv: "cf_server g = nt_server nt" "calm nt"
    and row: "lookup_by ac_id i (t_actions (db_tabs s)) = Some r" "ac_status r = ''pending''"
    and wire: "wire_action (action_of_row r) = Some a" "html_free (ac_args r)"
    and email: "cf_email g \<noteq> []" "cf_email g \<noteq> ''.''" "cf_email g \<noteq> ''..''" "pg_text_ok (cf_email g)"
    and user: "lookup_by (user_key w) (citext_key w (cf_email g)) (t_users (db_tabs s)) = Some u"
      "us_fingerprint u \<noteq> []" "valid_utf8 (us_fingerprint u)"
    and key: "cf_agent_key g = []" "agent_key_by_fingerprint w (fst (agent_signers env)) (us_fingerprint u) = Some sg"
      "sg_sign sg (served_payload r) = Inr sig" "verify w (us_key u) (served_payload r) (marshal_signature sig) = Inr ()" "sig \<noteq> []"
    and run: "dispatch (service_registry w now) (ac_action r) (json_or_empty (ac_args r)) s = (Inr (), s2)"
    and clean: "db_faults s = []" "db_faults s2 = []" and conf: "yes \<or> confirmed answer"
  shows "\<exists>s'. cli_approve w env (serve w (dispatch (service_registry w now)) now nt) g yes answer arg s =
    (Inr (print_action (received_action a), ''ok: action '' @ int_text i @ '' executed''), s')"
  using assms by (rule registered_key_approves)

section \<open>Concrete runs\<close>

definition demo_net :: network where
  "demo_net = \<lparr> nt_server = ''http://s'', nt_error = (\<lambda>_. None), nt_lost = (\<lambda>_. None),
     nt_redirected = (\<lambda>_. (301, TextContent [])) \<rparr>"

definition demo_flags :: cli_flags where
  "demo_flags = \<lparr> cf_server = ''http://s'', cf_email = ''OP'', cf_key = ''id'', cf_agent_key = [] \<rparr>"

definition demo_signer :: signer where
  "demo_signer = \<lparr> sg_key = ''k'', sg_comment = Some ''laptop'', sg_sign = (\<lambda>p. Inr (CHR ''k'' # p)) \<rparr>"

definition demo_keys :: key_env where
  "demo_keys = \<lparr> ke_sock = ''agent'', ke_dial = None, ke_signers = Inr [demo_signer],
     ke_file = (\<lambda>_. Inl (ErrNew ''no such file'')), ke_parse = (\<lambda>_. NeedsPassphrase) \<rparr>"

lemma demo_cli_facts:
  "plain_segment ''1''" "cf_server demo_flags = nt_server demo_net" "calm demo_net"
  "wire_action (action_of_row demo_row) = Some (action_of_row demo_row)" "html_free (ac_args demo_row)"
  "cf_email demo_flags \<noteq> []" "cf_email demo_flags \<noteq> ''.''" "cf_email demo_flags \<noteq> ''..''" "pg_text_ok (cf_email demo_flags)"
  "us_fingerprint demo_op \<noteq> []" "valid_utf8 (us_fingerprint demo_op)" "cf_agent_key demo_flags = []"
  "agent_key_by_fingerprint demo_world (fst (agent_signers demo_keys)) (us_fingerprint demo_op) = Some demo_signer"
  "valid_utf8 (cf_email demo_flags)"
proof -
  show "plain_segment ''1''" "pg_text_ok (cf_email demo_flags)" "valid_utf8 (us_fingerprint demo_op)" "html_free (ac_args demo_row)"
    "valid_utf8 (cf_email demo_flags)"
    by code_simp+
  show "wire_action (action_of_row demo_row) = Some (action_of_row demo_row)"
    using demo_args by (simp add: wire_action_def demo_ready_simps action_of_row_def)
  show "cf_server demo_flags = nt_server demo_net" "calm demo_net" "cf_email demo_flags \<noteq> []" "cf_email demo_flags \<noteq> ''.''"
    "cf_email demo_flags \<noteq> ''..''" "us_fingerprint demo_op \<noteq> []" "cf_agent_key demo_flags = []"
    by (simp_all add: demo_flags_def demo_net_def calm_def demo_op_def)
  show "agent_key_by_fingerprint demo_world (fst (agent_signers demo_keys)) (us_fingerprint demo_op) = Some demo_signer"
    by (simp add: agent_key_by_fingerprint_def agent_signers_def demo_keys_def signer_fp_def demo_signer_def demo_op_def demo_world_def)
qed

lemma demo_cli_user:
  "lookup_by (user_key demo_world) (citext_key demo_world (cf_email demo_flags)) (t_users (db_tabs demo_ready)) = Some demo_op"
  using demo_user by (simp add: demo_flags_def demo_op_def)

lemma demo_cli_sign:
  "sg_sign demo_signer (served_payload demo_row) = Inr (CHR ''k'' # demo_payload)"
  "verify demo_world (us_key demo_op) (served_payload demo_row) (marshal_signature (CHR ''k'' # demo_payload)) = Inr ()"
  using demo_verify
  by (simp_all add: demo_signer_def served_payload_def demo_ready_simps demo_payload_def demo_op_def demo_request_def marshal_signature_def)

lemmas demo_cli_case = demo_cli_facts(1) demo_parse_id demo_cli_facts(2,3) demo_ready_simps(2,5) demo_cli_facts(4-9) demo_cli_user
  demo_cli_facts(10-13) demo_cli_sign list.discI[OF refl] demo_request_args(6) demo_ready_simps(1) demo_run(2)

theorem cli_approves_witness:
  "\<exists>s'. cli_approve demo_world demo_keys (serve demo_world (dispatch (service_registry demo_world 9)) 9 demo_net) demo_flags True [] ''1'' demo_ready =
     (Inr (print_action (received_action (action_of_row demo_row)), ''ok: action '' @ int_text 1 @ '' executed''), s')"
  by (rule cli_approves[OF demo_cli_case]) simp

theorem cli_runs_what_it_shows_witness:
  "\<exists>s' before after. cli_approve demo_world demo_keys (serve demo_world (dispatch (service_registry demo_world 9)) 9 demo_net)
      demo_flags True [] ''1'' demo_ready =
      (Inr (print_action (received_action (action_of_row demo_row)), ''ok: action '' @ int_text 1 @ '' executed''), s') \<and>
    dispatch (service_registry demo_world 9) ''add_grantee'' (add_grantee_args ''bob'' []) before = (Inr (), after)"
proof -
  obtain s' where ok: "cli_approve demo_world demo_keys (serve demo_world (dispatch (service_registry demo_world 9)) 9 demo_net)
      demo_flags True [] ''1'' demo_ready =
      (Inr (print_action (received_action (action_of_row demo_row)), ''ok: action '' @ int_text 1 @ '' executed''), s')"
    using registered_key_approves[OF demo_cli_case, of True "[]"] by blast
  from cli_runs_what_it_shows[OF ok demo_cli_facts(2,1,14)] obtain i r before after where
    "parse_id ''1'' = Some i" "lookup_by ac_id i (t_actions (db_tabs demo_ready)) = Some r"
    "dispatch (service_registry demo_world 9) (ac_action r) (json_or_empty (ac_args r)) before = (Inr (), after)" by blast
  then show ?thesis using ok demo_args(3) by (auto simp: demo_parse_id demo_ready_simps json_or_empty_def)
qed

text \<open>A grantee called \<open>a&b\<close>.\<close>

definition demo_amp_args :: string where
  "demo_amp_args = ''{\"slug\":\"a&b\"}''"

definition demo_amp_row :: action_row where
  "demo_amp_row = new_action_row 1 7 ''add_grantee'' demo_amp_args ''{}'' None"

definition demo_amp :: db where
  "demo_amp = demo_db\<lparr>db_tabs := (db_tabs demo_db)\<lparr>t_actions := [demo_amp_row], t_users := [demo_op]\<rparr>\<rparr>"

theorem cli_refuses_escaped_witness:
  "cli_approve demo_world demo_keys (serve demo_world (dispatch (service_registry demo_world 9)) 9 demo_net) demo_flags True [] ''1'' demo_amp =
    (Inl (ErrNew ''signing payload mismatch between client and server; refusing to sign''), demo_amp)"
proof -
  have rows: "lookup_by ac_id 1 (t_actions (db_tabs demo_amp)) = Some demo_amp_row" "ac_status demo_amp_row = ''pending''"
    "valid_utf8 (ac_action demo_amp_row)" "db_faults demo_amp = []"
    by code_simp+
  have "json_compact_escaped demo_amp_args \<noteq> None" by code_simp
  then obtain x where "json_compact_escaped demo_amp_args = Some x" by blast
  then have wire: "wire_action (action_of_row demo_amp_row) = Some ((action_of_row demo_amp_row)\<lparr>a_args := x, a_metadata := ''{}''\<rparr>)"
    using demo_args(2) by (simp add: wire_action_def demo_amp_row_def new_action_row_def action_of_row_def)
  have html: "CHR ''&'' \<in> set (canonical_args (ac_args demo_amp_row))" "is_html CHR ''&''" by code_simp+
  have net: "nt_error demo_net u = None" "nt_lost demo_net u = None" for u by (simp_all add: demo_net_def)
  show ?thesis
    by (rule cli_refuses_escaped[OF demo_cli_facts(1) demo_parse_id demo_cli_facts(2,6) rows(1-3) wire html rows(4) net])
qed

end
