(* ===== verification/Durations.thy ===== *)
theory Durations
  imports World
begin

text \<open>
  \<open>time.ParseDuration\<close> and \<open>Duration.String\<close>, the parts of \<open>time\<close> the configuration uses. A duration is its number of
  nanoseconds. The accumulator is a 64 bit unsigned integer, so it is written modulo \<open>2 ^ 64\<close>; the one step done in
  floating point, scaling a fraction, is the parameter \<open>fl\<close>.
\<close>

definition nanosecond :: int where "nanosecond = 1"
definition second :: int where "second = 1000000000"
definition minute :: int where "minute = 60 * second"

lemmas duration_defs = second_def minute_def

section \<open>Parsing\<close>

definition add_digit :: "nat \<Rightarrow> char \<Rightarrow> nat" where
  "add_digit x c = 10 * x + (byte c - 48)"

text \<open>\<open>leadingInt\<close>: \<open>None\<close> on overflow.\<close>

fun leading_int :: "nat \<Rightarrow> string \<Rightarrow> (nat \<times> string) option" where
  "leading_int x [] = Some (x, [])"
| "leading_int x (c # s) =
     (if is_digit c then
        if x > 2 ^ 63 div 10 then None
        else (let y = add_digit x c in if y > 2 ^ 63 then None else leading_int y s)
      else Some (x, c # s))"

text \<open>\<open>leadingFraction\<close>: digits beyond what fits are read and dropped.\<close>

fun leading_fraction :: "nat \<Rightarrow> nat \<Rightarrow> bool \<Rightarrow> string \<Rightarrow> nat \<times> nat \<times> string" where
  "leading_fraction x scale over [] = (x, scale, [])"
| "leading_fraction x scale over (c # s) =
     (if is_digit c then
        if over \<or> x > (2 ^ 63 - 1) div 10 then leading_fraction x scale True s
        else (let y = add_digit x c in
          if y > 2 ^ 63 then leading_fraction x scale True s else leading_fraction y (10 * scale) False s)
      else (x, scale, c # s))"

definition unit_table :: "(string \<times> nat) list" where
  "unit_table = [(''ns'', 1), (''us'', 1000), ([CHR 0xC2, CHR 0xB5, CHR ''s''], 1000), ([CHR 0xCE, CHR 0xBC, CHR ''s''], 1000),
     (''ms'', 1000000), (''s'', 1000000000), (''m'', 60000000000), (''h'', 3600000000000)]"

text \<open>The \<open>quote\<close> of \<open>time\<close>: bytes outside printable ASCII in hexadecimal.\<close>

definition time_quote :: "string \<Rightarrow> string" where
  "time_quote s = [CHR 0x22] @ concat (map (\<lambda>c.
     if byte c \<ge> 128 \<or> byte c < 32 then [CHR 0x5C, CHR ''x'', hex_digit (byte c div 16), hex_digit (byte c mod 16)]
     else if c = CHR 0x22 \<or> c = CHR 0x5C then [CHR 0x5C, c] else [c]) s) @ [CHR 0x22]"

definition bad_duration :: "string \<Rightarrow> err" where
  "bad_duration orig = ErrNew (''time: invalid duration '' @ time_quote orig)"

definition unit_end :: "char \<Rightarrow> bool" where
  "unit_end c \<longleftrightarrow> c = CHR ''.'' \<or> is_digit c"

text \<open>One number with its unit: the value added, and the rest of the text.\<close>

definition duration_part :: "(nat \<Rightarrow> nat \<Rightarrow> nat \<Rightarrow> nat) \<Rightarrow> string \<Rightarrow> string \<Rightarrow> err + nat \<times> string" where
  "duration_part fl orig s =
     (case s of [] \<Rightarrow> Inl (bad_duration orig)
      | c # _ \<Rightarrow>
        if \<not> unit_end c then Inl (bad_duration orig)
        else (case leading_int 0 s of
          None \<Rightarrow> Inl (bad_duration orig)
        | Some (v, s1) \<Rightarrow>
            (let pre = length s1 \<noteq> length s;
                 frac = (s1 \<noteq> [] \<and> hd s1 = CHR ''.'');
                 (f, scale, s2) = (if frac then leading_fraction 0 1 False (tl s1) else (0, 1, s1));
                 post = (frac \<and> length s2 \<noteq> length (tl s1));
                 u = takeWhile (\<lambda>x. \<not> unit_end x) s2; rest = drop (length u) s2 in
             if \<not> pre \<and> \<not> post then Inl (bad_duration orig)
             else if u = [] then Inl (ErrNew (''time: missing unit in duration '' @ time_quote orig))
             else (case map_of unit_table u of
                 None \<Rightarrow> Inl (ErrNew (''time: unknown unit '' @ time_quote u @ '' in duration '' @ time_quote orig))
               | Some un \<Rightarrow>
                   if v > 2 ^ 63 div un then Inl (bad_duration orig)
                   else (let t = v * un + (if f > 0 then fl f un scale else 0) in
                     if t > 2 ^ 63 then Inl (bad_duration orig) else Inr (t, rest))))))"

lemma duration_part_shorter:
  assumes "duration_part fl orig s = Inr (v, rest)"
  shows "length rest < length s" and "v \<le> 2 ^ 63"
proof -
  have li: "length t' \<le> length t" if "leading_int x t = Some (y, t')" for x t y t'
    using that by (induction x t rule: leading_int.induct) (auto simp: Let_def split: if_splits)
  have lf: "length t' \<le> length t" if "leading_fraction x sc ov t = (y, sc', t')" for x sc ov t y sc' t'
    using that by (induction x sc ov t rule: leading_fraction.induct) (auto simp: Let_def split: if_splits)
  from assms obtain c s' x s1 f sc s2 u where s: "s = c # s'" and 1: "leading_int 0 s = Some (x, s1)"
    and 2: "(f, sc, s2) = (if s1 \<noteq> [] \<and> hd s1 = CHR ''.'' then leading_fraction 0 1 False (tl s1) else (0, 1, s1))"
    and u: "u = takeWhile (\<lambda>x. \<not> unit_end x) s2" "u \<noteq> []" and rest: "rest = drop (length u) s2" and v: "v \<le> 2 ^ 63"
    unfolding duration_part_def Let_def by (auto split: list.splits option.splits if_splits prod.splits)
  have "length s2 \<le> length s1"
  proof (cases "s1 \<noteq> [] \<and> hd s1 = CHR ''.''")
    case True
    then have "leading_fraction 0 1 False (tl s1) = (f, sc, s2)" using 2 by simp
    from lf[OF this] show ?thesis by simp
  qed (use 2 in auto)
  moreover have "length s1 \<le> length s" by (rule li[OF 1])
  moreover have "length u \<le> length s2" using u(1) by (metis length_takeWhile_le)
  ultimately show "length rest < length s" using rest u(2) by (cases u) auto
  show "v \<le> 2 ^ 63" by (rule v)
qed

function duration_loop :: "(nat \<Rightarrow> nat \<Rightarrow> nat \<Rightarrow> nat) \<Rightarrow> string \<Rightarrow> nat \<Rightarrow> string \<Rightarrow> err + nat" where
  "duration_loop fl orig d s =
     (if s = [] then Inr d
      else (case duration_part fl orig s of
          Inl e \<Rightarrow> Inl e
        | Inr (v, rest) \<Rightarrow>
            (let d' = (d + v) mod 2 ^ 64 in
             if d' > 2 ^ 63 then Inl (bad_duration orig) else duration_loop fl orig d' rest)))"
  by pat_completeness auto
termination
  by (relation "measure (\<lambda>(fl, orig, d, s). length s)") (auto dest: duration_part_shorter)

declare duration_loop.simps [simp del]

definition parse_duration :: "(nat \<Rightarrow> nat \<Rightarrow> nat \<Rightarrow> nat) \<Rightarrow> string \<Rightarrow> err + int" where
  "parse_duration fl orig =
     (let signed = (orig \<noteq> [] \<and> (hd orig = CHR ''-'' \<or> hd orig = CHR ''+''));
          neg = (orig \<noteq> [] \<and> hd orig = CHR ''-'');
          s = (if signed then tl orig else orig) in
      if s = ''0'' then Inr 0
      else if s = [] then Inl (bad_duration orig)
      else (case duration_loop fl orig 0 s of
          Inl e \<Rightarrow> Inl e
        | Inr d \<Rightarrow> if neg then Inr (- int d) else if d > 2 ^ 63 - 1 then Inl (bad_duration orig) else Inr (int d)))"

section \<open>Printing\<close>

definition pad_digits :: "nat \<Rightarrow> nat \<Rightarrow> string" where
  "pad_digits k n = replicate (k - length (nat_text n)) CHR ''0'' @ nat_text n"

text \<open>\<open>fmtFrac\<close>: the lowest \<open>prec\<close> digits as a fraction without trailing zeros.\<close>

definition frac_text :: "nat \<Rightarrow> nat \<Rightarrow> string" where
  "frac_text prec v =
     (let r = v mod 10 ^ prec in
      if r = 0 then [] else CHR ''.'' # rev (dropWhile (\<lambda>c. c = CHR ''0'') (rev (pad_digits prec r))))"

definition duration_text :: "int \<Rightarrow> string" where
  "duration_text d =
     (let u = nat \<bar>d\<bar>; sign = (if d < 0 then ''-'' else []) in
      if u = 0 then ''0s''
      else if u < 1000 then sign @ nat_text u @ ''ns''
      else if u < 1000000 then sign @ nat_text (u div 1000) @ frac_text 3 u @ [CHR 0xC2, CHR 0xB5, CHR ''s'']
      else if u < 1000000000 then sign @ nat_text (u div 1000000) @ frac_text 6 u @ ''ms''
      else
        (let secs = u div 1000000000; mins = secs div 60; hours = mins div 60 in
         sign @ (if hours > 0 then nat_text hours @ ''h'' else []) @ (if mins > 0 then nat_text (mins mod 60) @ ''m'' else []) @
           nat_text (secs mod 60) @ frac_text 9 u @ ''s''))"

section \<open>Bounds\<close>

lemma duration_loop_bound: "duration_loop fl orig d s = Inr n \<Longrightarrow> d \<le> 2 ^ 63 \<Longrightarrow> n \<le> 2 ^ 63"
proof (induction fl orig d s rule: duration_loop.induct)
  case (1 fl orig d s)
  show ?case
  proof (cases "s = []")
    case True
    with 1 show ?thesis by (simp add: duration_loop.simps)
  next
    case False
    with 1 show ?thesis by (auto simp: duration_loop.simps[of fl orig d s] Let_def split: sum.splits if_splits)
  qed
qed

text \<open>A parsed duration fits the \<open>int64\<close> it is returned in.\<close>

lemma parse_duration_bounds:
  assumes "parse_duration fl s = Inr d"
  shows "- (2 ^ 63) \<le> d \<and> d < 2 ^ 63"
proof -
  have "\<exists>n. n \<le> 2 ^ 63 \<and> (d = - int n \<or> d = int n \<and> n \<le> 2 ^ 63 - 1)"
  proof (cases "d = 0")
    case True
    then show ?thesis by (intro exI[of _ 0]) simp
  next
    case False
    with assms obtain n r where n: "duration_loop fl s 0 r = Inr n" "d = - int n \<or> d = int n \<and> n \<le> 2 ^ 63 - 1"
      unfolding parse_duration_def Let_def by (auto simp: not_less split: if_splits sum.splits)
    then show ?thesis using duration_loop_bound[OF n(1)] by blast
  qed
  then obtain n :: nat where n: "n \<le> 2 ^ 63" "d = - int n \<or> d = int n \<and> n \<le> 2 ^ 63 - 1" by blast
  have "int n \<le> 2 ^ 63" using n(1) by (metis of_nat_le_iff of_nat_numeral of_nat_power)
  then show ?thesis using n(2) by auto
qed

end
