(* ===== verification/Config.thy ===== *)
theory Config
  imports Durations
begin

text \<open>
  \<open>internal/config/config.go\<close>: the configuration read from the environment (a function that gives the empty text for an
  unset variable, as \<open>os.Getenv\<close> does) and what each subcommand requires of it. A check returns its error, if any.

  \<open>require_ok\<close> characterises the configurations the checks accept.
\<close>

section \<open>Reading the environment\<close>

type_synonym env = "string \<Rightarrow> string"

datatype log_level = LevelDebug | LevelInfo | LevelWarn | LevelError

record config =
  cg_database :: string
  cg_level :: log_level
  cg_mcp_bind :: string
  cg_mcp_token :: string
  cg_sa_key :: string
  cg_approval_bind :: string
  cg_boot_email :: string
  cg_boot_key :: string
  cg_imap_addr :: string
  cg_imap_user :: string
  cg_imap_pass :: string
  cg_imap_tls :: string
  cg_attachments :: string
  cg_folders :: "string list"
  cg_poll :: int
  cg_drive_base :: string

definition default_poll_interval :: int where "default_poll_interval = 5 * minute"
definition default_mcp_bind :: string where "default_mcp_bind = '':8080''"
definition default_approval_bind :: string where "default_approval_bind = '':8090''"

definition getenv_default :: "env \<Rightarrow> string \<Rightarrow> string \<Rightarrow> string" where
  "getenv_default env key def = (if env key \<noteq> [] then env key else def)"

definition folder_list :: "string \<Rightarrow> string list" where
  "folder_list v = filter (\<lambda>f. f \<noteq> []) (map trim_space (split_on CHR '','' v))"

definition poll_interval :: "(nat \<Rightarrow> nat \<Rightarrow> nat \<Rightarrow> nat) \<Rightarrow> string \<Rightarrow> err + int" where
  "poll_interval fl v =
     (if v = [] then Inr default_poll_interval
      else (case parse_duration fl v of Inl e \<Rightarrow> Inl (ErrWrap ''GDOCS_POLL_INTERVAL: '' e []) | Inr d \<Rightarrow> Inr d))"

definition log_level_of :: "string \<Rightarrow> log_level" where
  "log_level_of v =
     (if v = ''debug'' then LevelDebug else if v = ''warn'' then LevelWarn else if v = ''error'' then LevelError else LevelInfo)"

definition from_env :: "world \<Rightarrow> (nat \<Rightarrow> nat \<Rightarrow> nat \<Rightarrow> nat) \<Rightarrow> env \<Rightarrow> err + config" where
  "from_env w fl env =
     (case poll_interval fl (env ''GDOCS_POLL_INTERVAL'') of
        Inl e \<Rightarrow> Inl e
      | Inr d \<Rightarrow> Inr
         \<lparr> cg_database = env ''DATABASE_URL'',
           cg_level = log_level_of (to_lower w (getenv_default env ''LOG_LEVEL'' ''info'')),
           cg_mcp_bind = getenv_default env ''MCP_BIND_ADDR'' default_mcp_bind,
           cg_mcp_token = env ''MCP_BEARER_TOKEN'',
           cg_sa_key = trim_space (env ''GOOGLE_APPLICATION_CREDENTIALS''),
           cg_approval_bind = getenv_default env ''APPROVAL_BIND_ADDR'' default_approval_bind,
           cg_boot_email = trim_space (env ''APPROVAL_BOOTSTRAP_EMAIL''),
           cg_boot_key = trim_space (env ''APPROVAL_BOOTSTRAP_PUBKEY''),
           cg_imap_addr = env ''IMAP_ADDR'', cg_imap_user = env ''IMAP_USER'', cg_imap_pass = env ''IMAP_PASS'',
           cg_imap_tls = getenv_default env ''IMAP_TLS'' ''starttls'',
           cg_attachments = env ''MAIL_ATTACHMENTS_DIR'',
           cg_folders = folder_list (getenv_default env ''MAIL_FOLDERS'' ''INBOX,Sent''),
           cg_poll = d,
           cg_drive_base = env ''GDOCS_DRIVE_BASE_URL'' \<rparr>)"

section \<open>What a subcommand requires\<close>

text \<open>The first error of two checks.\<close>

definition also_check :: "err option \<Rightarrow> err option \<Rightarrow> err option" where
  "also_check a b = (case a of Some e \<Rightarrow> Some e | None \<Rightarrow> b)"

definition required :: "bool \<Rightarrow> string \<Rightarrow> err option" where
  "required ok msg = (if ok then None else Some (ErrNew msg))"

definition require_db :: "config \<Rightarrow> err option" where
  "require_db c = required (cg_database c \<noteq> []) ''missing required env var: DATABASE_URL''"

definition require_mcp :: "config \<Rightarrow> err option" where
  "require_mcp c = also_check (require_db c)
     (also_check (required (cg_mcp_bind c \<noteq> []) ''MCP_BIND_ADDR is required'')
       (required (cg_mcp_token c \<noteq> []) ''MCP_BEARER_TOKEN is required''))"

definition require_approval :: "config \<Rightarrow> err option" where
  "require_approval c = also_check (require_db c) (required (cg_approval_bind c \<noteq> []) ''APPROVAL_BIND_ADDR is required'')"

definition missing_mail :: "config \<Rightarrow> string list" where
  "missing_mail c = map fst (filter (\<lambda>(n, v). v = [])
     [(''IMAP_ADDR'', cg_imap_addr c), (''IMAP_USER'', cg_imap_user c), (''IMAP_PASS'', cg_imap_pass c),
      (''MAIL_ATTACHMENTS_DIR'', cg_attachments c)])"

definition imap_tls_ok :: "string \<Rightarrow> bool" where
  "imap_tls_ok m \<longleftrightarrow> m = ''starttls'' \<or> m = ''tls'' \<or> m = ''none''"

definition require_mail :: "config \<Rightarrow> err option" where
  "require_mail c = also_check (require_db c)
     (also_check (required (missing_mail c = []) (''missing required env vars: '' @ join_with '', '' (missing_mail c)))
     (also_check (required (imap_tls_ok (cg_imap_tls c)) (''IMAP_TLS must be one of starttls|tls|none, got '' @ go_quote (cg_imap_tls c)))
       (required (cg_folders c \<noteq> []) ''MAIL_FOLDERS produced an empty folder list'')))"

definition require_gdocs :: "config \<Rightarrow> err option" where
  "require_gdocs c = also_check (require_db c)
     (also_check (required (cg_sa_key c \<noteq> []) ''missing required env var: GOOGLE_APPLICATION_CREDENTIALS'')
       (required (cg_poll c \<ge> second) (''GDOCS_POLL_INTERVAL too small: '' @ duration_text (cg_poll c))))"

section \<open>What an accepted configuration has\<close>

lemma check_None [simp]:
  "also_check a b = None \<longleftrightarrow> a = None \<and> b = None" "required ok msg = None \<longleftrightarrow> ok"
  by (simp_all add: also_check_def required_def split: option.split)

lemma require_ok:
  "require_db c = None \<longleftrightarrow> cg_database c \<noteq> []"
  "require_mcp c = None \<longleftrightarrow> cg_database c \<noteq> [] \<and> cg_mcp_bind c \<noteq> [] \<and> cg_mcp_token c \<noteq> []"
  "require_approval c = None \<longleftrightarrow> cg_database c \<noteq> [] \<and> cg_approval_bind c \<noteq> []"
  "require_mail c = None \<longleftrightarrow> cg_database c \<noteq> [] \<and> [] \<notin> {cg_imap_addr c, cg_imap_user c, cg_imap_pass c, cg_attachments c} \<and>
     imap_tls_ok (cg_imap_tls c) \<and> cg_folders c \<noteq> []"
  "require_gdocs c = None \<longleftrightarrow> cg_database c \<noteq> [] \<and> cg_sa_key c \<noteq> [] \<and> second \<le> cg_poll c"
  by (auto simp: require_db_def require_mcp_def require_approval_def require_mail_def require_gdocs_def missing_mail_def)

lemma from_env_ok:
  assumes "from_env w fl env = Inr c"
  shows "cg_mcp_bind c \<noteq> []" "cg_approval_bind c \<noteq> []" "cg_imap_tls c \<noteq> []" "- (2 ^ 63) \<le> cg_poll c \<and> cg_poll c < 2 ^ 63"
    "f \<in> set (cg_folders c) \<Longrightarrow> f \<noteq> [] \<and> trim_space f = f \<and> CHR '','' \<notin> set f"
proof -
  from assms obtain d where d: "poll_interval fl (env ''GDOCS_POLL_INTERVAL'') = Inr d" and c: "cg_poll c = d"
    "cg_mcp_bind c = getenv_default env ''MCP_BIND_ADDR'' default_mcp_bind"
    "cg_approval_bind c = getenv_default env ''APPROVAL_BIND_ADDR'' default_approval_bind"
    "cg_imap_tls c = getenv_default env ''IMAP_TLS'' ''starttls''"
    "cg_folders c = folder_list (getenv_default env ''MAIL_FOLDERS'' ''INBOX,Sent'')"
    by (auto simp: from_env_def split: sum.splits)
  show "cg_mcp_bind c \<noteq> []" "cg_approval_bind c \<noteq> []" "cg_imap_tls c \<noteq> []"
    by (simp_all add: c getenv_default_def default_mcp_bind_def default_approval_bind_def)
  show "- (2 ^ 63) \<le> cg_poll c \<and> cg_poll c < 2 ^ 63"
    using d parse_duration_bounds[of fl "env ''GDOCS_POLL_INTERVAL''" d]
    by (auto simp: c poll_interval_def default_poll_interval_def duration_defs split: if_splits sum.splits)
  have "CHR '','' \<notin> set p" if "p \<in> set (split_on CHR '','' v)" for p v :: string
    using that by (induction v arbitrary: p) (auto split: if_splits list.splits)
  then show "f \<noteq> [] \<and> trim_space f = f \<and> CHR '','' \<notin> set f" if "f \<in> set (cg_folders c)"
    using that set_trim_space by (auto simp: c folder_list_def)
qed

end
