(* ===== verification/StoreNotes.thy ===== *)
theory StoreNotes
  imports StoreGrantees
begin

text \<open>
  \<open>internal/store/notes.go\<close> with \<open>cleanText\<close> of \<open>store.go\<close> and \<open>clampLimit\<close> of \<open>queries.go\<close>: the notes the agent
  keeps about a grantee. A note may supersede another; superseded notes are hidden from the listing by default.

  The listing is an interpretation of the locale \<open>keyset\<close>: its cursor column is its sort column, so a client that
  follows the cursors sees every note exactly once (\<open>notes_pages_complete\<close>).
\<close>

section \<open>Text the database accepts\<close>

definition clean_text :: "string \<Rightarrow> string" where
  "clean_text s =
     (if s = [] then s
      else let s1 = (if CHR 0x00 \<in> set s then replace_byte (CHR 0x00) [] s else s)
           in if \<not> valid_utf8 s1 then to_valid_utf8 replacement False s1 else s1)"

lemma replacement_ok: "valid_utf8 replacement" "CHR 0x00 \<notin> set replacement"
  by code_simp+

lemma clean_text_ok: "pg_text_ok (clean_text s)"
proof -
  let ?s1 = "if CHR 0x00 \<in> set s then replace_byte (CHR 0x00) [] s else s"
  have "CHR 0x00 \<notin> set ?s1" by (simp add: set_replace_byte_drop)
  moreover from this have "CHR 0x00 \<notin> set (to_valid_utf8 replacement False ?s1)"
    using set_to_valid_utf8[of replacement False ?s1] replacement_ok(2) by blast
  moreover have "valid_utf8 (to_valid_utf8 replacement False ?s1)"
    using replacement_ok(1) by (rule to_valid_utf8_valid)
  ultimately show ?thesis unfolding clean_text_def pg_text_ok_def Let_def by auto
qed

lemma clean_text_id: "pg_text_ok s \<Longrightarrow> clean_text s = s"
  by (simp add: clean_text_def pg_text_ok_def)

text \<open>\<open>cleanText\<close> always yields text Postgres accepts (valid UTF-8 without NUL bytes), leaves acceptable text
  unchanged, and is idempotent.\<close>

theorem clean_text_storable:
  "pg_text_ok (clean_text s) \<and> (pg_text_ok s \<longrightarrow> clean_text s = s) \<and> clean_text (clean_text s) = clean_text s"
  by (simp add: clean_text_ok clean_text_id)

theorem clean_text_storable_witness: "clean_text ''plain'' = ''plain''"
proof -
  have "pg_text_ok ''plain''" by code_simp
  then show ?thesis using clean_text_storable[of "''plain''"] by blast
qed

section \<open>Notes\<close>

definition default_limit :: int where "default_limit = 50"
definition max_limit :: int where "max_limit = 200"

definition clamp_limit :: "int \<Rightarrow> nat" where
  "clamp_limit n = nat (if n \<le> 0 then default_limit else if n > max_limit then max_limit else n)"

lemma clamp_limit_bounds: "0 < clamp_limit n" "clamp_limit n \<le> 200"
  by (auto simp: clamp_limit_def default_limit_def max_limit_def)

definition note_kinds :: "string list" where
  "note_kinds = [''note'', ''fact'', ''preference'', ''status'', ''contact'']"

definition valid_note_kind :: "string \<Rightarrow> bool" where
  "valid_note_kind k \<longleftrightarrow> list_ex (\<lambda>x. x = k) note_kinds"

record grantee_note =
  n_id :: int
  n_grantee :: string
  n_kind :: string
  n_content :: string
  n_signal :: string
  n_supersedes :: "int option"
  n_superseded_by :: "int option"
  n_created :: gotime

record note_filter =
  nf_grantee :: string
  nf_kind :: string
  nf_since :: "gotime option"
  nf_until :: "gotime option"
  nf_include :: bool
  nf_limit :: int
  nf_cursor :: int

definition note_insert_sql :: "note_row \<Rightarrow> int statement" where
  "note_insert_sql row t q =
     (let q' = q\<lparr>q_notes := q_notes q + 1\<rparr> in
      if \<not> note_kind_ok (no_kind row) then (Inl check_violation, t, q')
      else if \<not> has_grantee t (no_grantee row) then (Inl fk_violation, t, q')
      else if \<not> list_all (\<lambda>i. list_ex (\<lambda>r. no_id r = i) (t_notes t)) (case no_supersedes row of None \<Rightarrow> [] | Some i \<Rightarrow> [i])
        then (Inl fk_violation, t, q')
      else (Inr (q_notes q), t\<lparr>t_notes := t_notes t @ [row\<lparr>no_id := q_notes q\<rparr>]\<rparr>, q'))"

definition create_note :: "int \<Rightarrow> grantee_note \<Rightarrow> grantee_note dbm" where
  "create_note now n =
     (let gid = trim_space (n_grantee n);
          content = clean_text (trim_space (n_content n));
          kind = (if n_kind n = [] then ''note'' else n_kind n);
          created = created_unix now (n_created n);
          signal = null_str (trim_space (n_signal n))
      in if gid = [] then fail (ErrNew ''grantee_id required'')
         else if content = [] then fail (ErrNew ''content required'')
         else if \<not> valid_note_kind kind then fail (ErrNew (''invalid note kind '' @ go_quote kind))
         else bindE (pg ([gid, kind, content] @ opt_arg signal) (note_insert_sql
                \<lparr> no_id = 0, no_grantee = gid, no_kind = kind, no_content = content, no_signal = signal,
                  no_supersedes = n_supersedes n, no_created = created \<rparr>)) (\<lambda>i.
              ret (n\<lparr>n_id := i, n_grantee := gid, n_kind := kind, n_content := content,
                     n_created := from_unix created\<rparr>)))"

text \<open>The subselect of the newest-first listing: the first note that supersedes this one.\<close>

definition superseded_by :: "note_row list \<Rightarrow> int \<Rightarrow> int option" where
  "superseded_by rs i =
     (case sort (map no_id (filter (\<lambda>s. no_supersedes s = Some i) rs)) of [] \<Rightarrow> None | x # _ \<Rightarrow> Some x)"

definition note_of_row :: "note_row list \<Rightarrow> note_row \<Rightarrow> grantee_note" where
  "note_of_row rs r = \<lparr> n_id = no_id r, n_grantee = no_grantee r, n_kind = no_kind r, n_content = no_content r,
     n_signal = coalesce (no_signal r), n_supersedes = no_supersedes r, n_superseded_by = superseded_by rs (no_id r),
     n_created = from_unix (no_created r) \<rparr>"

definition get_note :: "int \<Rightarrow> grantee_note dbm" where
  "get_note i = wrapE not_found (pg_row [] (\<lambda>t. map_option (note_of_row (t_notes t)) (lookup_by no_id i (t_notes t))))"

definition since_ok :: "gotime option \<Rightarrow> int \<Rightarrow> bool" where
  "since_ok s d = (case s of None \<Rightarrow> True | Some t \<Rightarrow> unix t \<le> d)"

definition until_ok :: "gotime option \<Rightarrow> int \<Rightarrow> bool" where
  "until_ok s d = (case s of None \<Rightarrow> True | Some t \<Rightarrow> d \<le> unix t)"

text \<open>The \<open>WHERE\<close> clause without the cursor condition.\<close>

definition note_matches :: "note_row list \<Rightarrow> note_filter \<Rightarrow> note_row \<Rightarrow> bool" where
  "note_matches rs f r \<longleftrightarrow> no_grantee r = nf_grantee f \<and> (nf_kind f = [] \<or> no_kind r = nf_kind f) \<and>
     since_ok (nf_since f) (no_created r) \<and> until_ok (nf_until f) (no_created r) \<and>
     (nf_include f \<or> \<not> list_ex (\<lambda>s. no_supersedes s = Some (no_id r)) rs)"

definition note_page :: "tables \<Rightarrow> note_filter \<Rightarrow> grantee_note list \<times> int" where
  "note_page t f =
     (let limit = clamp_limit (nf_limit f);
          hits = filter (\<lambda>r. note_matches (t_notes t) f r \<and> (nf_cursor f > 0 \<longrightarrow> no_id r < nf_cursor f)) (t_notes t)
      in cut_page n_id limit (map (note_of_row (t_notes t)) (take (limit + 1) (rev (sort_key no_id hits)))))"

definition list_notes :: "note_filter \<Rightarrow> (grantee_note list \<times> int) dbm" where
  "list_notes f =
     (if trim_space (nf_grantee f) = [] then fail (ErrNew ''grantee_id required'')
      else if nf_kind f \<noteq> [] \<and> \<not> valid_note_kind (nf_kind f)
        then fail (ErrNew (''invalid note kind '' @ go_quote (nf_kind f)))
      else pg_read (nf_grantee f # opt_arg (null_str (nf_kind f))) (\<lambda>t. note_page t f))"

section \<open>Pagination\<close>

text \<open>All notes a filter selects, newest first.\<close>

definition all_notes :: "tables \<Rightarrow> note_filter \<Rightarrow> grantee_note list" where
  "all_notes t f =
     map (note_of_row (t_notes t)) (rev (sort_key no_id (filter (note_matches (t_notes t) f) (t_notes t))))"

definition notes_legal :: "tables \<times> note_filter \<Rightarrow> bool" where
  "notes_legal s \<longleftrightarrow> distinct (map no_id (t_notes (fst s))) \<and> (\<forall>r \<in> set (t_notes (fst s)). 0 < no_id r)"

lemma filter_sort_key: "filter P (sort_key f xs) = sort_key f (filter P xs)"
  by (simp add: filter_sort)

lemma strictly_descending:
  assumes "distinct (map f xs)"
  shows "sorted_wrt (\<lambda>a b. f b < (f a :: int)) (rev (sort_key f xs))"
proof -
  have s: "sorted (map f (sort_key f xs))" by simp
  have "distinct (map f (sort_key f xs))"
    using assms by (simp add: distinct_map)
  with s have "sorted_wrt (<) (map f (sort_key f xs))"
    by (simp add: strict_sorted_iff)
  then show ?thesis by (simp add: sorted_wrt_rev sorted_wrt_map)
qed

interpretation note_pages: keyset notes_legal "\<lambda>(t, f). all_notes t f" n_id "\<lambda>(t, f). clamp_limit (nf_limit f)"
  "\<lambda>(t, f) c. note_page t (f\<lparr>nf_cursor := c\<rparr>)"
proof
  fix s :: "tables \<times> note_filter" and r c
  obtain t f where s: "s = (t, f)" by fastforce
  show "0 < (case s of (t, f) \<Rightarrow> clamp_limit (nf_limit f))" by (simp add: s clamp_limit_bounds)
  show "sorted_wrt (\<lambda>a b. n_id b < n_id a) (case s of (t, f) \<Rightarrow> all_notes t f)" if "notes_legal s"
  proof -
    have "distinct (map no_id (filter (note_matches (t_notes t) f) (t_notes t)))"
      using that by (simp add: notes_legal_def s distinct_map_filter)
    from strictly_descending[OF this] show ?thesis
      by (simp add: s all_notes_def sorted_wrt_map note_of_row_def)
  qed
  show "0 < n_id r" if "notes_legal s" "r \<in> set (case s of (t, f) \<Rightarrow> all_notes t f)"
    using that by (auto simp: notes_legal_def s all_notes_def note_of_row_def)
  show "(case s of (t, f) \<Rightarrow> \<lambda>c. note_page t (f\<lparr>nf_cursor := c\<rparr>)) c =
    cut_page n_id (case s of (t, f) \<Rightarrow> clamp_limit (nf_limit f))
      (take ((case s of (t, f) \<Rightarrow> clamp_limit (nf_limit f)) + 1)
        (filter (\<lambda>r. 0 < c \<longrightarrow> n_id r < c) (case s of (t, f) \<Rightarrow> all_notes t f)))"
    by (simp add: s note_page_def all_notes_def filter_map comp_def take_map rev_filter[symmetric] filter_sort_key
        note_of_row_def note_matches_def Let_def conj_commute conj_assoc)
qed

text \<open>One call of \<open>ListNotes\<close> with the cursor \<open>c\<close>, an error counting as an empty last page.\<close>

definition notes_call :: "db \<Rightarrow> note_filter \<Rightarrow> int \<Rightarrow> grantee_note list \<times> int" where
  "notes_call s f c = (case fst (list_notes (f\<lparr>nf_cursor := c\<rparr>) s) of Inr p \<Rightarrow> p | Inl _ \<Rightarrow> ([], 0))"

text \<open>pagination of notes is complete: a client that starts without a cursor and follows the cursors it is handed gets
  every note the filter selects exactly once, newest first, and then the cursor 0; more calls than there are notes
  are never needed.\<close>

theorem notes_pages_complete:
  assumes "schema w (db_tabs s) (db_seqs s)" and "db_faults s = []"
    and "trim_space (nf_grantee f) \<noteq> []" and "nf_kind f = [] \<or> valid_note_kind (nf_kind f)"
    and "pg_text_ok (nf_grantee f)" and "length (all_notes (db_tabs s) f) < fuel"
  shows "follow_pages fuel (notes_call s f) 0 = Some (all_notes (db_tabs s) f)"
proof -
  have "pg_text_ok k" if "valid_note_kind k" for k
  proof -
    have "list_all pg_text_ok note_kinds" by code_simp
    then show ?thesis using that by (auto simp: valid_note_kind_def list_ex_iff list_all_iff)
  qed
  then have "list_all pg_text_ok (nf_grantee f # opt_arg (null_str (nf_kind f)))"
    using assms(4,5) by (auto simp: opt_arg_def null_str_def)
  then have "notes_call s f = (\<lambda>c. note_page (db_tabs s) (f\<lparr>nf_cursor := c\<rparr>))"
    using assms(2-4) by (auto simp: notes_call_def list_notes_def clean_simps fun_eq_iff)
  moreover have "notes_legal (db_tabs s, f)"
    using schema_parts(8)[OF assms(1)] by (simp add: notes_legal_def ok_notes_def)
  ultimately show ?thesis using note_pages.follow_all[of "(db_tabs s, f)" fuel] assms(6) by simp
qed

lemma note_insert_Inr:
  assumes "note_insert_sql row t q = (Inr i, t', q')"
  shows "i = q_notes q" "t' = t\<lparr>t_notes := t_notes t @ [row\<lparr>no_id := i\<rparr>]\<rparr>" "q' = q\<lparr>q_notes := q_notes q + 1\<rparr>"
    "note_kind_ok (no_kind row)" "has_grantee t (no_grantee row)"
    "\<forall>j \<in> set_option (no_supersedes row). j \<in> no_id ` set (t_notes t)"
  using assms by (auto simp: note_insert_sql_def Let_def list_ex_iff split: if_splits option.splits)

lemma note_insert_schema:
  assumes "note_insert_sql row t q = (r, t', q')"
  shows "seqs_le q q' \<and> (schema w t q \<longrightarrow> schema w t' q')"
proof -
  have q': "q' = q\<lparr>q_notes := q_notes q + 1\<rparr>"
    using assms by (auto simp: note_insert_sql_def Let_def split: if_splits)
  then have le: "seqs_le q q'" by (simp add: seqs_le_def)
  moreover have "schema w t' q'" if s: "schema w t q"
  proof (cases r)
    case (Inl e)
    then have "t' = t" using assms by (auto simp: note_insert_sql_def Let_def split: if_splits)
    then show ?thesis using schema_seqs[OF s le] by simp
  next
    case (Inr i)
    note f = note_insert_Inr[OF assms[unfolded Inr]]
    have "ok_notes (grantee_ids t) (q_notes q') (t_notes t @ [row\<lparr>no_id := i\<rparr>])"
      using schema_parts(8)[OF s] schema_pos(5)[OF s] f q' unfolding ok_notes_def has_grantee_def by fastforce
    then show ?thesis unfolding f(2) by (rule schema_set(8)[OF schema_seqs[OF s le]])
  qed
  ultimately show ?thesis by blast
qed

lemma create_note_schema [evolve]: "evolves (schema_step w) (create_note now n)"
  unfolding create_note_def Let_def
  by (intro schema.ev_if schema.ev_fail schema.ev_bindE schema.ev_ret schema_pg) (erule note_insert_schema)

lemma create_note_same: "evolves (same (\<lambda>t. (t_actions t, t_messages t, t_threads t))) (create_note now n)"
  unfolding create_note_def Let_def
  by (intro same.ev_if same.ev_fail same.ev_bindE same.ev_ret same_pg) (auto simp: note_insert_sql_def Let_def split: if_splits)

lemma create_note_ok:
  assumes "create_note now n s = (Inr m, s')"
  obtains row where "note_insert_sql row (db_tabs s) (db_seqs s) = (Inr (n_id m), db_tabs s', db_seqs s')"
    "no_grantee row = n_grantee m" "no_kind row = n_kind m" "no_content row = n_content m"
    "no_signal row = null_str (trim_space (n_signal n))" "no_supersedes row = n_supersedes n" "from_unix (no_created row) = n_created m"
    "n_supersedes m = n_supersedes n" "n_grantee m = trim_space (n_grantee n)" "n_content m = clean_text (trim_space (n_content n))"
    "n_grantee m \<noteq> []" "n_content m \<noteq> []" "valid_note_kind (n_kind m)"
  using assms unfolding create_note_def Let_def
  by (auto split: if_splits simp: bindE_Inr_iff dest!: pg_Inr(2))

text \<open>\<open>CreateNote\<close> stores what it returns: the new note reads back under the id handed out with its trimmed and cleaned
  content, its kind and its grantee, not superseded by any note; the id was free. If it supersedes another note, that
  note existed and every listing that hides superseded notes now leaves it out.\<close>

theorem create_note_stores:
  assumes new: "create_note now n s = (Inr m, s')" and inv: "schema w (db_tabs s) (db_seqs s)" and clean: "db_faults s' = []"
  shows "n_id m \<notin> no_id ` set (t_notes (db_tabs s)) \<and>
    get_note (n_id m) s' = (Inr (m\<lparr>n_signal := trim_space (n_signal n), n_superseded_by := None\<rparr>), s') \<and>
    n_content m = clean_text (trim_space (n_content n)) \<and> n_grantee m = trim_space (n_grantee n) \<and>
    (\<forall>i. n_supersedes n = Some i \<longrightarrow> i \<in> no_id ` set (t_notes (db_tabs s)) \<and>
       (\<forall>f. \<not> nf_include f \<longrightarrow> i \<notin> n_id ` set (all_notes (db_tabs s') f)))"
proof (rule create_note_ok[OF new])
  fix row assume ins: "note_insert_sql row (db_tabs s) (db_seqs s) = (Inr (n_id m), db_tabs s', db_seqs s')"
    and row: "no_grantee row = n_grantee m" "no_kind row = n_kind m" "no_content row = n_content m"
    "no_signal row = null_str (trim_space (n_signal n))" "no_supersedes row = n_supersedes n" "from_unix (no_created row) = n_created m"
    "n_supersedes m = n_supersedes n" "n_grantee m = trim_space (n_grantee n)" "n_content m = clean_text (trim_space (n_content n))"
  note f = note_insert_Inr[OF ins]
  let ?row = "row\<lparr>no_id := n_id m\<rparr>"
  have notes': "t_notes (db_tabs s') = t_notes (db_tabs s) @ [?row]" using f(2) by simp
  have ok: "ok_notes (grantee_ids (db_tabs s)) (q_notes (db_seqs s)) (t_notes (db_tabs s))"
    using schema_parts(8)[OF inv] .
  have fresh: "n_id m \<notin> no_id ` set (t_notes (db_tabs s))"
    using ok f(1) by (auto simp: ok_notes_def)
  then have "lookup_by no_id (n_id m) (t_notes (db_tabs s)) = None" unfolding lookup_by_None by (metis image_eqI)
  then have l: "lookup_by no_id (n_id m) (t_notes (db_tabs s')) = Some ?row" by (simp add: notes' row_simps)
  have "no_supersedes r \<noteq> Some (n_id m)" if "r \<in> set (t_notes (db_tabs s'))" for r
    using that ok f(6) fresh by (auto simp: notes' ok_notes_def)
  then have "superseded_by (t_notes (db_tabs s')) (n_id m) = None"
    by (simp add: superseded_by_def filter_empty_conv)
  then have get: "get_note (n_id m) s' = (Inr (m\<lparr>n_signal := trim_space (n_signal n), n_superseded_by := None\<rparr>), s')"
    by (simp add: get_note_def clean_simps clean l note_of_row_def row)
  have "i \<notin> n_id ` set (all_notes (db_tabs s') f)" if "n_supersedes n = Some i" "\<not> nf_include f" for i f
  proof -
    have "list_ex (\<lambda>r. no_supersedes r = Some i) (t_notes (db_tabs s'))" using that(1) row(5) by (simp add: notes')
    then show ?thesis using that(2) by (auto simp: all_notes_def note_of_row_def note_matches_def)
  qed
  then show ?thesis using fresh get row f(6) by auto
qed

section \<open>Examples\<close>

definition demo_note :: grantee_note where
  "demo_note = \<lparr> n_id = 0, n_grantee = ''ann'', n_kind = [], n_content = '' hi '', n_signal = [], n_supersedes = None,
     n_superseded_by = None, n_created = zero_time \<rparr>"

definition demo_noted :: db where
  "demo_noted = snd (create_note 7 demo_note demo_db)"

definition demo_note_out :: grantee_note where
  "demo_note_out = demo_note\<lparr>n_id := 1, n_kind := ''note'', n_content := ''hi'', n_created := from_unix 7\<rparr>"

lemma demo_create: "create_note 7 demo_note demo_db = (Inr demo_note_out, demo_noted)"
proof -
  have "fst (create_note 7 demo_note demo_db) = Inr demo_note_out" by code_simp
  then show ?thesis by (metis demo_noted_def prod.collapse)
qed

lemma demo_schema: "schema w (db_tabs demo_db) (db_seqs demo_db)"
  by (simp add: demo_simps schema_def ok_defs grantee_status_ok_def)

lemma demo_noted_schema: "schema w (db_tabs demo_noted) (db_seqs demo_noted)"
  using evolves_schema[OF create_note_schema demo_schema, of w 7 demo_note] by (simp add: demo_noted_def)

lemma demo_noted_clean: "db_faults demo_noted = []"
  by code_simp

theorem create_note_stores_witness:
  "get_note 1 demo_noted = (Inr (demo_note_out\<lparr>n_signal := trim_space [], n_superseded_by := None\<rparr>), demo_noted)"
  using create_note_stores[OF demo_create demo_schema demo_noted_clean] by (simp add: demo_note_out_def demo_note_def)

definition demo_filter :: note_filter where
  "demo_filter = \<lparr> nf_grantee = ''ann'', nf_kind = [], nf_since = None, nf_until = None, nf_include = False, nf_limit = 1, nf_cursor = 0 \<rparr>"

theorem notes_pages_complete_witness:
  "follow_pages 2 (notes_call demo_noted demo_filter) 0 = Some (all_notes (db_tabs demo_noted) demo_filter)"
proof (rule notes_pages_complete[OF demo_noted_schema[of demo_world] demo_noted_clean])
  show "trim_space (nf_grantee demo_filter) \<noteq> []" "nf_kind demo_filter = [] \<or> valid_note_kind (nf_kind demo_filter)"
    "pg_text_ok (nf_grantee demo_filter)" "length (all_notes (db_tabs demo_noted) demo_filter) < 2" by code_simp+
qed

end
