(* ===== verification/StoreMail.thy ===== *)
theory StoreMail
  imports StoreNotes
begin

text \<open>
  The mail half of \<open>internal/store/store.go\<close>: mailbox state, threads and messages.

  The UIDs of IMAP are 32-bit words, as in the source; the columns are BIGINT, and reading a column into a \<open>uint32\<close>
  fails when the value does not fit. \<open>InsertMessage\<close> is one transaction over four tables. A \<open>nil\<close> slice of
  addresses and an empty one are both \<open>[]\<close>; the program only builds \<open>nil\<close> ones, which marshal to \<open>null\<close>.

  \<open>mail_grows\<close> is the contract of every mail operation: rows are only added, and the attribution of a thread or a
  message is only ever filled in. It is an interpretation of the locale \<open>evolution\<close>.
\<close>

section \<open>Data\<close>

record address =
  a_name :: string
  a_email :: string

record attachment =
  an_id :: int
  an_filename :: string
  an_mime :: string
  an_size :: int
  an_sha :: string
  an_path :: string

record message =
  m_id :: int
  m_message_id :: string
  m_thread :: int
  m_grantee :: "string option"
  m_folder :: string
  m_uid :: "32 word"
  m_uid_validity :: "32 word"
  m_in_reply_to :: string
  m_references :: "string list"
  m_from :: address
  m_to :: "address list"
  m_cc :: "address list"
  m_bcc :: "address list"
  m_subject :: string
  m_date :: gotime
  m_body_text :: string
  m_body_html :: string
  m_size :: int
  m_attachments :: "attachment list"

record thread =
  tr_id :: int
  tr_root :: string
  tr_subject :: string
  tr_grantee :: "string option"
  tr_first :: gotime
  tr_last :: gotime

record mailbox_state =
  mx_folder :: string
  mx_uid_validity :: "32 word"
  mx_last_uid :: "32 word"

section \<open>Mailbox state\<close>

text \<open>\<open>database/sql\<close> scans an integer column into a \<open>uint32\<close>.\<close>

definition scan_u32 :: "int \<Rightarrow> err + 32 word" where
  "scan_u32 n =
     (if 0 \<le> n \<and> n < 2 ^ 32 then Inr (of_int n)
      else Inl (ErrNew (''sql: Scan error: converting '' @ int_text n @ '' to a uint32: value out of range'')))"

definition get_mailbox_state :: "string \<Rightarrow> mailbox_state option dbm" where
  "get_mailbox_state folder =
     tryE (pg_row [folder] (\<lambda>t. lookup_by mb_folder folder (t_mailboxes t))) (\<lambda>r. case r of
       Inl e \<Rightarrow> if err_is e ErrNoRows then ret None else fail e
     | Inr row \<Rightarrow>
         (case scan_u32 (mb_uid_validity row) of
            Inl e \<Rightarrow> fail e
          | Inr v \<Rightarrow>
              (case scan_u32 (mb_last_uid row) of
                 Inl e \<Rightarrow> fail e
               | Inr u \<Rightarrow> ret (Some \<lparr> mx_folder = mb_folder row, mx_uid_validity = v, mx_last_uid = u \<rparr>))))"

definition save_mailbox_state :: "int \<Rightarrow> mailbox_state \<Rightarrow> unit dbm" where
  "save_mailbox_state now st =
     (let row = \<lparr> mb_folder = mx_folder st, mb_uid_validity = uint (mx_uid_validity st),
                  mb_last_uid = uint (mx_last_uid st), mb_updated = now \<rparr>
      in pg_modify [mx_folder st] (\<lambda>t. Inr ((), t\<lparr>t_mailboxes :=
           upsert_by mb_folder
             (\<lambda>x. x\<lparr>mb_uid_validity := mb_uid_validity row, mb_last_uid := mb_last_uid row, mb_updated := mb_updated row\<rparr>)
             row (t_mailboxes t)\<rparr>)))"

section \<open>Threads\<close>

definition message_exists_by_id :: "string \<Rightarrow> bool dbm" where
  "message_exists_by_id mid =
     tryE (pg_row [mid] (\<lambda>t. lookup_by ms_message_id mid (t_messages t))) (\<lambda>r. case r of
       Inl e \<Rightarrow> if err_is e ErrNoRows then ret False else fail e
     | Inr _ \<Rightarrow> ret True)"

text \<open>Which of several rows a \<open>LIMIT 1\<close> without \<open>ORDER BY\<close> returns is up to the database (\<open>w_pick\<close>).\<close>

definition find_thread_by_refs :: "world \<Rightarrow> string list \<Rightarrow> int dbm" where
  "find_thread_by_refs w refs =
     (if refs = [] then ret 0
      else tryE (pg_row refs (\<lambda>t. pick_row w th_id (filter (\<lambda>r. th_root r \<in> set refs) (t_threads t)))) (\<lambda>r. case r of
        Inr row \<Rightarrow> ret (th_id row)
      | Inl e \<Rightarrow>
          if \<not> err_is e ErrNoRows then fail e
          else tryE (pg_row refs (\<lambda>t. pick_row w ms_id (filter (\<lambda>m. ms_message_id m \<in> set refs) (t_messages t)))) (\<lambda>r2. case r2 of
              Inr m \<Rightarrow> ret (ms_thread m)
            | Inl e2 \<Rightarrow> if err_is e2 ErrNoRows then ret 0 else fail e2)))"

definition thread_insert_sql :: "thread_row \<Rightarrow> int statement" where
  "thread_insert_sql row t q =
     (let q' = q\<lparr>q_threads := q_threads q + 1\<rparr> in
      if list_ex (\<lambda>r. th_root r = th_root row) (t_threads t) then (Inl unique_violation, t, q')
      else if \<not> list_all (has_grantee t) (opt_arg (th_grantee row)) then (Inl fk_violation, t, q')
      else (Inr (q_threads q), t\<lparr>t_threads := t_threads t @ [row\<lparr>th_id := q_threads q\<rparr>]\<rparr>, q'))"

definition create_thread :: "string \<Rightarrow> string \<Rightarrow> string option \<Rightarrow> gotime \<Rightarrow> int dbm" where
  "create_thread root subject gid time =
     pg ([root, subject] @ opt_arg gid) (thread_insert_sql
       \<lparr> th_id = 0, th_root = root, th_subject = Some subject, th_grantee = gid, th_first = unix time, th_last = unix time \<rparr>)"

definition thread_of_row :: "thread_row \<Rightarrow> thread" where
  "thread_of_row r = \<lparr> tr_id = th_id r, tr_root = th_root r, tr_subject = coalesce (th_subject r), tr_grantee = th_grantee r,
     tr_first = from_unix (th_first r), tr_last = from_unix (th_last r) \<rparr>"

text \<open>\<open>GetThread\<close> hands \<open>sql.ErrNoRows\<close> through; \<open>GetThreadMessages\<close> tests for it.\<close>

definition get_thread :: "int \<Rightarrow> thread dbm" where
  "get_thread i = pg_row [] (\<lambda>t. map_option thread_of_row (lookup_by th_id i (t_threads t)))"

definition claim_thread :: "int \<Rightarrow> string \<Rightarrow> tables \<Rightarrow> tables" where
  "claim_thread i gid t =
     t\<lparr>t_threads := update_where (\<lambda>r. th_id r = i \<and> th_grantee r = None) (\<lambda>r. r\<lparr>th_grantee := Some gid\<rparr>) (t_threads t)\<rparr>"

definition claim_messages :: "int \<Rightarrow> string \<Rightarrow> tables \<Rightarrow> tables" where
  "claim_messages i gid t =
     t\<lparr>t_messages := update_where (\<lambda>m. ms_thread m = i \<and> ms_grantee m = None) (\<lambda>m. m\<lparr>ms_grantee := Some gid\<rparr>) (t_messages t)\<rparr>"

definition set_thread_grantee :: "int \<Rightarrow> string \<Rightarrow> unit dbm" where
  "set_thread_grantee i gid =
     in_tx (bindE (pg_modify [gid] (with_grantee gid (claim_thread i gid))) (\<lambda>_.
       pg_modify [gid] (with_grantee gid (claim_messages i gid))))"

definition touch_thread :: "int \<Rightarrow> gotime \<Rightarrow> unit dbm" where
  "touch_thread i time =
     pg_modify [] (\<lambda>t. Inr ((), t\<lparr>t_threads :=
       update_where (\<lambda>r. th_id r = i) (\<lambda>r. r\<lparr>th_last := max (th_last r) (unix time)\<rparr>) (t_threads t)\<rparr>))"

section \<open>Messages\<close>

definition marshal_address :: "address \<Rightarrow> string" where
  "marshal_address a = marshal_fields (omit_empty ''name'' (a_name a) @ [(''email'', a_email a)])"

definition marshal_addresses :: "address list \<Rightarrow> string" where
  "marshal_addresses xs =
     (if xs = [] then ''null'' else ''['' @ join_with '','' (map marshal_address xs) @ '']'')"

definition null_clean :: "string \<Rightarrow> string option" where
  "null_clean s = null_str (clean_text s)"

definition message_row_of :: "int \<Rightarrow> message \<Rightarrow> message_row" where
  "message_row_of now m = \<lparr> ms_id = 0, ms_message_id = m_message_id m, ms_thread = m_thread m, ms_grantee = m_grantee m,
     ms_folder = m_folder m, ms_uid = uint (m_uid m), ms_uid_validity = uint (m_uid_validity m),
     ms_in_reply_to = null_clean (m_in_reply_to m), ms_references = null_clean (join_with '' '' (m_references m)),
     ms_from_addr = a_email (m_from m), ms_from_name = null_clean (a_name (m_from m)),
     ms_to_addrs = marshal_addresses (m_to m), ms_cc_addrs = null_str (marshal_addresses (m_cc m)),
     ms_subject = null_clean (m_subject m), ms_date = unix (m_date m), ms_body_text = null_clean (m_body_text m),
     ms_body_html = null_clean (m_body_html m), ms_size = m_size m, ms_indexed = now \<rparr>"

definition message_args :: "message_row \<Rightarrow> string list" where
  "message_args r = [ms_message_id r, ms_folder r, ms_from_addr r, ms_to_addrs r] @ concat (map opt_arg
     [ms_grantee r, ms_in_reply_to r, ms_references r, ms_from_name r, ms_cc_addrs r, ms_subject r, ms_body_text r, ms_body_html r])"

text \<open>\<open>INSERT ... ON CONFLICT(message_id) DO NOTHING RETURNING id\<close>: a conflict returns no row. A second message at the same
  place of a folder violates the other unique key.\<close>

definition message_insert_sql :: "message_row \<Rightarrow> int statement" where
  "message_insert_sql row t q =
     (let q' = q\<lparr>q_messages := q_messages q + 1\<rparr> in
      if list_ex (\<lambda>m. ms_message_id m = ms_message_id row) (t_messages t) then (Inl ErrNoRows, t, q')
      else if list_ex (\<lambda>m. uid_key m = uid_key row) (t_messages t) then (Inl unique_violation, t, q')
      else if \<not> list_ex (\<lambda>r. th_id r = ms_thread row) (t_threads t) then (Inl fk_violation, t, q')
      else if \<not> list_all (has_grantee t) (opt_arg (ms_grantee row)) then (Inl fk_violation, t, q')
      else (Inr (q_messages q), t\<lparr>t_messages := t_messages t @ [row\<lparr>ms_id := q_messages q\<rparr>]\<rparr>, q'))"

text \<open>The foreign key of the three child tables.\<close>

definition with_message :: "int \<Rightarrow> (tables \<Rightarrow> tables) \<Rightarrow> tables \<Rightarrow> err + unit \<times> tables" where
  "with_message i f t = (if list_ex (\<lambda>m. ms_id m = i) (t_messages t) then Inr ((), f t) else Inl fk_violation)"

definition insert_reference :: "int \<Rightarrow> string \<Rightarrow> unit dbm" where
  "insert_reference i ref =
     (if ref = [] then ret ()
      else pg_modify [clean_text ref] (\<lambda>t.
        if list_ex (\<lambda>r. rf_message r = i \<and> rf_ref r = clean_text ref) (t_references t) then Inr ((), t)
        else with_message i (\<lambda>t. t\<lparr>t_references := t_references t @ [\<lparr> rf_message = i, rf_ref = clean_text ref \<rparr>]\<rparr>) t))"

definition insert_recipient :: "world \<Rightarrow> int \<Rightarrow> string \<Rightarrow> address \<Rightarrow> unit dbm" where
  "insert_recipient w i kind a =
     (if a_email a = [] then ret ()
      else let email = clean_text (to_lower w (a_email a)); name = null_clean (a_name a) in
        pg_modify ([kind, email] @ opt_arg name) (\<lambda>t.
          if list_ex (\<lambda>r. rc_message r = i \<and> rc_kind r = kind \<and> citext_key w (rc_email r) = citext_key w email) (t_recipients t)
          then Inr ((), t)
          else with_message i (\<lambda>t. t\<lparr>t_recipients := t_recipients t @
            [\<lparr> rc_message = i, rc_kind = kind, rc_email = email, rc_name = name \<rparr>]\<rparr>) t))"

definition attachment_insert_sql :: "attachment_row \<Rightarrow> unit statement" where
  "attachment_insert_sql row t q =
     (let q' = q\<lparr>q_attachments := q_attachments q + 1\<rparr> in
      case with_message (at_message row) (\<lambda>t. t\<lparr>t_attachments := t_attachments t @ [row\<lparr>at_id := q_attachments q\<rparr>]\<rparr>) t of
        Inl e \<Rightarrow> (Inl e, t, q')
      | Inr (_, t') \<Rightarrow> (Inr (), t', q'))"

definition insert_attachment :: "int \<Rightarrow> attachment \<Rightarrow> unit dbm" where
  "insert_attachment i a =
     (let filename = null_clean (an_filename a); mime = null_clean (an_mime a) in
      wrapE (\<lambda>e. ErrWrap ''insert attachment: '' e [])
        (pg (opt_arg filename @ opt_arg mime @ [an_sha a, an_path a]) (attachment_insert_sql
           \<lparr> at_id = 0, at_message = i, at_filename = filename, at_mime = mime,
             at_size = an_size a, at_sha = an_sha a, at_path = an_path a \<rparr>)))"

definition insert_children :: "world \<Rightarrow> int \<Rightarrow> message \<Rightarrow> unit dbm" where
  "insert_children w i m =
     bindE (for_each (insert_reference i) (m_references m)) (\<lambda>_.
     bindE (for_each (insert_recipient w i ''to'') (m_to m)) (\<lambda>_.
     bindE (for_each (insert_recipient w i ''cc'') (m_cc m)) (\<lambda>_.
     bindE (for_each (insert_recipient w i ''bcc'') (m_bcc m)) (\<lambda>_.
     for_each (insert_attachment i) (m_attachments m)))))"

definition insert_message :: "world \<Rightarrow> int \<Rightarrow> message \<Rightarrow> (int \<times> bool) dbm" where
  "insert_message w now m =
     (let row = message_row_of now m in
      in_tx (tryE (pg (message_args row) (message_insert_sql row)) (\<lambda>r. case r of
        Inl e \<Rightarrow>
          if err_is e ErrNoRows
          then bindE (pg_row [m_message_id m] (\<lambda>t. map_option ms_id (lookup_by ms_message_id (m_message_id m) (t_messages t))))
                 (\<lambda>i. ret (i, False))
          else fail (ErrWrap ''insert message: '' e [])
      | Inr i \<Rightarrow> bindE (insert_children w i m) (\<lambda>_. ret (i, True)))))"

section \<open>Mail only grows\<close>

definition grows :: "('r \<Rightarrow> 'r \<Rightarrow> bool) \<Rightarrow> 'r list \<Rightarrow> 'r list \<Rightarrow> bool" where
  "grows K rs rs' \<longleftrightarrow> length rs \<le> length rs' \<and> (\<forall>i < length rs. K (rs ! i) (rs' ! i))"

lemma grows_refl: "(\<And>r. K r r) \<Longrightarrow> grows K rs rs"
  by (simp add: grows_def)

lemma grows_trans: "(\<And>a b c. K a b \<Longrightarrow> K b c \<Longrightarrow> K a c) \<Longrightarrow> grows K rs rs' \<Longrightarrow> grows K rs' rs'' \<Longrightarrow> grows K rs rs''"
  unfolding grows_def by (meson le_trans order_less_le_trans)

lemma grows_append: "(\<And>r. K r r) \<Longrightarrow> grows K rs (rs @ qs)"
  by (simp add: grows_def nth_append)

lemma grows_update: "(\<And>r. K r r) \<Longrightarrow> (\<And>r. P r \<Longrightarrow> K r (f r)) \<Longrightarrow> grows K rs (update_where P f rs)"
  by (simp add: grows_def update_where_def)

lemma grows_mem: "grows K rs rs' \<Longrightarrow> r \<in> set rs \<Longrightarrow> \<exists>r' \<in> set rs'. K r r'"
  unfolding grows_def by (metis in_set_conv_nth nth_mem order_less_le_trans)

definition thread_kept :: "thread_row \<Rightarrow> thread_row \<Rightarrow> bool" where
  "thread_kept r r' \<longleftrightarrow> th_id r' = th_id r \<and> th_root r' = th_root r \<and> th_subject r' = th_subject r \<and> th_first r' = th_first r \<and>
     th_last r \<le> th_last r' \<and> (th_grantee r = None \<or> th_grantee r' = th_grantee r)"

definition message_kept :: "message_row \<Rightarrow> message_row \<Rightarrow> bool" where
  "message_kept m m' \<longleftrightarrow> m' = m\<lparr>ms_grantee := ms_grantee m'\<rparr> \<and> (ms_grantee m = None \<or> ms_grantee m' = ms_grantee m)"

definition mail_grows :: "snapshot \<Rightarrow> snapshot \<Rightarrow> bool" where
  "mail_grows p p' \<longleftrightarrow>
     grows thread_kept (t_threads (fst p)) (t_threads (fst p')) \<and> grows message_kept (t_messages (fst p)) (t_messages (fst p')) \<and>
     grows (=) (t_references (fst p)) (t_references (fst p')) \<and> grows (=) (t_recipients (fst p)) (t_recipients (fst p')) \<and>
     grows (=) (t_attachments (fst p)) (t_attachments (fst p'))"

lemma thread_kept_refl [simp]: "thread_kept r r"
  by (simp add: thread_kept_def)

lemma thread_kept_trans: "thread_kept a b \<Longrightarrow> thread_kept b c \<Longrightarrow> thread_kept a c"
  by (auto simp: thread_kept_def)

lemma message_kept_refl [simp]: "message_kept m m"
  by (simp add: message_kept_def)

lemma message_kept_trans: "message_kept a b \<Longrightarrow> message_kept b c \<Longrightarrow> message_kept a c"
  unfolding message_kept_def by (metis message_row.surjective message_row.update_convs(4))

lemma mail_grows_same: "t_threads t' = t_threads t \<Longrightarrow> t_messages t' = t_messages t \<Longrightarrow> t_references t' = t_references t \<Longrightarrow>
  t_recipients t' = t_recipients t \<Longrightarrow> t_attachments t' = t_attachments t \<Longrightarrow> mail_grows (t, q) (t', q')"
  by (simp add: mail_grows_def grows_refl)

interpretation mail: evolution mail_grows
proof
  show "mail_grows p p" for p by (simp add: mail_grows_def grows_refl)
  show "mail_grows p p''" if "mail_grows p p'" "mail_grows p' p''" for p p' p''
    using that unfolding mail_grows_def
    by (auto elim: grows_trans[rotated, of thread_kept] grows_trans[rotated, of message_kept] grows_trans[rotated, of "(=)"]
      intro: thread_kept_trans message_kept_trans)
  show "mail_grows (t, q) (t, q')" for t q q' by (simp add: mail_grows_same)
qed

text \<open>Operations that leave the five mail tables alone.\<close>

abbreviation mail_view :: "tables \<Rightarrow> thread_row list \<times> message_row list \<times> reference_row list \<times> recipient_row list \<times> attachment_row list" where
  "mail_view t \<equiv> (t_threads t, t_messages t, t_references t, t_recipients t, t_attachments t)"

lemma same_mail: "evolves (same mail_view) m \<Longrightarrow> evolves mail_grows m"
  by (auto simp: evolves_def same_def snap_def intro!: mail_grows_same)

lemma mail_pg_modify:
  "(\<And>t q x t'. f t = Inr (x, t') \<Longrightarrow> mail_grows (t, q) (t', q)) \<Longrightarrow> evolves mail_grows (pg_modify args f)"
  by (rule mail.ev_pg_modify) auto

lemma claim_thread_mail [evolve]: "mail_grows (t, q) (claim_thread i g t, q)"
  by (auto simp: mail_grows_def claim_thread_def grows_refl thread_kept_def intro!: grows_update)

lemma claim_messages_mail [evolve]: "mail_grows (t, q) (claim_messages i g t, q)"
  by (auto simp: mail_grows_def claim_messages_def grows_refl message_kept_def intro!: grows_update)

lemma set_thread_grantee_mail [evolve]: "evolves mail_grows (set_thread_grantee i g)"
  unfolding set_thread_grantee_def
  by (intro mail.ev_in_tx mail.ev_bindE mail_pg_modify)
    (auto dest!: with_grantee_Inr intro: claim_thread_mail claim_messages_mail)

lemma touch_thread_mail [evolve]: "evolves mail_grows (touch_thread i time)"
  unfolding touch_thread_def
  by (rule mail_pg_modify) (auto simp: mail_grows_def grows_refl thread_kept_def intro!: grows_update)

lemma create_thread_mail [evolve]: "evolves mail_grows (create_thread root subj g time)"
  unfolding create_thread_def
  by (rule mail.ev_pg)
    (auto simp: thread_insert_sql_def Let_def mail_grows_def grows_refl intro!: grows_append split: if_splits)

lemma insert_reference_mail [evolve]: "evolves mail_grows (insert_reference i ref)"
  unfolding insert_reference_def
  by (intro mail.ev_if mail.ev_ret mail_pg_modify)
    (auto simp: mail_grows_def grows_refl with_message_def intro!: grows_append split: if_splits)

lemma insert_recipient_mail [evolve]: "evolves mail_grows (insert_recipient w i kind a)"
  unfolding insert_recipient_def Let_def
  by (intro mail.ev_if mail.ev_ret mail_pg_modify)
    (auto simp: mail_grows_def grows_refl with_message_def intro!: grows_append split: if_splits)

lemma insert_attachment_mail [evolve]: "evolves mail_grows (insert_attachment i a)"
  unfolding insert_attachment_def Let_def
  by (intro mail.ev_wrapE mail.ev_pg)
    (auto simp: attachment_insert_sql_def Let_def mail_grows_def grows_refl with_message_def intro!: grows_append split: if_splits)

lemma insert_children_mail [evolve]: "evolves mail_grows (insert_children w i m)"
  unfolding insert_children_def
  by (intro mail.ev_bindE mail.ev_for_each insert_reference_mail insert_recipient_mail insert_attachment_mail)

lemma message_insert_mail: "message_insert_sql row t q = (r, t', q') \<Longrightarrow> mail_grows (t, q) (t', q')"
  by (auto simp: message_insert_sql_def Let_def mail_grows_def grows_refl intro!: grows_append split: if_splits)

lemma insert_message_mail [evolve]: "evolves mail_grows (insert_message w now m)"
  unfolding insert_message_def Let_def
  by (intro mail.ev_in_tx mail.ev_tryE mail.ev_case_sum mail.ev_if mail.ev_bindE mail.ev_pg_row mail.ev_fail mail.ev_ret
      mail.ev_pg insert_children_mail message_insert_mail)

section \<open>The constraints are kept\<close>

lemma thread_insert_Inr:
  assumes "thread_insert_sql row t q = (Inr i, t', q')"
  shows "i = q_threads q" "t' = t\<lparr>t_threads := t_threads t @ [row\<lparr>th_id := i\<rparr>]\<rparr>" "q' = q\<lparr>q_threads := q_threads q + 1\<rparr>"
    "th_root row \<notin> th_root ` set (t_threads t)" "\<forall>g \<in> set_option (th_grantee row). has_grantee t g"
  using assms by (auto simp: thread_insert_sql_def Let_def list_ex_iff opt_arg_def split: if_splits option.splits)

lemma message_insert_Inr:
  assumes "message_insert_sql row t q = (Inr i, t', q')"
  shows "i = q_messages q" "t' = t\<lparr>t_messages := t_messages t @ [row\<lparr>ms_id := i\<rparr>]\<rparr>" "q' = q\<lparr>q_messages := q_messages q + 1\<rparr>"
    "ms_message_id row \<notin> ms_message_id ` set (t_messages t)" "uid_key row \<notin> uid_key ` set (t_messages t)"
    "ms_thread row \<in> thread_ids t" "\<forall>g \<in> set_option (ms_grantee row). has_grantee t g"
  using assms
  by (auto simp: message_insert_sql_def Let_def list_ex_iff opt_arg_def thread_ids_def split: if_splits option.splits)
    (metis image_eqI)+

lemma thread_insert_schema:
  assumes "thread_insert_sql row t q = (r, t', q')"
  shows "seqs_le q q' \<and> (schema w t q \<longrightarrow> schema w t' q')"
proof -
  have q': "q' = q\<lparr>q_threads := q_threads q + 1\<rparr>"
    using assms by (auto simp: thread_insert_sql_def Let_def split: if_splits)
  then have le: "seqs_le q q'" by (simp add: seqs_le_def)
  moreover have "schema w t' q'" if s: "schema w t q"
  proof (cases r)
    case (Inl e)
    then have "t' = t" using assms by (auto simp: thread_insert_sql_def Let_def split: if_splits)
    then show ?thesis using schema_seqs[OF s le] by simp
  next
    case (Inr i)
    note f = thread_insert_Inr[OF assms[unfolded Inr]]
    have "ok_threads (grantee_ids t) (q_threads q') (t_threads t @ [row\<lparr>th_id := i\<rparr>])"
      using schema_parts(4)[OF s] schema_pos(2)[OF s] f q' unfolding ok_threads_def has_grantee_def by fastforce
    then show ?thesis unfolding f(2) by (rule schema_set(4)[OF schema_seqs[OF s le]]) (auto simp: thread_ids_def)
  qed
  ultimately show ?thesis by blast
qed

lemma message_insert_schema:
  assumes "message_insert_sql row t q = (r, t', q')"
  shows "seqs_le q q' \<and> (schema w t q \<longrightarrow> schema w t' q')"
proof -
  have q': "q' = q\<lparr>q_messages := q_messages q + 1\<rparr>"
    using assms by (auto simp: message_insert_sql_def Let_def split: if_splits)
  then have le: "seqs_le q q'" by (simp add: seqs_le_def)
  moreover have "schema w t' q'" if s: "schema w t q"
  proof (cases r)
    case (Inl e)
    then have "t' = t" using assms by (auto simp: message_insert_sql_def Let_def split: if_splits)
    then show ?thesis using schema_seqs[OF s le] by simp
  next
    case (Inr i)
    note f = message_insert_Inr[OF assms[unfolded Inr]]
    have "uid_key (row\<lparr>ms_id := i\<rparr>) = uid_key row" by (simp add: uid_key_def)
    then have "ok_messages (grantee_ids t) (thread_ids t) (q_messages q') (t_messages t @ [row\<lparr>ms_id := i\<rparr>])"
      using schema_parts(5)[OF s] schema_pos(3)[OF s] f q' unfolding ok_messages_def has_grantee_def by fastforce
    then show ?thesis unfolding f(2) by (rule schema_set(5)[OF schema_seqs[OF s le]]) (auto simp: message_ids_def)
  qed
  ultimately show ?thesis by blast
qed

lemma with_message_Inr: "with_message i f t = Inr (x, t') \<Longrightarrow> t' = f t \<and> i \<in> message_ids t"
  by (auto simp: with_message_def message_ids_def list_ex_iff split: if_splits)

lemma claim_thread_schema: "schema w t q \<Longrightarrow> has_grantee t g \<Longrightarrow> schema w (claim_thread i g t) q"
  unfolding claim_thread_def
  by (rule schema_set) (auto simp: thread_ids_def keys_update_where schema_parts has_grantee_def intro!: ok_threads_update)

lemma claim_messages_schema: "schema w t q \<Longrightarrow> has_grantee t g \<Longrightarrow> schema w (claim_messages i g t) q"
  unfolding claim_messages_def
  by (rule schema_set)
    (auto simp: message_ids_def keys_update_where schema_parts has_grantee_def uid_key_def intro!: ok_messages_update)

lemma set_thread_grantee_schema [evolve]: "evolves (schema_step w) (set_thread_grantee i g)"
  unfolding set_thread_grantee_def
  by (intro schema.ev_in_tx schema.ev_bindE schema_pg_modify)
    (auto dest!: with_grantee_Inr intro: claim_thread_schema claim_messages_schema)

lemma touch_thread_schema [evolve]: "evolves (schema_step w) (touch_thread i time)"
  unfolding touch_thread_def
proof (rule schema_pg_modify, clarsimp)
  fix t q assume s: "schema w t q"
  note ok = schema_parts(4)[OF s]
  have "g \<in> grantee_ids t" if "x \<in> set (t_threads t)" "th_grantee x = Some g" for x g
    using ok that by (auto simp: ok_threads_def)
  then show "schema w (t\<lparr>t_threads := update_where (\<lambda>r. th_id r = i) (\<lambda>r. r\<lparr>th_last := max (th_last r) (unix time)\<rparr>) (t_threads t)\<rparr>) q"
    by (intro schema_set(4)[OF s] ok_threads_update[OF ok]) (auto simp: thread_ids_def keys_update_where)
qed

lemma create_thread_schema [evolve]: "evolves (schema_step w) (create_thread root subj g time)"
  unfolding create_thread_def by (rule schema_pg) (rule thread_insert_schema)

lemma save_mailbox_state_schema [evolve]: "evolves (schema_step w) (save_mailbox_state now st)"
  unfolding save_mailbox_state_def Let_def
  by (rule schema_pg_modify)
    (auto simp: schema_def ok_keys_def ok_children_def grantee_ids_def thread_ids_def message_ids_def intro!: distinct_upsert_by)

lemma children_schema:
  assumes "schema w t q" and "i \<in> message_ids t"
  shows "rf_message r = i \<Longrightarrow> schema w (t\<lparr>t_references := t_references t @ [r]\<rparr>) q"
    "rc_message c = i \<Longrightarrow> schema w (t\<lparr>t_recipients := t_recipients t @ [c]\<rparr>) q"
    "at_message a = i \<Longrightarrow> schema w (t\<lparr>t_attachments := t_attachments t @ [a]\<rparr>) q"
  using assms by (auto simp: schema_def ok_keys_def ok_children_def grantee_ids_def thread_ids_def message_ids_def)

lemma insert_reference_schema [evolve]: "evolves (schema_step w) (insert_reference i ref)"
  unfolding insert_reference_def
  by (intro schema.ev_if schema.ev_ret schema_pg_modify)
    (auto dest!: with_message_Inr intro: children_schema split: if_splits)

lemma insert_recipient_schema [evolve]: "evolves (schema_step w) (insert_recipient w' i kind a)"
  unfolding insert_recipient_def Let_def
  by (intro schema.ev_if schema.ev_ret schema_pg_modify)
    (auto dest!: with_message_Inr intro: children_schema split: if_splits)

lemma insert_attachment_schema [evolve]: "evolves (schema_step w) (insert_attachment i a)"
proof -
  have "seqs_le q q' \<and> (schema w t q \<longrightarrow> schema w t' q')" if a: "attachment_insert_sql row t q = (r, t', q')" for row t q r t' q'
  proof -
    have q': "q' = q\<lparr>q_attachments := q_attachments q + 1\<rparr>"
      using a by (auto simp: attachment_insert_sql_def Let_def split: sum.splits)
    then have le: "seqs_le q q'" by (simp add: seqs_le_def)
    moreover have "schema w t' q'" if "schema w t q"
      using a schema_seqs[OF that le] by (auto simp: attachment_insert_sql_def Let_def split: sum.splits
        dest!: with_message_Inr intro: children_schema)
    ultimately show ?thesis by blast
  qed
  then show ?thesis unfolding insert_attachment_def Let_def by (intro schema.ev_wrapE schema_pg) blast
qed

lemma insert_children_schema [evolve]: "evolves (schema_step w) (insert_children w' i m)"
  unfolding insert_children_def
  by (intro schema.ev_bindE schema.ev_for_each insert_reference_schema insert_recipient_schema insert_attachment_schema)

lemma insert_message_schema [evolve]: "evolves (schema_step w) (insert_message w' now m)"
  unfolding insert_message_def Let_def
  by (intro schema.ev_in_tx schema.ev_tryE schema.ev_case_sum schema.ev_if schema.ev_bindE schema.ev_pg_row schema.ev_fail
      schema.ev_ret schema_pg insert_children_schema message_insert_schema)

section \<open>What an inserted message leaves behind\<close>

definition references_of :: "tables \<Rightarrow> int \<Rightarrow> string list" where
  "references_of t i = map rf_ref (filter (\<lambda>r. rf_message r = i) (t_references t))"

definition recipients_of :: "world \<Rightarrow> tables \<Rightarrow> int \<Rightarrow> (string \<times> string) list" where
  "recipients_of w t i = map (\<lambda>r. (rc_kind r, citext_key w (rc_email r))) (filter (\<lambda>r. rc_message r = i) (t_recipients t))"

definition attachments_of :: "tables \<Rightarrow> int \<Rightarrow> (string option \<times> string option \<times> int \<times> string \<times> string) list" where
  "attachments_of t i = map (\<lambda>a. (at_filename a, at_mime a, at_size a, at_sha a, at_path a)) (filter (\<lambda>a. at_message a = i) (t_attachments t))"

definition addressee :: "world \<Rightarrow> string \<Rightarrow> address \<Rightarrow> string \<times> string" where
  "addressee w kind a = (kind, citext_key w (clean_text (to_lower w (a_email a))))"

definition enclosed :: "attachment \<Rightarrow> string option \<times> string option \<times> int \<times> string \<times> string" where
  "enclosed a = (null_clean (an_filename a), null_clean (an_mime a), an_size a, an_sha a, an_path a)"

text \<open>A loop of statements, each with a known effect on the children of message \<open>i\<close> and on nothing else.\<close>

definition children :: "world \<Rightarrow> tables \<Rightarrow> int \<Rightarrow> string set \<times> (string \<times> string) set \<times> (string option \<times> string option \<times> int \<times> string \<times> string) list" where
  "children w t i = (set (references_of t i), set (recipients_of w t i), attachments_of t i)"

definition but_children :: "world \<Rightarrow> tables \<Rightarrow> int \<Rightarrow> _" where
  "but_children w t i = (t_grantees t, t_emails t, t_threads t, t_messages t, \<lambda>j. if j = i then ({}, {}, []) else children w t j)"

lemma for_each_children:
  assumes "\<And>x s s'. f x s = (Inr (), s') \<Longrightarrow>
      children w (db_tabs s') i = g x (children w (db_tabs s) i) \<and> but_children w (db_tabs s') i = but_children w (db_tabs s) i"
    and "for_each f xs s = (Inr (), s')"
  shows "children w (db_tabs s') i = fold g xs (children w (db_tabs s) i) \<and> but_children w (db_tabs s') i = but_children w (db_tabs s) i"
  using assms(2)
proof (induction xs arbitrary: s)
  case (Cons x xs)
  from Cons.prems obtain s1 where "f x s = (Inr (), s1)" "for_each f xs s1 = (Inr (), s')"
    by (auto simp: bindE_Inr_iff)
  with Cons.IH[of s1] assms(1)[of x s s1] show ?case by simp
qed simp

definition with_reference :: "string \<Rightarrow> string set \<times> 'b \<times> 'c \<Rightarrow> string set \<times> 'b \<times> 'c" where
  "with_reference ref c = (if ref = [] then c else (insert (clean_text ref) (fst c), snd c))"

definition with_recipient :: "world \<Rightarrow> string \<Rightarrow> address \<Rightarrow> 'a \<times> (string \<times> string) set \<times> 'c \<Rightarrow> 'a \<times> (string \<times> string) set \<times> 'c" where
  "with_recipient w kind a c = (if a_email a = [] then c else (fst c, insert (addressee w kind a) (fst (snd c)), snd (snd c)))"

lemma children_append:
  "references_of (t\<lparr>t_references := t_references t @ [r]\<rparr>) j = references_of t j @ (if rf_message r = j then [rf_ref r] else [])"
  "recipients_of w (t\<lparr>t_references := rs\<rparr>) j = recipients_of w t j" "attachments_of (t\<lparr>t_references := rs\<rparr>) j = attachments_of t j"
  "recipients_of w (t\<lparr>t_recipients := t_recipients t @ [c]\<rparr>) j =
     recipients_of w t j @ (if rc_message c = j then [(rc_kind c, citext_key w (rc_email c))] else [])"
  "references_of (t\<lparr>t_recipients := cs\<rparr>) j = references_of t j" "attachments_of (t\<lparr>t_recipients := cs\<rparr>) j = attachments_of t j"
  "attachments_of (t\<lparr>t_attachments := t_attachments t @ [a]\<rparr>) j =
     attachments_of t j @ (if at_message a = j then [(at_filename a, at_mime a, at_size a, at_sha a, at_path a)] else [])"
  "references_of (t\<lparr>t_attachments := as\<rparr>) j = references_of t j" "recipients_of w (t\<lparr>t_attachments := as\<rparr>) j = recipients_of w t j"
  by (simp_all add: references_of_def recipients_of_def attachments_of_def)

lemma reference_known: "list_ex (\<lambda>r. rf_message r = i \<and> rf_ref r = x) (t_references t) \<longleftrightarrow> x \<in> set (references_of t i)"
  by (auto simp: references_of_def list_ex_iff)

lemma recipient_known:
  "list_ex (\<lambda>r. rc_message r = i \<and> rc_kind r = k \<and> citext_key w (rc_email r) = e) (t_recipients t) \<longleftrightarrow> (k, e) \<in> set (recipients_of w t i)"
  by (auto simp: recipients_of_def list_ex_iff)

lemma insert_reference_children:
  assumes "insert_reference i ref s = (Inr (), s')"
  shows "children w (db_tabs s') i = with_reference ref (children w (db_tabs s) i) \<and> but_children w (db_tabs s') i = but_children w (db_tabs s) i"
proof (cases "ref = []")
  case True
  then show ?thesis using assms by (simp add: insert_reference_def with_reference_def)
next
  case False
  let ?t = "db_tabs s"
  have st: "(if clean_text ref \<in> set (references_of ?t i) then Inr ((), ?t)
      else with_message i (\<lambda>t. t\<lparr>t_references := t_references t @ [\<lparr> rf_message = i, rf_ref = clean_text ref \<rparr>]\<rparr>) ?t)
     = Inr ((), db_tabs s')"
    using assms[unfolded insert_reference_def] False by (auto simp only: if_False reference_known dest: pg_modify_Inr(2))
  show ?thesis
  proof (cases "clean_text ref \<in> set (references_of ?t i)")
    case True
    then show ?thesis using st False by (simp add: with_reference_def children_def insert_absorb)
  next
    case new: False
    with st have "db_tabs s' = ?t\<lparr>t_references := t_references ?t @ [\<lparr> rf_message = i, rf_ref = clean_text ref \<rparr>]\<rparr>"
      by (auto dest: with_message_Inr)
    then show ?thesis using False
      by (simp add: with_reference_def children_def but_children_def children_append fun_eq_iff)
  qed
qed

lemma insert_recipient_children:
  assumes "insert_recipient w i kind a s = (Inr (), s')"
  shows "children w (db_tabs s') i = with_recipient w kind a (children w (db_tabs s) i) \<and> but_children w (db_tabs s') i = but_children w (db_tabs s) i"
proof (cases "a_email a = []")
  case True
  then show ?thesis using assms by (simp add: insert_recipient_def with_recipient_def)
next
  case False
  let ?e = "clean_text (to_lower w (a_email a))"
  let ?t = "db_tabs s" and ?row = "\<lparr> rc_message = i, rc_kind = kind, rc_email = ?e, rc_name = null_clean (a_name a) \<rparr>"
  have st: "(if addressee w kind a \<in> set (recipients_of w ?t i) then Inr ((), ?t)
      else with_message i (\<lambda>t. t\<lparr>t_recipients := t_recipients t @ [?row]\<rparr>) ?t) = Inr ((), db_tabs s')"
    using assms[unfolded insert_recipient_def Let_def] False
    by (auto simp only: if_False recipient_known addressee_def[symmetric] dest: pg_modify_Inr(2))
  show ?thesis
  proof (cases "addressee w kind a \<in> set (recipients_of w ?t i)")
    case True
    then show ?thesis using st False by (simp add: with_recipient_def children_def insert_absorb)
  next
    case new: False
    with st have "db_tabs s' = ?t\<lparr>t_recipients := t_recipients ?t @ [?row]\<rparr>"
      by (auto dest: with_message_Inr)
    then show ?thesis using False
      by (simp add: with_recipient_def addressee_def children_def but_children_def children_append fun_eq_iff)
  qed
qed

lemma insert_attachment_children:
  assumes "insert_attachment i a s = (Inr (), s')"
  shows "children w (db_tabs s') i = (\<lambda>(x, y, z). (x, y, z @ [enclosed a])) (children w (db_tabs s) i) \<and>
    but_children w (db_tabs s') i = but_children w (db_tabs s) i"
proof -
  let ?row = "\<lparr> at_id = 0, at_message = i, at_filename = null_clean (an_filename a), at_mime = null_clean (an_mime a),
      at_size = an_size a, at_sha = an_sha a, at_path = an_path a \<rparr>"
  from assms have "attachment_insert_sql ?row (db_tabs s) (db_seqs s) = (Inr (), db_tabs s', db_seqs s')"
    by (auto simp: insert_attachment_def Let_def dest: pg_Inr(2))
  then obtain t' where w: "with_message i (\<lambda>t. t\<lparr>t_attachments := t_attachments t @ [?row\<lparr>at_id := q_attachments (db_seqs s)\<rparr>]\<rparr>) (db_tabs s)
      = Inr ((), t')" and t': "db_tabs s' = t'"
    by (auto simp: attachment_insert_sql_def Let_def split: sum.splits)
  from with_message_Inr[OF w] show ?thesis unfolding t'
    by (simp add: enclosed_def children_def but_children_def children_append fun_eq_iff)
qed

lemma fold_with_reference: "fold with_reference refs c = (fst c \<union> clean_text ` {r \<in> set refs. r \<noteq> []}, snd c)"
  by (induction refs arbitrary: c) (auto simp: with_reference_def)

lemma fold_with_recipient:
  "fold (with_recipient w kind) as c = (fst c, fst (snd c) \<union> addressee w kind ` {a \<in> set as. a_email a \<noteq> []}, snd (snd c))"
  by (induction "as" arbitrary: c) (auto simp: with_recipient_def)

lemma fold_enclosed: "fold (\<lambda>a (x, y, z). (x, y, z @ [enclosed a])) as c = (fst c, fst (snd c), snd (snd c) @ map enclosed as)"
  by (induction "as" arbitrary: c) (auto split: prod.splits)

text \<open>The addresses of a message, by kind.\<close>

definition addressees :: "world \<Rightarrow> message \<Rightarrow> (string \<times> string) set" where
  "addressees w m = addressee w ''to'' ` {a \<in> set (m_to m). a_email a \<noteq> []} \<union>
     addressee w ''cc'' ` {a \<in> set (m_cc m). a_email a \<noteq> []} \<union> addressee w ''bcc'' ` {a \<in> set (m_bcc m). a_email a \<noteq> []}"

lemma insert_children_ok:
  assumes "insert_children w i m s = (Inr (), s')" and "children w (db_tabs s) i = ({}, {}, [])"
  shows "children w (db_tabs s') i = (clean_text ` {r \<in> set (m_references m). r \<noteq> []}, addressees w m, map enclosed (m_attachments m)) \<and>
    but_children w (db_tabs s') i = but_children w (db_tabs s) i"
proof -
  from assms(1) obtain s1 s2 s3 s4 where
    "for_each (insert_reference i) (m_references m) s = (Inr (), s1)"
    "for_each (insert_recipient w i ''to'') (m_to m) s1 = (Inr (), s2)"
    "for_each (insert_recipient w i ''cc'') (m_cc m) s2 = (Inr (), s3)"
    "for_each (insert_recipient w i ''bcc'') (m_bcc m) s3 = (Inr (), s4)"
    "for_each (insert_attachment i) (m_attachments m) s4 = (Inr (), s')"
    by (auto simp: insert_children_def bindE_Inr_iff)
  note steps = for_each_children[where w = w, OF insert_reference_children this(1)] for_each_children[where w = w, OF insert_recipient_children this(2)]
    for_each_children[where w = w, OF insert_recipient_children this(3)] for_each_children[where w = w, OF insert_recipient_children this(4)]
    for_each_children[where w = w, OF insert_attachment_children this(5)]
  show ?thesis using steps assms(2)
    by (simp add: fold_with_reference fold_with_recipient fold_enclosed addressees_def)
qed

lemma insert_children_ok_tabs:
  assumes "insert_children w i m s = (Inr (), s')"
  shows "t_messages (db_tabs s') = t_messages (db_tabs s)" "t_threads (db_tabs s') = t_threads (db_tabs s)"
proof -
  have *: "\<And>w. evolves (same (\<lambda>t. (t_messages t, t_threads t))) (insert_children w i m)"
    unfolding insert_children_def insert_reference_def insert_recipient_def insert_attachment_def Let_def
    by (intro same.ev_bindE same.ev_for_each same.ev_if same.ev_ret same.ev_wrapE same_pg_modify same_pg)
      (auto simp: attachment_insert_sql_def Let_def split: if_splits sum.splits dest!: with_message_Inr)
  show "t_messages (db_tabs s') = t_messages (db_tabs s)" "t_threads (db_tabs s') = t_threads (db_tabs s)"
    using evolves_same[OF *, of w s] assms by simp_all
qed

lemma pg_Inl_tabs: "pg args f s = (Inl e, s') \<Longrightarrow> db_tabs s' = db_tabs s"
  by (auto simp: pg_def pg_run_def split: list.splits option.splits sum.splits prod.splits if_splits)

lemma insert_message_cases:
  assumes "insert_message w now m s = (Inr (i, new), s')"
  obtains s2 s3 where "new" "list_all pg_text_ok (message_args (message_row_of now m))"
      "message_insert_sql (message_row_of now m) (db_tabs s) (db_seqs s) = (Inr i, db_tabs s2, db_seqs s2)"
      "insert_children w i m s2 = (Inr (), s3)" "db_tabs s' = db_tabs s3"
    | "\<not> new" "db_tabs s' = db_tabs s" "\<exists>r \<in> set (t_messages (db_tabs s)). ms_message_id r = m_message_id m \<and> ms_id r = i"
proof -
  let ?row = "message_row_of now m"
  from assms[unfolded insert_message_def Let_def] obtain s1 s3 where
    s1: "db_tabs s1 = db_tabs s" "db_seqs s1 = db_seqs s" and s3: "db_tabs s' = db_tabs s3" and
    body: "tryE (pg (message_args ?row) (message_insert_sql ?row)) (\<lambda>r. case r of
        Inl e \<Rightarrow>
          if err_is e ErrNoRows
          then bindE (pg_row [m_message_id m] (\<lambda>t. map_option ms_id (lookup_by ms_message_id (m_message_id m) (t_messages t))))
                 (\<lambda>i. ret (i, False))
          else fail (ErrWrap ''insert message: '' e [])
      | Inr i \<Rightarrow> bindE (insert_children w i m) (\<lambda>_. ret (i, True))) s1 = (Inr (i, new), s3)"
    by (elim in_tx_ok)
  obtain r s2 where pg: "pg (message_args ?row) (message_insert_sql ?row) s1 = (r, s2)" by fastforce
  show ?thesis
  proof (cases r)
    case (Inl e)
    then have "pg_row [m_message_id m] (\<lambda>t. map_option ms_id (lookup_by ms_message_id (m_message_id m) (t_messages t))) s2 = (Inr i, s3)"
      and "\<not> new" using body pg by (auto simp: tryE_eq bindE_Inr_iff split: if_splits)
    moreover from this(1) have "db_tabs s3 = db_tabs s2" by (rule pg_row_Inr(2))
    moreover have "db_tabs s2 = db_tabs s" using pg Inl s1 by (simp add: pg_Inl_tabs)
    ultimately show ?thesis using that(2) s3 pg_row_Inr(1) by (fastforce dest!: lookup_by_Some)
  next
    case (Inr j)
    then have "insert_children w j m s2 = (Inr (), s3)" "j = i" "new" using body pg by (auto simp: tryE_eq bindE_Inr_iff)
    with that(1) pg[unfolded Inr, THEN pg_Inr(1)] pg[unfolded Inr, THEN pg_Inr(2)] s1 s3 show ?thesis by simp
  qed
qed

lemma insert_message_new:
  assumes "insert_message w now m s = (Inr (i, True), s')"
  shows "t_messages (db_tabs s') = t_messages (db_tabs s) @ [(message_row_of now m)\<lparr>ms_id := i\<rparr>]"
    "t_threads (db_tabs s') = t_threads (db_tabs s)" "i = q_messages (db_seqs s)"
    "m_message_id m \<notin> ms_message_id ` set (t_messages (db_tabs s))"
proof -
  obtain s2 s3 where ins: "message_insert_sql (message_row_of now m) (db_tabs s) (db_seqs s) = (Inr i, db_tabs s2, db_seqs s2)"
    and kids: "insert_children w i m s2 = (Inr (), s3)" and s3: "db_tabs s' = db_tabs s3"
    by (rule insert_message_cases[OF assms]) simp_all
  note f = message_insert_Inr[OF ins] and c = insert_children_ok_tabs[OF kids]
  show "t_messages (db_tabs s') = t_messages (db_tabs s) @ [(message_row_of now m)\<lparr>ms_id := i\<rparr>]"
    "t_threads (db_tabs s') = t_threads (db_tabs s)" "i = q_messages (db_seqs s)"
    "m_message_id m \<notin> ms_message_id ` set (t_messages (db_tabs s))"
    using f(1,2,4) c by (simp_all add: s3 message_row_of_def)
qed

text \<open>A message \<open>InsertMessage\<close> reports as new is stored completely: its row with the cleaned text columns under a fresh id,
  all its non-empty references, recipients (up to letter case) and attachments; the children of every other message, the
  threads and the grantees are what they were.\<close>

lemma insert_message_complete:
  assumes new: "insert_message w now m s = (Inr (i, True), s')" and inv: "schema w (db_tabs s) (db_seqs s)"
  shows "i \<notin> message_ids (db_tabs s) \<and>
    t_messages (db_tabs s') = t_messages (db_tabs s) @ [(message_row_of now m)\<lparr>ms_id := i\<rparr>] \<and>
    children w (db_tabs s') i = (clean_text ` {r \<in> set (m_references m). r \<noteq> []}, addressees w m, map enclosed (m_attachments m)) \<and>
    (\<forall>j. j = i \<or> children w (db_tabs s') j = children w (db_tabs s) j) \<and>
    t_threads (db_tabs s') = t_threads (db_tabs s) \<and> t_grantees (db_tabs s') = t_grantees (db_tabs s)"
proof (rule insert_message_cases[OF new])
  fix s2 s3
  assume ins: "message_insert_sql (message_row_of now m) (db_tabs s) (db_seqs s) = (Inr i, db_tabs s2, db_seqs s2)"
    and kids: "insert_children w i m s2 = (Inr (), s3)" and s3: "db_tabs s' = db_tabs s3"
  note f = message_insert_Inr[OF ins]
  have fresh: "i \<notin> message_ids (db_tabs s)"
    using schema_parts(5)[OF inv] f(1) by (auto simp: ok_messages_def message_ids_def)
  have eq: "children w (db_tabs s2) j = children w (db_tabs s) j" for j
    by (simp add: f(2) children_def references_of_def recipients_of_def attachments_of_def)
  have "rf_message r \<noteq> i" if "r \<in> set (t_references (db_tabs s))" for r
    using that fresh schema_parts(9)[OF inv] by (auto simp: ok_children_def)
  moreover have "rc_message r \<noteq> i" if "r \<in> set (t_recipients (db_tabs s))" for r
    using that fresh schema_parts(9)[OF inv] by (auto simp: ok_children_def)
  moreover have "at_message r \<noteq> i" if "r \<in> set (t_attachments (db_tabs s))" for r
    using that fresh schema_parts(9)[OF inv] by (auto simp: ok_children_def)
  ultimately have "children w (db_tabs s) i = ({}, {}, [])"
    by (auto simp: children_def references_of_def recipients_of_def attachments_of_def)
  then have "children w (db_tabs s2) i = ({}, {}, [])" by (simp add: eq)
  from insert_children_ok[OF kids this] have c: "children w (db_tabs s3) i =
      (clean_text ` {r \<in> set (m_references m). r \<noteq> []}, addressees w m, map enclosed (m_attachments m))"
    and b: "but_children w (db_tabs s3) i = but_children w (db_tabs s2) i" by auto
  have same: "t_messages (db_tabs s3) = t_messages (db_tabs s2)" "t_threads (db_tabs s3) = t_threads (db_tabs s2)"
      "t_grantees (db_tabs s3) = t_grantees (db_tabs s2)"
    and others: "(\<lambda>j. if j = i then ({}, {}, []) else children w (db_tabs s3) j) = (\<lambda>j. if j = i then ({}, {}, []) else children w (db_tabs s2) j)"
    using b unfolding but_children_def prod.inject by simp_all
  have "children w (db_tabs s3) j = children w (db_tabs s) j" if "j \<noteq> i" for j
    using fun_cong[OF others, of j] that by (simp add: eq)
  then have "\<forall>j. j = i \<or> children w (db_tabs s3) j = children w (db_tabs s) j" by blast
  then show ?thesis unfolding s3 using fresh c same f(2) by simp
qed simp

text \<open>inserting a message twice stores it once: a later insert of a message with the same Message-ID, whatever else it says,
  reports the id of the first one, not as new, and changes no table.\<close>

theorem insert_message_once:
  assumes first: "insert_message w now m s = (Inr (i, new), s')" and inv: "schema w (db_tabs s) (db_seqs s)"
    and clean: "db_faults s' = []" and same: "m_message_id m' = m_message_id m"
    and args: "list_all pg_text_ok (message_args (message_row_of now' m'))"
  shows "\<exists>s''. insert_message w now' m' s' = (Inr (i, False), s'') \<and> db_tabs s'' = db_tabs s'"
proof -
  have s': "schema w (db_tabs s') (db_seqs s')" using evolves_schema[OF insert_message_schema inv] first by (metis snd_conv)
  have "\<exists>r \<in> set (t_messages (db_tabs s')). ms_message_id r = m_message_id m \<and> ms_id r = i"
  proof (cases new)
    case True
    then show ?thesis using insert_message_new(1)[of w now m s i s'] first by (simp add: message_row_of_def)
  next
    case False
    then show ?thesis using insert_message_cases[OF first] by metis
  qed
  then obtain r where r: "r \<in> set (t_messages (db_tabs s'))" "ms_message_id r = m_message_id m" "ms_id r = i" by blast
  have "distinct (map ms_message_id (t_messages (db_tabs s')))" using schema_parts(5)[OF s'] by (simp add: ok_messages_def)
  from lookup_by_unique[OF this r(1)] have l: "lookup_by ms_message_id (m_message_id m) (t_messages (db_tabs s')) = Some r"
    by (simp add: r(2))
  let ?row = "message_row_of now' m'" and ?q = "(db_seqs s')\<lparr>q_messages := q_messages (db_seqs s') + 1\<rparr>"
  have mid: "ms_message_id ?row = m_message_id m" by (simp add: message_row_of_def same)
  have "message_insert_sql ?row (db_tabs s') (db_seqs s') = (Inl ErrNoRows, db_tabs s', ?q)"
    using r by (auto simp: message_insert_sql_def Let_def mid list_ex_iff)
  then have pg: "pg (message_args ?row) (message_insert_sql ?row) s' = (Inl ErrNoRows, s'\<lparr>db_seqs := ?q\<rparr>)"
    using args clean by (simp add: pg_clean pg_run_def)
  have "pg_text_ok (m_message_id m)" using args mid by (simp add: message_args_def)
  then show ?thesis unfolding insert_message_def Let_def
    by (subst in_tx_clean) (simp_all add: clean tryE_eq pg same clean_simps l r(3))
qed

section \<open>Examples\<close>

text \<open>Grantee \<open>ann\<close> and one open thread; a message of that thread.\<close>

definition demo_thread :: thread_row where
  "demo_thread = \<lparr> th_id = 1, th_root = ''r@x'', th_subject = Some ''hi'', th_grantee = None, th_first = 5, th_last = 5 \<rparr>"

definition demo_mail :: db where
  "demo_mail = demo_db\<lparr>db_tabs := (db_tabs demo_db)\<lparr>t_threads := [demo_thread]\<rparr>, db_seqs := first_seqs\<lparr>q_threads := 2\<rparr>\<rparr>"

definition demo_message :: message where
  "demo_message = \<lparr> m_id = 0, m_message_id = ''m@x'', m_thread = 1, m_grantee = None, m_folder = ''IN'', m_uid = 7, m_uid_validity = 3,
     m_in_reply_to = [], m_references = [''r@x''], m_from = \<lparr> a_name = [], a_email = ''bob@x'' \<rparr>,
     m_to = [\<lparr> a_name = [], a_email = ''Ann@x'' \<rparr>], m_cc = [], m_bcc = [], m_subject = ''Hi'', m_date = 6000000000,
     m_body_text = ''yes'', m_body_html = [], m_size = 3, m_attachments = [] \<rparr>"

definition demo_inserted :: db where
  "demo_inserted = snd (insert_message demo_world 9 demo_message demo_mail)"

lemma demo_insert: "insert_message demo_world 9 demo_message demo_mail = (Inr (1, True), demo_inserted)"
proof -
  have "fst (insert_message demo_world 9 demo_message demo_mail) = Inr (1, True)" by code_simp
  then show ?thesis unfolding demo_inserted_def by (rule pair_of_fst)
qed

lemma demo_mail_schema: "schema w (db_tabs demo_mail) (db_seqs demo_mail)"
  by (simp add: demo_mail_def demo_thread_def demo_simps schema_def ok_defs grantee_status_ok_def thread_ids_def first_seqs_def)

theorem insert_message_once_witness:
  "fst (insert_message demo_world 12 (demo_message\<lparr>m_uid := 8, m_subject := ''other''\<rparr>) demo_inserted) = Inr (1, False)"
proof -
  have "db_faults demo_inserted = []" by code_simp
  moreover have "list_all pg_text_ok (message_args (message_row_of 12 (demo_message\<lparr>m_uid := 8, m_subject := ''other''\<rparr>)))" by code_simp
  ultimately show ?thesis
    using insert_message_once[OF demo_insert demo_mail_schema, where now' = 12 and m' = "demo_message\<lparr>m_uid := 8, m_subject := ''other''\<rparr>"]
    by auto
qed

end
