(* ===== verification/JsonArrays.thy ===== *)
theory JsonArrays
  imports JsonFields StoreMail
begin

text \<open>
  \<open>encoding/json\<close> on the two columns that hold a list of addresses: an array of objects with the string fields \<open>name\<close> and
  \<open>email\<close>. The elements of a top-level array are read off with the scanner, as the members of an object are in
  \<open>JsonFields\<close>; \<open>decode_marshal_addresses\<close> is the round trip.
\<close>

section \<open>Reading an array\<close>

fun elements_from :: "jstate \<Rightarrow> string \<Rightarrow> string \<Rightarrow> string list" where
  "elements_from st v [] = []"
| "elements_from st v (c # s) =
     (case jstep st c of None \<Rightarrow> []
      | Some (skip, st') \<Rightarrow>
          if snd st = [] then elements_from st' [] s
          else if snd st = [FArr] \<and> c = CHR '','' \<and> st' = (JVal, [FArr]) then v # elements_from st' [] s
          else if snd st = [FArr] \<and> st' = (JTop, []) then (if v = [] then [] else [v])
          else if skip then elements_from st' v s
          else elements_from st' (v @ [c]) s)"

definition json_elements :: "string \<Rightarrow> string list" where
  "json_elements s = elements_from json_start [] s"

text \<open>Unmarshalling into an \<open>Address\<close> that was zero; the caller ignores errors and keeps what was decoded.\<close>

definition address_fields :: "string list" where
  "address_fields = [''name'', ''email'']"

definition decode_address :: "string \<Rightarrow> address" where
  "decode_address raw =
     (case raw of
        c # _ \<Rightarrow>
          if c = CHR ''{''
          then (let m = snd (fold (decode_member address_fields) (json_members raw) (False, (\<lambda>_. [])))
                in \<lparr> a_name = m ''name'', a_email = m ''email'' \<rparr>)
          else \<lparr> a_name = [], a_email = [] \<rparr>
      | [] \<Rightarrow> \<lparr> a_name = [], a_email = [] \<rparr>)"

text \<open>\<open>if blob != "" { _ = json.Unmarshal([]byte(blob), &addrs) }\<close> on a nil slice.\<close>

definition decode_addresses :: "string \<Rightarrow> address list" where
  "decode_addresses blob =
     (if blob = [] \<or> \<not> json_valid blob then []
      else (case json_compact blob of
          Some (c # _) \<Rightarrow> if c = CHR ''['' then map decode_address (json_elements blob) else []
        | _ \<Rightarrow> []))"

section \<open>Scanning an object inside an array\<close>

lemma str_run_elements:
  assumes "in_str st" and "str_run st x"
  shows "elements_from (st, f # FArr # fs) v (x @ t) = elements_from (JStr, f # FArr # fs) (v @ x) t"
  using assms
proof (induction x arbitrary: st v)
  case Nil
  then show ?case by simp
next
  case (Cons c x)
  from Cons.prems obtain b st' fs' where s: "jstep (st, []) c = Some (b, st', fs')"
    and st': "st' \<noteq> JEnd" "str_run st' x" by (auto split: option.splits prod.splits)
  note * = in_str_step[OF Cons.prems(1) s]
  have "in_str st'" using * st' by blast
  from Cons.IH[OF this st'(2)] *(1) show ?case by simp
qed

lemma elements_quote:
  assumes "st = JKey \<or> st = JKeyOrEmpty \<or> st = JVal"
  shows "elements_from (st, f # FArr # fs) v (quote_json x @ t) = elements_from (JEnd, f # FArr # fs) (v @ quote_json x) t"
  using assms str_run_elements[OF _ str_run_escape]
  by (auto simp: quote_cons begin_string_def begin_value_def is_jspace_def quote_json_def)

lemma elements_field:
  assumes "st = JKey \<or> st = JKeyOrEmpty"
  shows "elements_from (st, [FKey, FArr]) v (field_text kv @ t) = elements_from (JEnd, [FVal, FArr]) (v @ field_text kv) t"
  using assms by (auto simp: field_text_def elements_quote is_jspace_def)

lemma elements_rest:
  "elements_from (JEnd, [FVal, FArr]) v (more_fields kvs @ CHR ''}'' # t) = elements_from (JEnd, [FArr]) (v @ more_fields kvs @ ''}'') t"
proof (induction kvs arbitrary: v)
  case Nil
  then show ?case by (simp add: is_jspace_def pop_frame_def)
next
  case (Cons kv kvs)
  then show ?case by (simp add: is_jspace_def pop_frame_def elements_field)
qed

lemma elements_object:
  assumes "st = JVal \<or> st = JValOrEmpty"
  shows "elements_from (st, [FArr]) [] (marshal_fields kvs @ t) = elements_from (JEnd, [FArr]) (marshal_fields kvs) t"
  using assms
proof (cases kvs)
  case Nil
  then show ?thesis using assms
    by (auto simp: marshal_fields_def join_fields[unfolded list.map] begin_value_def is_jspace_def push_frame_def max_nesting_def pop_frame_def)
next
  case (Cons kv rest)
  then show ?thesis using assms elements_rest[of "CHR ''{'' # field_text kv" rest t]
    by (auto simp: marshal_fields_def join_fields[unfolded list.map] begin_value_def is_jspace_def push_frame_def max_nesting_def
        elements_field)
qed

lemma compact_rest_in:
  "compact_from False 0 (JEnd, [FVal, FArr]) (more_fields kvs @ CHR ''}'' # t) =
   map_option (\<lambda>r. more_fields kvs @ CHR ''}'' # r) (compact_from False 0 (JEnd, [FArr]) t)"
proof (induction kvs)
  case Nil
  then show ?case by (simp add: is_jspace_def pop_frame_def)
next
  case (Cons kv kvs)
  then show ?case by (simp add: is_jspace_def pop_frame_def compact_field option.map_comp comp_def)
qed

lemma compact_object:
  assumes "st = JVal \<or> st = JValOrEmpty"
  shows "compact_from False 0 (st, [FArr]) (marshal_fields kvs @ t) =
    map_option (\<lambda>r. marshal_fields kvs @ r) (compact_from False 0 (JEnd, [FArr]) t)"
  using assms
proof (cases kvs)
  case Nil
  then show ?thesis using assms
    by (auto simp: marshal_fields_def join_fields[unfolded list.map] begin_value_def is_jspace_def push_frame_def max_nesting_def pop_frame_def
        option.map_comp comp_def)
next
  case (Cons kv rest)
  then show ?thesis using assms compact_rest_in[of rest t]
    by (auto simp: marshal_fields_def join_fields[unfolded list.map] begin_value_def is_jspace_def push_frame_def max_nesting_def
        compact_field option.map_comp comp_def)
qed

section \<open>Round trip\<close>

primrec more_objects :: "(string \<times> string) list list \<Rightarrow> string" where
  "more_objects [] = []"
| "more_objects (o1 # os) = CHR '','' # marshal_fields o1 @ more_objects os"

lemma join_objects: "join_with '','' (map marshal_fields (o1 # os)) = marshal_fields o1 @ more_objects os"
proof -
  have "concat (map (\<lambda>q. '','' @ q) (map marshal_fields os)) = more_objects os" by (induction os) simp_all
  then show ?thesis by (simp add: join_with_def comp_def)
qed

lemma elements_objects:
  "v \<noteq> [] \<Longrightarrow> elements_from (JEnd, [FArr]) v (more_objects os @ '']'') = v # map marshal_fields os"
proof (induction os arbitrary: v)
  case Nil
  then show ?case by (simp add: is_jspace_def pop_frame_def)
next
  case (Cons o1 os)
  have "marshal_fields o1 \<noteq> []" by (simp add: marshal_fields_def)
  then show ?case using Cons by (simp add: is_jspace_def elements_object)
qed

lemma compact_objects:
  "compact_from False 0 (JEnd, [FArr]) (more_objects os @ '']'') = Some (more_objects os @ '']'')"
proof (induction os)
  case Nil
  then show ?case by (simp add: is_jspace_def pop_frame_def at_end_def)
next
  case (Cons o1 os)
  then show ?case by (simp add: is_jspace_def compact_object)
qed

lemma array_compact: "json_compact (''['' @ marshal_fields o1 @ more_objects os @ '']'') = Some (''['' @ marshal_fields o1 @ more_objects os @ '']'')"
  by (simp add: json_compact_def json_start_def begin_value_def is_jspace_def push_frame_def max_nesting_def compact_object compact_objects)

lemma array_elements: "json_elements (''['' @ marshal_fields o1 @ more_objects os @ '']'') = marshal_fields o1 # map marshal_fields os"
proof -
  have "marshal_fields o1 \<noteq> []" by (simp add: marshal_fields_def)
  then show ?thesis
    by (simp add: json_elements_def json_start_def begin_value_def is_jspace_def push_frame_def max_nesting_def elements_object elements_objects)
qed

definition address_pairs :: "address \<Rightarrow> (string \<times> string) list" where
  "address_pairs a = omit_empty ''name'' (a_name a) @ [(''email'', a_email a)]"

lemma marshal_address_fields: "marshal_address a = marshal_fields (address_pairs a)"
  by (simp add: marshal_address_def address_pairs_def)

lemma decode_marshal_address:
  assumes "valid_utf8 (a_name a)" and "valid_utf8 (a_email a)"
  shows "decode_address (marshal_address a) = a"
proof -
  have keys: "valid_utf8 ''name''" "valid_utf8 ''email''" by code_simp+
  have "fold (decode_member address_fields) (map quoted (address_pairs a)) (False, (\<lambda>_. [])) =
      (False, \<lambda>n. case map_of (rev (address_pairs a)) n of Some v \<Rightarrow> v | None \<Rightarrow> [])"
    by (rule decode_members_marshal) (auto simp: address_pairs_def address_fields_def omit_empty_def assms keys)
  moreover obtain r where "marshal_fields (address_pairs a) = CHR ''{'' # r" by (simp add: marshal_fields_def)
  ultimately show ?thesis
    using json_members_marshal[of "address_pairs a"]
    by (simp add: decode_address_def marshal_address_fields Let_def) (simp add: address_pairs_def omit_empty_def)
qed

text \<open>The address columns read back: a list of addresses with valid UTF-8 names and emails, marshalled as \<open>InsertMessage\<close> stores it,
  is decoded to the same list.\<close>

lemma decode_marshal_addresses:
  assumes "list_all (\<lambda>a. valid_utf8 (a_name a) \<and> valid_utf8 (a_email a)) xs"
  shows "decode_addresses (marshal_addresses xs) = xs"
proof (cases xs)
  case Nil
  have "json_compact ''null'' = Some ''null''" by code_simp
  then show ?thesis using Nil by (simp add: decode_addresses_def marshal_addresses_def json_valid_def)
next
  case (Cons a as)
  let ?s = "''['' @ marshal_fields (address_pairs a) @ more_objects (map address_pairs as) @ '']''"
  have "map marshal_address as = map marshal_fields (map address_pairs as)" by (simp add: marshal_address_fields)
  then have "map marshal_address (a # as) = map marshal_fields (address_pairs a # map address_pairs as)"
    by (simp add: marshal_address_fields)
  then have "marshal_addresses xs = ?s"
    by (simp only: marshal_addresses_def Cons join_objects) simp
  moreover have "map decode_address (marshal_fields (address_pairs a) # map marshal_fields (map address_pairs as)) = xs"
    using assms decode_marshal_address[unfolded marshal_address_fields] by (auto simp: Cons list_all_iff intro: map_idI)
  ultimately show ?thesis
    using array_compact[of "address_pairs a" "map address_pairs as"] array_elements[of "address_pairs a" "map address_pairs as"]
    by (simp add: decode_addresses_def json_valid_def del: append_Cons append.simps) simp
qed

end
