(* ===== verification/StoreDocs.thy ===== *)
theory StoreDocs
  imports StoreNotes
begin

text \<open>
  \<open>internal/store/store.go\<close>, the documents exported from Drive and the \<open>sync_state\<close> table with the cycle counter.

  A sync cycle stamps every document it sees with its cycle number; \<open>MarkUnseenStale\<close> then retires the active
  documents that carry an older stamp.
\<close>

section \<open>Data\<close>

record doc =
  d_id :: string
  d_grantee :: string
  d_title :: string
  d_owner :: string
  d_content :: string
  d_modified :: gotime
  d_synced :: gotime
  d_source_type :: string
  d_source_drive :: string
  d_images :: bool
  d_comments :: bool
  d_status :: string
  d_error :: string

record doc_summary =
  ds_id :: string
  ds_title :: string
  ds_modified :: gotime
  ds_synced :: gotime
  ds_images :: bool
  ds_comments :: bool
  ds_status :: string

section \<open>Documents\<close>

definition doc_of_row :: "doc_row \<Rightarrow> doc" where
  "doc_of_row r = \<lparr> d_id = dc_id r, d_grantee = dc_grantee r, d_title = dc_title r, d_owner = dc_owner r,
     d_content = dc_content r, d_modified = from_unix (dc_modified r), d_synced = from_unix (dc_synced r),
     d_source_type = dc_source_type r, d_source_drive = dc_source_drive r, d_images = dc_had_images r,
     d_comments = dc_had_comments r, d_status = dc_status r, d_error = coalesce (dc_last_error r) \<rparr>"

definition get_doc_by_id :: "string \<Rightarrow> doc dbm" where
  "get_doc_by_id i = wrapE not_found (pg_row [i] (\<lambda>t. map_option doc_of_row (lookup_by dc_id i (t_docs t))))"

definition get_doc_for_grantee :: "string \<Rightarrow> string \<Rightarrow> doc dbm" where
  "get_doc_for_grantee gid i =
     wrapE not_found (pg_row [i, gid] (\<lambda>t.
       map_option doc_of_row (lookup_by dc_id i (filter (\<lambda>r. dc_grantee r = gid) (t_docs t)))))"

text \<open>The row \<open>UpsertDoc\<close> writes; an update keeps nothing of the old row but its id.\<close>

definition row_of_doc :: "world \<Rightarrow> int \<Rightarrow> doc \<Rightarrow> int \<Rightarrow> doc_row" where
  "row_of_doc w now d cycle = \<lparr> dc_id = d_id d, dc_grantee = d_grantee d, dc_title = d_title d,
     dc_owner = to_lower w (d_owner d), dc_content = d_content d, dc_modified = unix (d_modified d), dc_synced = now,
     dc_source_type = d_source_type d, dc_source_drive = d_source_drive d, dc_had_images = d_images d,
     dc_had_comments = d_comments d, dc_status = (if d_status d = [] then status_active else d_status d),
     dc_last_error = null_str (d_error d), dc_cycle = Some cycle \<rparr>"

definition doc_args :: "doc_row \<Rightarrow> string list" where
  "doc_args r = [dc_id r, dc_grantee r, dc_title r, dc_owner r, dc_content r, dc_source_type r, dc_source_drive r,
     dc_status r] @ opt_arg (dc_last_error r)"

definition put_doc :: "doc_row \<Rightarrow> tables \<Rightarrow> err + unit \<times> tables" where
  "put_doc r t =
     (if \<not> doc_status_ok (dc_status r) then Inl check_violation
      else if \<not> has_grantee t (dc_grantee r) then Inl fk_violation
      else Inr ((), t\<lparr>t_docs := upsert_by dc_id (\<lambda>x. r\<lparr>dc_id := dc_id x\<rparr>) r (t_docs t)\<rparr>))"

definition upsert_doc :: "world \<Rightarrow> int \<Rightarrow> doc \<Rightarrow> int \<Rightarrow> unit dbm" where
  "upsert_doc w now d cycle =
     (if d_id d = [] \<or> d_grantee d = [] then fail (ErrNew ''doc_id and grantee_id required'')
      else let r = row_of_doc w now d cycle in pg_modify (doc_args r) (put_doc r))"

definition update_docs :: "(doc_row \<Rightarrow> bool) \<Rightarrow> (doc_row \<Rightarrow> doc_row) \<Rightarrow> tables \<Rightarrow> err + int \<times> tables" where
  "update_docs P f t = Inr (count_where P (t_docs t), t\<lparr>t_docs := update_where P f (t_docs t)\<rparr>)"

definition touch_doc_seen :: "int \<Rightarrow> string \<Rightarrow> int \<Rightarrow> unit dbm" where
  "touch_doc_seen now i cycle =
     bindE (pg_modify [i] (update_docs (\<lambda>r. dc_id r = i)
         (\<lambda>r. r\<lparr>dc_cycle := Some cycle, dc_synced := now, dc_status := ''active'', dc_last_error := None\<rparr>)))
       require_one_row"

definition mark_doc_stale :: "string \<Rightarrow> string \<Rightarrow> unit dbm" where
  "mark_doc_stale i msg =
     bindE (pg_modify (opt_arg (null_str msg) @ [i]) (update_docs (\<lambda>r. dc_id r = i)
         (\<lambda>r. r\<lparr>dc_status := ''stale'', dc_last_error := null_str msg\<rparr>))) (\<lambda>_. ret ())"

definition mark_doc_error :: "string \<Rightarrow> string \<Rightarrow> unit dbm" where
  "mark_doc_error i msg =
     bindE (pg_modify (opt_arg (null_str msg) @ [i]) (update_docs (\<lambda>r. dc_id r = i)
         (\<lambda>r. r\<lparr>dc_status := ''error'', dc_last_error := null_str msg\<rparr>))) (\<lambda>_. ret ())"

text \<open>The \<open>WHERE\<close> clause of \<open>MarkUnseenStale\<close>.\<close>

definition unseen :: "tables \<Rightarrow> int \<Rightarrow> doc_row \<Rightarrow> bool" where
  "unseen t cycle r \<longleftrightarrow> dc_status r = ''active'' \<and>
     (case dc_cycle r of None \<Rightarrow> True | Some c \<Rightarrow> c < cycle) \<and>
     list_ex (\<lambda>g. gr_status g = ''active'' \<and> gr_id g = dc_grantee r) (t_grantees t) \<and>
     list_ex (\<lambda>x. so_drive x = dc_source_drive r) (t_sources t)"

definition mark_unseen_stale :: "int \<Rightarrow> int dbm" where
  "mark_unseen_stale cycle =
     pg_modify [] (\<lambda>t. update_docs (unseen t cycle)
       (\<lambda>r. r\<lparr>dc_status := ''stale'', dc_last_error := Some ''not seen in last sync cycle''\<rparr>) t)"

definition docs_limit :: "int \<Rightarrow> nat" where
  "docs_limit n = nat (if n \<le> 0 \<or> n > 500 then 50 else n)"

definition summary_of_doc :: "doc_row \<Rightarrow> doc_summary" where
  "summary_of_doc r = \<lparr> ds_id = dc_id r, ds_title = dc_title r, ds_modified = from_unix (dc_modified r),
     ds_synced = from_unix (dc_synced r), ds_images = dc_had_images r, ds_comments = dc_had_comments r,
     ds_status = dc_status r \<rparr>"

definition docs_page :: "world \<Rightarrow> tables \<Rightarrow> string \<Rightarrow> int \<Rightarrow> int \<Rightarrow> doc_summary list \<times> int" where
  "docs_page w t gid limit cursor =
     (let n = docs_limit limit;
          hits = filter (\<lambda>r. dc_grantee r = gid \<and> (cursor = 0 \<or> dc_modified r < cursor)) (t_docs t)
      in cut_page (\<lambda>d. unix (ds_modified d)) n
           (map summary_of_doc (take (n + 1) (rev (sort_key (\<lambda>r. (dc_modified r, text_order w (dc_id r))) hits)))))"

definition list_docs_for_grantee :: "world \<Rightarrow> string \<Rightarrow> int \<Rightarrow> int \<Rightarrow> (doc_summary list \<times> int) dbm" where
  "list_docs_for_grantee w gid limit cursor = pg_read [gid] (\<lambda>t. docs_page w t gid limit cursor)"

section \<open>Sync state\<close>

text \<open>Go's \<open>int64\<close> addition wraps; the error text of \<open>strconv.ParseInt\<close>.\<close>

definition wrap64 :: "int \<Rightarrow> int" where
  "wrap64 i = sint (word_of_int i :: 64 word)"

definition parse_int_error :: "string \<Rightarrow> err" where
  "parse_int_error s =
     (let digits = (case s of [] \<Rightarrow> [] | c # r \<Rightarrow> if c = CHR ''-'' \<or> c = CHR ''+'' then r else s) in
      ErrNew (''strconv.ParseInt: parsing '' @ go_quote s @
        (if digits \<noteq> [] \<and> list_all is_digit digits then '': value out of range'' else '': invalid syntax'')))"

definition sync_value :: "string \<Rightarrow> tables \<Rightarrow> string option option" where
  "sync_value k t = map_option sy_value (lookup_by sy_key k (t_sync t))"

definition put_sync :: "string \<Rightarrow> string \<Rightarrow> tables \<Rightarrow> err + unit \<times> tables" where
  "put_sync k v t = Inr ((), t\<lparr>t_sync := upsert_by sy_key (\<lambda>r. r\<lparr>sy_value := Some v\<rparr>)
     \<lparr> sy_key = k, sy_value = Some v \<rparr> (t_sync t)\<rparr>)"

text \<open>The counter before: 0 if there is no row or no value.\<close>

definition cycle_value :: "err + string option \<Rightarrow> err + int" where
  "cycle_value r = (case r of
       Inl e \<Rightarrow> if err_is e ErrNoRows then Inr 0 else Inl e
     | Inr None \<Rightarrow> Inr 0
     | Inr (Some v) \<Rightarrow> (case parse_int64 v of
           None \<Rightarrow> Inl (ErrWrap (''parse cycle_counter '' @ go_quote v @ '': '') (parse_int_error v) [])
         | Some n \<Rightarrow> Inr n))"

definition next_cycle_id :: "int dbm" where
  "next_cycle_id = in_tx (
     tryE (pg_row [] (sync_value ''cycle_counter'')) (\<lambda>r. case cycle_value r of
         Inl e \<Rightarrow> fail e
       | Inr current \<Rightarrow> (let n = wrap64 (current + 1) in
           bindE (pg_modify [int_text n] (put_sync ''cycle_counter'' (int_text n))) (\<lambda>_. ret n))))"

definition set_last_successful_sync :: "gotime \<Rightarrow> unit dbm" where
  "set_last_successful_sync t =
     pg_modify [int_text (unix t)] (put_sync ''last_successful_sync'' (int_text (unix t)))"

text \<open>A failed query leaves \<open>raw\<close> invalid, so the first test already answers it.\<close>

definition last_successful_sync :: "gotime dbm" where
  "last_successful_sync =
     tryE (pg_row [] (sync_value ''last_successful_sync'')) (\<lambda>r.
       let raw = (case r of Inl _ \<Rightarrow> None | Inr v \<Rightarrow> v) in
       if (case r of Inl e \<Rightarrow> err_is e ErrNoRows | Inr _ \<Rightarrow> False) \<or> raw = None then ret zero_time
       else (case r of Inl e \<Rightarrow> fail e
         | Inr _ \<Rightarrow> (case parse_int64 (the raw) of
             None \<Rightarrow> fail (ErrWrap (''parse last_successful_sync '' @ go_quote (the raw) @ '': '') (parse_int_error (the raw)) [])
           | Some n \<Rightarrow> ret (from_unix n))))"

section \<open>Constraints and frames\<close>

lemma ok_docs_upsert:
  assumes "ok_docs G rs" and "dc_grantee r \<in> G" and "doc_status_ok (dc_status r)"
  shows "ok_docs G (upsert_by dc_id (\<lambda>x. r\<lparr>dc_id := dc_id x\<rparr>) r rs)"
  using assms unfolding ok_docs_def by (intro conjI distinct_upsert_by ball_upsert_by) auto

lemma ok_docs_update:
  assumes "ok_docs G rs" and "\<And>x. dc_id (f x) = dc_id x" and "\<And>x. dc_grantee (f x) = dc_grantee x"
    and "\<And>x. doc_status_ok (dc_status (f x))"
  shows "ok_docs G (update_where P f rs)"
  using assms unfolding ok_docs_def by (intro conjI ball_update_where) (auto simp: map_key_update_where)

lemma doc_ops_schema [evolve]:
  "evolves (schema_step w) (upsert_doc w' now d cycle)" "evolves (schema_step w) (touch_doc_seen now i cycle)"
  "evolves (schema_step w) (mark_doc_stale i msg)" "evolves (schema_step w) (mark_doc_error i msg)"
  "evolves (schema_step w) (mark_unseen_stale cycle)"
  unfolding upsert_doc_def touch_doc_seen_def mark_doc_stale_def mark_doc_error_def mark_unseen_stale_def
    require_one_row_def Let_def
  by (intro schema.ev_if schema.ev_fail schema.ev_ret schema.ev_bindE schema_pg_modify;
      auto simp: put_doc_def update_docs_def has_grantee_def schema_parts doc_status_ok_def split: if_splits
        intro!: schema_set(6) ok_docs_upsert ok_docs_update)+

lemma schema_sync:
  "schema w t q \<Longrightarrow> distinct (map sy_key rs) \<Longrightarrow> schema w (t\<lparr>t_sync := rs\<rparr>) q"
  unfolding schema_def grantee_ids_def thread_ids_def
  by (auto simp: ok_children_def ok_keys_def message_ids_def)

lemma put_sync_Inr: "put_sync k v t = Inr (x, t') \<Longrightarrow> t' = t\<lparr>t_sync := upsert_by sy_key (\<lambda>r. r\<lparr>sy_value := Some v\<rparr>)
     \<lparr> sy_key = k, sy_value = Some v \<rparr> (t_sync t)\<rparr>"
  by (simp add: put_sync_def)

lemma put_sync_schema: "put_sync k v t = Inr (x, t') \<Longrightarrow> schema w t q \<Longrightarrow> schema w t' q"
  by (frule schema_parts(10)) (auto simp: ok_keys_def dest!: put_sync_Inr intro!: schema_sync distinct_upsert_by)

lemma put_sync_value: "put_sync k v t = Inr (x, t') \<Longrightarrow> sync_value k t' = Some (Some v)"
  using lookup_by_upsert_same[of sy_key "\<lambda>r. r\<lparr>sy_value := Some v\<rparr>" "\<lparr> sy_key = k, sy_value = Some v \<rparr>" "t_sync t"]
  by (auto simp: sync_value_def dest!: put_sync_Inr split: option.splits)

lemma sync_ops_schema [evolve]:
  "evolves (schema_step w) next_cycle_id" "evolves (schema_step w) (set_last_successful_sync t)"
  unfolding next_cycle_id_def set_last_successful_sync_def Let_def
  by (intro schema.ev_in_tx schema.ev_tryE schema.ev_case_sum schema.ev_fail schema.ev_ret schema.ev_bindE
      schema.ev_pg_row schema_pg_modify; erule (1) put_sync_schema)+

text \<open>Documents and sync state are apart from everything else.\<close>

definition but_docs :: "tables \<Rightarrow> tables" where
  "but_docs t = t\<lparr>t_docs := [], t_sync := []\<rparr>"

lemma but_docs_fields [simp]:
  "t_grantees (but_docs t) = t_grantees t" "t_emails (but_docs t) = t_emails t" "t_sources (but_docs t) = t_sources t"
  "t_threads (but_docs t) = t_threads t" "t_messages (but_docs t) = t_messages t" "t_actions (but_docs t) = t_actions t"
  "t_users (but_docs t) = t_users t" "t_notes (but_docs t) = t_notes t"
  by (simp_all add: but_docs_def)

lemma doc_ops_apart [evolve]:
  "evolves (same but_docs) (upsert_doc w now d cycle)" "evolves (same but_docs) (touch_doc_seen now i cycle)"
  "evolves (same but_docs) (mark_doc_stale i msg)" "evolves (same but_docs) (mark_doc_error i msg)"
  "evolves (same but_docs) (mark_unseen_stale cycle)" "evolves (same but_docs) next_cycle_id"
  "evolves (same but_docs) (set_last_successful_sync tm)"
  unfolding upsert_doc_def touch_doc_seen_def mark_doc_stale_def mark_doc_error_def mark_unseen_stale_def
    require_one_row_def next_cycle_id_def set_last_successful_sync_def Let_def
  by (intro same.ev_if same.ev_fail same.ev_ret same.ev_bindE same.ev_in_tx same.ev_tryE same.ev_case_sum
      same.ev_pg_row same_pg_modify; auto simp: put_doc_def update_docs_def put_sync_def but_docs_def split: if_splits)+

section \<open>The cycle counter\<close>

lemma wrap64_bounds: "- (2 ^ 63) \<le> wrap64 i" "wrap64 i < 2 ^ 63"
  using sint_range_size[of "word_of_int i :: 64 word"] by (simp_all add: wrap64_def word_size)

lemma wrap64_id: "- (2 ^ 63) \<le> i \<Longrightarrow> i < 2 ^ 63 \<Longrightarrow> wrap64 i = i"
  by (simp add: wrap64_def int_word_sint)

lemma next_cycle_stores:
  assumes "next_cycle_id s = (Inr n, s')"
  shows "sync_value ''cycle_counter'' (db_tabs s') = Some (Some (int_text n)) \<and> - (2 ^ 63) \<le> n \<and> n < 2 ^ 63 \<and>
    (\<forall>v. sync_value ''cycle_counter'' (db_tabs s) = Some (Some v) \<longrightarrow>
       (\<exists>c. parse_int64 v = Some c \<and> n = wrap64 (c + 1)))"
proof -
  from assms[unfolded next_cycle_id_def] obtain s1 s2 where t: "db_tabs s1 = db_tabs s" "db_tabs s' = db_tabs s2"
    and run: "tryE (pg_row [] (sync_value ''cycle_counter'')) (\<lambda>r. case cycle_value r of
         Inl e \<Rightarrow> fail e
       | Inr current \<Rightarrow> (let n = wrap64 (current + 1) in
           bindE (pg_modify [int_text n] (put_sync ''cycle_counter'' (int_text n))) (\<lambda>_. ret n))) s1 = (Inr n, s2)"
    by (elim in_tx_ok)
  obtain r s3 where r: "pg_row [] (sync_value ''cycle_counter'') s1 = (r, s3)" by fastforce
  have t3: "db_tabs s3 = db_tabs s1" by (metis r pg_row_tabs snd_conv)
  from run r obtain c where c: "cycle_value r = Inr c" and n: "n = wrap64 (c + 1)"
    and m: "pg_modify [int_text n] (put_sync ''cycle_counter'' (int_text n)) s3 = (Inr (), s2)"
    by (auto simp: tryE_eq Let_def bindE_Inr_iff split: sum.splits)
  have "sync_value ''cycle_counter'' (db_tabs s2) = Some (Some (int_text n))"
    by (rule put_sync_value[OF pg_modify_Inr(2)[OF m]])
  moreover have "parse_int64 v = Some c" if "sync_value ''cycle_counter'' (db_tabs s) = Some (Some v)" for v
  proof (cases r)
    case (Inl e)
    then show ?thesis using c r that t(1)
      by (auto simp: pg_row_def pg_def pg_run_def cycle_value_def split: list.splits option.splits if_splits) (case_tac x2; simp)+
  next
    case (Inr x)
    then have "x = Some v" using pg_row_Inr(1)[OF r[unfolded Inr]] that t(1) by simp
    then show ?thesis using c Inr by (auto simp: cycle_value_def split: option.splits)
  qed
  ultimately show ?thesis using n wrap64_bounds t by auto
qed

text \<open>the cycle counter counts: two successive successful \<open>NextCycleID\<close> calls return consecutive numbers (below
  \<open>MaxInt64\<close>), because the first stored its number in a form the second parses back.\<close>

theorem next_cycle_consecutive:
  assumes "next_cycle_id s = (Inr n, s1)" and "next_cycle_id s1 = (Inr m, s2)" and "n < 2 ^ 63 - 1"
  shows "m = n + 1"
proof -
  have n: "sync_value ''cycle_counter'' (db_tabs s1) = Some (Some (int_text n))" "- (2 ^ 63) \<le> n" "n < 2 ^ 63"
    using next_cycle_stores[OF assms(1)] by auto
  then obtain c where "parse_int64 (int_text n) = Some c" "m = wrap64 (c + 1)"
    using next_cycle_stores[OF assms(2)] by blast
  then show ?thesis using parse_int_text[OF n(2,3)] n(2) assms(3) by (simp add: wrap64_id)
qed

text \<open>\<open>LastSuccessfulSync\<close> hides database errors: when its query fails it reports success with the zero time, as if
  there had never been a sync.\<close>

theorem last_sync_hides_errors:
  assumes "db_faults s = Some x # rest"
  shows "fst (last_successful_sync s) = Inr zero_time"
  using assms by (cases x) (simp_all add: last_successful_sync_def tryE_eq pg_row_def pg_def)

theorem last_sync_hides_errors_witness:
  "fst (last_successful_sync (fresh_db\<lparr>db_faults := [Some (DriverFault ''connection refused'')]\<rparr>)) = Inr zero_time"
  by (rule last_sync_hides_errors) simp

text \<open>what was saved as the last successful sync reads back, to the second.\<close>

theorem last_sync_roundtrip:
  assumes "set_last_successful_sync t s = (Inr (), s')" and "db_faults s' = []"
    and "- (2 ^ 63) \<le> unix t" and "unix t < 2 ^ 63"
  shows "last_successful_sync s' = (Inr (from_unix (unix t)), s')"
proof -
  have "sync_value ''last_successful_sync'' (db_tabs s') = Some (Some (int_text (unix t)))"
    by (rule put_sync_value[OF pg_modify_Inr(2)[OF assms(1)[unfolded set_last_successful_sync_def]]])
  then show ?thesis using assms(2) parse_int_text[OF assms(3,4)]
    by (simp add: last_successful_sync_def clean_simps)
qed

definition demo_cycled :: db where
  "demo_cycled = snd (next_cycle_id fresh_db)"

theorem next_cycle_consecutive_witness: "fst (next_cycle_id demo_cycled) = Inr 2"
proof -
  have "fst (next_cycle_id fresh_db) = Inr 1" by code_simp
  then have 1: "next_cycle_id fresh_db = (Inr 1, demo_cycled)" unfolding demo_cycled_def by (rule pair_of_fst)
  have "is_ok (fst (next_cycle_id demo_cycled))" by code_simp
  then obtain m where m: "fst (next_cycle_id demo_cycled) = Inr m" by (auto simp: is_ok_iff)
  show ?thesis using next_cycle_consecutive[OF 1 pair_of_fst[OF m]] m by simp
qed

theorem last_sync_roundtrip_witness:
  "fst (last_successful_sync (snd (set_last_successful_sync 7123456789 fresh_db))) = Inr 7000000000"
proof -
  let ?s = "snd (set_last_successful_sync 7123456789 fresh_db)"
  have u: "unix 7123456789 = 7" by (simp add: unix_def)
  have "fst (set_last_successful_sync 7123456789 fresh_db) = Inr ()" by code_simp
  note set = pair_of_fst[OF this]
  have "db_faults ?s = []" by code_simp
  from last_sync_roundtrip[OF set this] have "last_successful_sync ?s = (Inr (from_unix 7), ?s)"
    by (simp add: u)
  then show ?thesis by (simp add: from_unix_def)
qed

section \<open>A gap in the document listing\<close>

text \<open>Two documents of one grantee with the same modification second, and an older one.\<close>

definition demo_doc :: "string \<Rightarrow> int \<Rightarrow> doc_row" where
  "demo_doc i m = \<lparr> dc_id = i, dc_grantee = ''ann'', dc_title = i, dc_owner = [], dc_content = [], dc_modified = m,
     dc_synced = 0, dc_source_type = ''doc'', dc_source_drive = i, dc_had_images = False, dc_had_comments = False,
     dc_status = ''active'', dc_last_error = None, dc_cycle = Some 1 \<rparr>"

definition demo_docs :: tables where
  "demo_docs = empty_tables\<lparr>t_grantees := [demo_grantee ''ann''], t_docs := [demo_doc ''a'' 9, demo_doc ''b'' 9, demo_doc ''c'' 5]\<rparr>"

text \<open>pagination of documents is not complete: the cursor is the modification second, so documents that share it with
  the last one of a page are skipped. Following the cursors with one document per page misses a document that one
  large page shows.\<close>

theorem docs_pages_skip_ties:
  "map_option (map ds_id) (follow_pages 9 (docs_page demo_world demo_docs ''ann'' 1) 0) = Some [''b'', ''c''] \<and>
   map ds_id (fst (docs_page demo_world demo_docs ''ann'' 10 0)) = [''b'', ''a'', ''c'']"
  by code_simp

end
