(* ===== verification/StoreQueries.thy ===== *)
theory StoreQueries
  imports JsonArrays StoreDocs "HOL-Library.Multiset"
begin

text \<open>
  \<open>internal/store/queries.go\<close>: the read side over grantees, messages and threads.

  Every query is a pure function of the tables (\<open>message_page\<close>, \<open>thread_page\<close>, ...) under a \<open>pg_read\<close>. The
  conditions a query puts into its \<open>WHERE\<close> are predicates on rows; \<open>ILIKE\<close> is a matcher on case-folded
  text. Following the cursors is complete when dates do not decrease with ids (an interpretation of the
  locale \<open>keyset\<close>); \<open>message_pages_skip\<close> shows what is lost otherwise.
\<close>

section \<open>Filters\<close>

definition unassigned_grantee :: string where "unassigned_grantee = ''_unassigned''"

definition grantee_where :: "string \<Rightarrow> (string option \<Rightarrow> bool) option" where
  "grantee_where gid =
     (if gid = [] then None
      else if gid = unassigned_grantee then Some (\<lambda>g. g = None)
      else Some (\<lambda>g. g = Some gid))"

definition where_args :: "string \<Rightarrow> string list" where
  "where_args gid = (if gid = [] \<or> gid = unassigned_grantee then [] else [gid])"

definition in_grantee :: "string \<Rightarrow> string option \<Rightarrow> bool" where
  "in_grantee gid g = (case grantee_where gid of None \<Rightarrow> True | Some p \<Rightarrow> p g)"

text \<open>\<open>LIKE\<close>: \<open>%\<close> stands for any text, \<open>_\<close> for one character, a backslash takes the next byte literally.\<close>

function like :: "string \<Rightarrow> string \<Rightarrow> bool" where
  "like [] s = (s = [])"
| "like (p # ps) s =
     (if p = CHR ''%'' then like ps s \<or> (if s = [] then False else like (p # ps) (tl s))
      else if p = CHR ''_'' then s \<noteq> [] \<and> like ps (drop (max 1 (rune_len s)) s)
      else if p = CHR 0x5C \<and> ps \<noteq> [] then s \<noteq> [] \<and> hd s = hd ps \<and> like (tl ps) (tl s)
      else s \<noteq> [] \<and> hd s = p \<and> like ps (tl s))"
  by pat_completeness auto
termination
  by (relation "measure (\<lambda>(p, s). length p + length s)") auto

declare like.simps(2) [simp del]

definition ilike :: "world \<Rightarrow> string \<Rightarrow> string \<Rightarrow> bool" where
  "ilike w s p = like (citext_key w p) (citext_key w s)"

definition around :: "string \<Rightarrow> string" where
  "around p = ''%'' @ p @ ''%''"

section \<open>Grantees\<close>

definition email_sep :: char where "email_sep = CHR 0x1F"

definition split_emails :: "string \<Rightarrow> string list" where
  "split_emails blob = (if blob = [] then [] else split_on email_sep blob)"

definition string_agg :: "world \<Rightarrow> string list \<Rightarrow> string" where
  "string_agg w xs = (if xs = [] then [] else join_with [email_sep] (w_agg w xs))"

definition emails_of :: "tables \<Rightarrow> string \<Rightarrow> string list" where
  "emails_of t gid = map em_email (filter (\<lambda>e. em_grantee e = gid) (t_emails t))"

definition list_grantees :: "world \<Rightarrow> grantee list dbm" where
  "list_grantees w =
     pg_read [] (\<lambda>t. map (\<lambda>r. (grantee_of_row r)\<lparr>g_emails := split_emails (string_agg w (emails_of t (gr_id r)))\<rparr>)
       (sort_key (\<lambda>r. text_order w (gr_id r)) (t_grantees t)))"

record grantee_summary =
  gs_id :: string
  gs_name :: string
  gs_status :: string
  gs_emails :: "string list"
  gs_docs :: int

definition summary_of_grantee :: "world \<Rightarrow> tables \<Rightarrow> grantee_row \<Rightarrow> grantee_summary" where
  "summary_of_grantee w t r = \<lparr> gs_id = gr_id r, gs_name = coalesce (gr_name r), gs_status = gr_status r,
     gs_emails = split_emails (string_agg w (remdups (emails_of t (gr_id r)))),
     gs_docs = count_where (\<lambda>d. dc_grantee d = gr_id r) (t_docs t) \<rparr>"

definition grantee_summaries :: "world \<Rightarrow> grantee_summary list dbm" where
  "grantee_summaries w =
     pg_read [] (\<lambda>t. map (summary_of_grantee w t) (sort_key (\<lambda>r. text_order w (gr_id r)) (t_grantees t)))"

section \<open>Message summaries\<close>

definition snippet_len :: nat where "snippet_len = 200"

text \<open>\<open>SUBSTR(s, 1, n)\<close> counts characters.\<close>

fun take_runes :: "nat \<Rightarrow> string \<Rightarrow> string" where
  "take_runes 0 s = []"
| "take_runes (Suc n) s =
     (if s = [] then [] else let k = max 1 (rune_len s) in take k s @ take_runes n (drop k s))"

record message_summary =
  sm_id :: int
  sm_message_id :: string
  sm_thread :: int
  sm_grantee :: "string option"
  sm_folder :: string
  sm_from :: address
  sm_subject :: string
  sm_date :: gotime
  sm_attachments :: bool
  sm_snippet :: string

definition summary_of_message :: "tables \<Rightarrow> message_row \<Rightarrow> message_summary" where
  "summary_of_message t r = \<lparr> sm_id = ms_id r, sm_message_id = ms_message_id r, sm_thread = ms_thread r, sm_grantee = ms_grantee r,
     sm_folder = ms_folder r, sm_from = \<lparr> a_name = coalesce (ms_from_name r), a_email = ms_from_addr r \<rparr>,
     sm_subject = coalesce (ms_subject r), sm_date = from_unix (ms_date r),
     sm_attachments = list_ex (\<lambda>a. at_message a = ms_id r) (t_attachments t),
     sm_snippet = trim_space (take_runes snippet_len (coalesce (ms_body_text r))) \<rparr>"

text \<open>\<open>SELECT ... WHERE ... ORDER BY date DESC, id DESC LIMIT limit+1\<close>, then \<open>scanMessageSummaries\<close>.\<close>

definition message_page :: "tables \<Rightarrow> (message_row \<Rightarrow> bool) \<Rightarrow> nat \<Rightarrow> int \<Rightarrow> message_summary list \<times> int" where
  "message_page t P limit cursor =
     (let hits = filter (\<lambda>r. P r \<and> (cursor > 0 \<longrightarrow> ms_id r < cursor)) (t_messages t)
      in cut_page sm_id limit (map (summary_of_message t) (take (limit + 1) (rev (sort_key (\<lambda>r. (ms_date r, ms_id r)) hits)))))"

definition message_dated :: "string \<Rightarrow> gotime option \<Rightarrow> gotime option \<Rightarrow> message_row \<Rightarrow> bool" where
  "message_dated gid since until r \<longleftrightarrow> in_grantee gid (ms_grantee r) \<and> since_ok since (ms_date r) \<and> until_ok until (ms_date r)"

definition list_messages_by_grantee ::
    "string \<Rightarrow> gotime option \<Rightarrow> gotime option \<Rightarrow> int \<Rightarrow> int \<Rightarrow> (message_summary list \<times> int) dbm" where
  "list_messages_by_grantee gid since until limit cursor =
     (if gid = [] then fail (ErrNew ''granteeID is required'')
      else pg_read (where_args gid) (\<lambda>t. message_page t (message_dated gid since until) (clamp_limit limit) cursor))"

section \<open>Searching\<close>

record search_params =
  sp_grantee :: string
  sp_from :: string
  sp_subject :: string
  sp_body :: string
  sp_since :: "gotime option"
  sp_until :: "gotime option"
  sp_limit :: int
  sp_cursor :: int

text \<open>\<open>col ILIKE '%p%'\<close>: not true of NULL; no condition for an empty \<open>p\<close>.\<close>

definition text_filter :: "world \<Rightarrow> string \<Rightarrow> string option \<Rightarrow> bool" where
  "text_filter w p col \<longleftrightarrow> p = [] \<or> (case col of None \<Rightarrow> False | Some s \<Rightarrow> ilike w s (around p))"

definition search_hit :: "world \<Rightarrow> search_params \<Rightarrow> message_row \<Rightarrow> bool" where
  "search_hit w p r \<longleftrightarrow> message_dated (sp_grantee p) (sp_since p) (sp_until p) r \<and>
     text_filter w (sp_from p) (Some (ms_from_addr r)) \<and> text_filter w (sp_subject p) (ms_subject r) \<and>
     text_filter w (sp_body p) (ms_body_text r)"

definition has_filter :: "search_params \<Rightarrow> bool" where
  "has_filter p \<longleftrightarrow> sp_grantee p \<noteq> [] \<or> sp_from p \<noteq> [] \<or> sp_subject p \<noteq> [] \<or> sp_body p \<noteq> [] \<or>
     sp_since p \<noteq> None \<or> sp_until p \<noteq> None \<or> sp_cursor p > 0"

definition search_args :: "search_params \<Rightarrow> string list" where
  "search_args p = where_args (sp_grantee p) @ map around (filter (\<lambda>s. s \<noteq> []) [sp_from p, sp_subject p, sp_body p])"

definition search_messages :: "world \<Rightarrow> search_params \<Rightarrow> (message_summary list \<times> int) dbm" where
  "search_messages w p =
     (if \<not> has_filter p then fail (ErrNew ''at least one search filter is required'')
      else pg_read (search_args p) (\<lambda>t. message_page t (search_hit w p) (clamp_limit (sp_limit p)) (sp_cursor p)))"

section \<open>One message\<close>

record recipient =
  rp_kind :: string
  rp_email :: string
  rp_name :: string

definition list_recipients :: "world \<Rightarrow> int \<Rightarrow> recipient list dbm" where
  "list_recipients w i =
     pg_read [] (\<lambda>t. map (\<lambda>r. \<lparr> rp_kind = rc_kind r, rp_email = rc_email r, rp_name = coalesce (rc_name r) \<rparr>)
       (sort_key (\<lambda>r. (text_order w (rc_kind r), text_order w (citext_key w (rc_email r))))
         (filter (\<lambda>r. rc_message r = i) (t_recipients t))))"

definition attachment_of_row :: "attachment_row \<Rightarrow> attachment" where
  "attachment_of_row r = \<lparr> an_id = at_id r, an_filename = coalesce (at_filename r), an_mime = coalesce (at_mime r),
     an_size = at_size r, an_sha = at_sha r, an_path = at_path r \<rparr>"

definition list_attachments_by_message :: "int \<Rightarrow> attachment list dbm" where
  "list_attachments_by_message i =
     pg_read [] (\<lambda>t. map attachment_of_row (sort_key at_id (filter (\<lambda>r. at_message r = i) (t_attachments t))))"

text \<open>Scanning \<open>messageColumns\<close>: the two UID columns must fit a \<open>uint32\<close>.\<close>

definition message_of_row :: "message_row \<Rightarrow> err + message" where
  "message_of_row r =
     (case scan_u32 (ms_uid r) of
        Inl e \<Rightarrow> Inl e
      | Inr u \<Rightarrow>
         (case scan_u32 (ms_uid_validity r) of
            Inl e \<Rightarrow> Inl e
          | Inr v \<Rightarrow> Inr \<lparr> m_id = ms_id r, m_message_id = ms_message_id r, m_thread = ms_thread r, m_grantee = ms_grantee r,
              m_folder = ms_folder r, m_uid = u, m_uid_validity = v, m_in_reply_to = coalesce (ms_in_reply_to r),
              m_references = (if coalesce (ms_references r) \<noteq> [] then GoText.fields (coalesce (ms_references r)) else []),
              m_from = \<lparr> a_name = coalesce (ms_from_name r), a_email = ms_from_addr r \<rparr>,
              m_to = decode_addresses (ms_to_addrs r), m_cc = decode_addresses (coalesce (ms_cc_addrs r)), m_bcc = [],
              m_subject = coalesce (ms_subject r), m_date = from_unix (ms_date r), m_body_text = coalesce (ms_body_text r),
              m_body_html = coalesce (ms_body_html r), m_size = ms_size r, m_attachments = [] \<rparr>))"

definition message_row_query :: "string \<Rightarrow> message_row dbm" where
  "message_row_query q =
     (case parse_int64 q of
        Some n \<Rightarrow> pg_row [] (\<lambda>t. lookup_by ms_id n (t_messages t))
      | None \<Rightarrow> pg_row [q] (\<lambda>t. lookup_by ms_message_id q (t_messages t)))"

definition get_message :: "world \<Rightarrow> string \<Rightarrow> (message \<times> attachment list \<times> recipient list) option dbm" where
  "get_message w q =
     (if q = [] then fail (ErrNew ''id or message_id required'')
      else tryE (message_row_query q) (\<lambda>r. case r of
        Inl e \<Rightarrow> if err_is e ErrNoRows then ret None else fail e
      | Inr row \<Rightarrow>
          (case message_of_row row of
             Inl e \<Rightarrow> fail e
           | Inr m \<Rightarrow>
               bindE (list_attachments_by_message (m_id m)) (\<lambda>atts.
               bindE (list_recipients w (m_id m)) (\<lambda>recs. ret (Some (m, atts, recs)))))))"

section \<open>Threads\<close>

record thread_summary =
  st_id :: int
  st_root :: string
  st_subject :: string
  st_grantee :: "string option"
  st_first :: gotime
  st_last :: gotime
  st_count :: int

definition summary_of_thread :: "tables \<Rightarrow> thread_row \<Rightarrow> thread_summary" where
  "summary_of_thread t r = \<lparr> st_id = th_id r, st_root = th_root r, st_subject = coalesce (th_subject r), st_grantee = th_grantee r,
     st_first = from_unix (th_first r), st_last = from_unix (th_last r),
     st_count = count_where (\<lambda>m. ms_thread m = th_id r) (t_messages t) \<rparr>"

definition thread_page :: "tables \<Rightarrow> (thread_row \<Rightarrow> bool) \<Rightarrow> nat \<Rightarrow> int \<Rightarrow> thread_summary list \<times> int" where
  "thread_page t P limit cursor =
     (let hits = filter (\<lambda>r. P r \<and> (cursor > 0 \<longrightarrow> th_id r < cursor)) (t_threads t)
      in cut_page st_id limit (map (summary_of_thread t) (take (limit + 1) (rev (sort_key (\<lambda>r. (th_last r, th_id r)) hits)))))"

definition thread_dated :: "string \<Rightarrow> gotime option \<Rightarrow> gotime option \<Rightarrow> thread_row \<Rightarrow> bool" where
  "thread_dated gid since until r \<longleftrightarrow> in_grantee gid (th_grantee r) \<and> since_ok since (th_last r) \<and> until_ok until (th_first r)"

definition list_threads_by_grantee ::
    "string \<Rightarrow> gotime option \<Rightarrow> gotime option \<Rightarrow> int \<Rightarrow> int \<Rightarrow> (thread_summary list \<times> int) dbm" where
  "list_threads_by_grantee gid since until limit cursor =
     (if gid = [] then fail (ErrNew ''granteeID is required'')
      else pg_read (where_args gid) (\<lambda>t. thread_page t (thread_dated gid since until) (clamp_limit limit) cursor))"

definition get_thread_messages :: "int \<Rightarrow> (thread \<times> message_summary list) option dbm" where
  "get_thread_messages i =
     tryE (get_thread i) (\<lambda>r. case r of
       Inl e \<Rightarrow> if err_is e ErrNoRows then ret None else fail e
     | Inr th \<Rightarrow>
         bindE (pg_read [] (\<lambda>t. map (summary_of_message t)
             (sort_key (\<lambda>m. (ms_date m, ms_id m)) (filter (\<lambda>m. ms_thread m = i) (t_messages t))))) (\<lambda>out.
           ret (Some (th, fst (cut_page sm_id (nat max_limit * 100) out)))))"

section \<open>Matching text\<close>

lemma like_any: "like (CHR ''%'' # ps) s \<longleftrightarrow> (\<exists>u v. s = u @ v \<and> like ps v)"
proof (induction s)
  case Nil
  then show ?case by (simp add: like.simps(2))
next
  case (Cons c s)
  have "like (CHR ''%'' # ps) (c # s) \<longleftrightarrow> like ps (c # s) \<or> like (CHR ''%'' # ps) s" by (subst like.simps(2)) simp
  also have "\<dots> \<longleftrightarrow> (\<exists>u v. c # s = u @ v \<and> like ps v)" unfolding Cons.IH by (metis Cons_eq_append_conv append.left_neutral append_Cons)
  finally show ?case .
qed

lemma like_all: "like ''%'' s"
  unfolding like_any by (rule exI[of _ s], rule exI[of _ "[]"]) simp

definition plain_byte :: "char \<Rightarrow> bool" where
  "plain_byte c \<longleftrightarrow> byte c < 128 \<and> byte c \<notin> {37, 95, 92}"

lemma like_plain: "list_all plain_byte p \<Longrightarrow> like (p @ ps) s \<longleftrightarrow> (\<exists>v. s = p @ v \<and> like ps v)"
proof (induction p arbitrary: s)
  case Nil
  then show ?case by simp
next
  case (Cons c p)
  then have c: "c \<noteq> CHR ''%''" "c \<noteq> CHR ''_''" "c \<noteq> CHR 0x5C" by (auto simp: plain_byte_def)
  from Cons.prems have p: "list_all plain_byte p" by simp
  have "like ((c # p) @ ps) s \<longleftrightarrow> s \<noteq> [] \<and> hd s = c \<and> like (p @ ps) (tl s)" using c by (subst append_Cons, subst like.simps(2)) simp
  then show ?case using Cons.IH[OF p, of "tl s"] by (cases s) auto
qed

lemma contains_iff: "contains s p \<longleftrightarrow> (\<exists>u v. s = u @ p @ v)"
proof (induction s)
  case Nil
  then show ?case by simp
next
  case (Cons c s)
  have "starts_with (c # s) p \<longleftrightarrow> (\<exists>v. c # s = p @ v)" by (metis starts_with_def append_eq_conv_conj append_take_drop_id)
  then have "contains (c # s) p \<longleftrightarrow> (\<exists>v. c # s = p @ v) \<or> (\<exists>u v. s = u @ p @ v)" using Cons.IH by simp
  also have "\<dots> \<longleftrightarrow> (\<exists>u v. c # s = u @ p @ v)" by (metis append_Cons append_Nil list.inject list.exhaust)
  finally show ?case .
qed

lemma like_around: "list_all plain_byte p \<Longrightarrow> like (around p) s \<longleftrightarrow> contains s p"
  unfolding around_def contains_iff append.simps(2) append_Nil by (simp add: like_any[of "p @ _"] like_plain like_all) metis

lemma lower_plain: "plain_byte c \<Longrightarrow> plain_byte (lower_char c)"
  by (auto simp: plain_byte_def byte_lower_char)

text \<open>the text filters of a search look for a substring, regardless of case: for ASCII text and a filter without the special
  bytes of \<open>LIKE\<close>, a column matches exactly when its lower-case form contains the lower-case filter.\<close>

theorem search_finds_substring:
  assumes "is_ascii s" and "list_all plain_byte p"
  shows "text_filter w p (Some s) \<longleftrightarrow> contains (ascii_lower s) (ascii_lower p)"
proof -
  have "is_ascii (around p)" using assms(2) by (auto simp: is_ascii_def around_def plain_byte_def list_all_iff)
  moreover have "ascii_lower (around p) = around (ascii_lower p)" by (simp add: ascii_lower_def around_def lower_char_def)
  moreover have "list_all plain_byte (ascii_lower p)" using assms(2) lower_plain by (auto simp: ascii_lower_def list_all_iff)
  moreover have "contains (ascii_lower s) []" unfolding contains_iff by (metis append_Nil)
  ultimately show ?thesis using assms(1)
    by (cases "p = []") (auto simp: text_filter_def ilike_def citext_key_def like_around ascii_lower_def[of "[]"])
qed

theorem search_finds_substring_witness: "text_filter demo_world ''oWn'' (Some ''Budget down'') \<and> \<not> text_filter demo_world ''owl'' (Some ''Budget down'')"
proof -
  have "is_ascii ''Budget down''" "list_all plain_byte ''oWn''" "list_all plain_byte ''owl''" by code_simp+
  moreover have "contains (ascii_lower ''Budget down'') (ascii_lower ''oWn'')" "\<not> contains (ascii_lower ''Budget down'') (ascii_lower ''owl'')"
    by code_simp+
  ultimately show ?thesis by (simp only: search_finds_substring simp_thms)
qed

section \<open>Pages of messages\<close>

definition all_messages :: "tables \<Rightarrow> (message_row \<Rightarrow> bool) \<Rightarrow> message_summary list" where
  "all_messages t P = map (summary_of_message t) (rev (sort_key (\<lambda>r. (ms_date r, ms_id r)) (filter P (t_messages t))))"

text \<open>Ids follow the dates: the later message never has the smaller id.\<close>

definition dated_in_order :: "message_row list \<Rightarrow> bool" where
  "dated_in_order rs \<longleftrightarrow> (\<forall>a \<in> set rs. \<forall>b \<in> set rs. ms_date a < ms_date b \<longrightarrow> ms_id a < ms_id b)"

definition messages_legal :: "tables \<times> (message_row \<Rightarrow> bool) \<times> int \<Rightarrow> bool" where
  "messages_legal s \<longleftrightarrow> distinct (map ms_id (t_messages (fst s))) \<and> (\<forall>r \<in> set (t_messages (fst s)). 0 < ms_id r) \<and>
     dated_in_order (t_messages (fst s))"

lemma dated_order_ids:
  assumes "dated_in_order rs" and "distinct (map ms_id rs)"
  shows "sorted_wrt (\<lambda>a b. ms_id b < ms_id a) (rev (sort_key (\<lambda>r. (ms_date r, ms_id r)) rs))"
proof -
  let ?k = "\<lambda>r. (ms_date r, ms_id r)"
  have "sorted (map ?k (sort_key ?k rs))" by simp
  moreover have "distinct (map ?k (sort_key ?k rs))"
    using assms(2) by (auto simp: distinct_map inj_on_def)
  ultimately have "sorted_wrt (<) (map ?k (sort_key ?k rs))" by (simp add: strict_sorted_iff)
  then have "sorted_wrt (\<lambda>a b. ?k a < ?k b) (sort_key ?k rs)" by (simp add: sorted_wrt_map)
  then have "sorted_wrt (\<lambda>a b. ms_id a < ms_id b) (sort_key ?k rs)"
  proof (rule sorted_wrt_mono_rel[rotated])
    fix a b assume "a \<in> set (sort_key ?k rs)" "b \<in> set (sort_key ?k rs)" "?k a < ?k b"
    then show "ms_id a < ms_id b" using assms(1) by (auto simp: dated_in_order_def less_prod_def' less_prod_def)
  qed
  then show ?thesis by (simp add: sorted_wrt_rev)
qed

interpretation message_pages: keyset messages_legal "\<lambda>(t, P, n). all_messages t P" sm_id "\<lambda>(t, P, n). clamp_limit n"
  "\<lambda>(t, P, n) c. message_page t P (clamp_limit n) c"
proof
  fix s :: "tables \<times> (message_row \<Rightarrow> bool) \<times> int" and r c
  obtain t P n where s: "s = (t, P, n)" by (cases s) auto
  show "0 < (case s of (t, P, n) \<Rightarrow> clamp_limit n)" by (simp add: s clamp_limit_bounds)
  show "sorted_wrt (\<lambda>a b. sm_id b < sm_id a) (case s of (t, P, n) \<Rightarrow> all_messages t P)" if "messages_legal s"
  proof -
    have "dated_in_order (filter P (t_messages t))" "distinct (map ms_id (filter P (t_messages t)))"
      using that by (auto simp: messages_legal_def s distinct_map_filter dated_in_order_def)
    from dated_order_ids[OF this] show ?thesis by (simp add: s all_messages_def sorted_wrt_map summary_of_message_def)
  qed
  show "0 < sm_id r" if "messages_legal s" "r \<in> set (case s of (t, P, n) \<Rightarrow> all_messages t P)"
    using that by (auto simp: messages_legal_def s all_messages_def summary_of_message_def)
  show "(case s of (t, P, n) \<Rightarrow> \<lambda>c. message_page t P (clamp_limit n) c) c =
    cut_page sm_id (case s of (t, P, n) \<Rightarrow> clamp_limit n)
      (take ((case s of (t, P, n) \<Rightarrow> clamp_limit n) + 1)
        (filter (\<lambda>r. 0 < c \<longrightarrow> sm_id r < c) (case s of (t, P, n) \<Rightarrow> all_messages t P)))"
    by (simp add: s message_page_def all_messages_def filter_map comp_def take_map rev_filter[symmetric] filter_sort_key
        summary_of_message_def Let_def conj_commute conj_assoc)
qed

text \<open>One call of \<open>SearchMessages\<close> with the cursor \<open>c\<close>, an error counting as an empty last page.\<close>

definition search_call :: "world \<Rightarrow> db \<Rightarrow> search_params \<Rightarrow> int \<Rightarrow> message_summary list \<times> int" where
  "search_call w s p c = (case fst (search_messages w (p\<lparr>sp_cursor := c\<rparr>) s) of Inr r \<Rightarrow> r | Inl _ \<Rightarrow> ([], 0))"

lemma search_call_eq:
  assumes "db_faults s = []" and "has_filter (p\<lparr>sp_cursor := 0\<rparr>)" and "list_all pg_text_ok (search_args p)"
  shows "search_call w s p = message_page (db_tabs s) (search_hit w p) (clamp_limit (sp_limit p))"
proof -
  have "has_filter (p\<lparr>sp_cursor := c\<rparr>)" for c using assms(2) by (auto simp: has_filter_def)
  moreover have "search_args (p\<lparr>sp_cursor := c\<rparr>) = search_args p" for c by (simp add: search_args_def)
  moreover have "search_hit w (p\<lparr>sp_cursor := c\<rparr>) = search_hit w p" for c by (simp add: fun_eq_iff search_hit_def)
  ultimately have "search_call w s p c = message_page (db_tabs s) (search_hit w p) (clamp_limit (sp_limit p)) c" for c
    using assms by (simp add: search_call_def search_messages_def clean_simps)
  then show ?thesis by (rule ext)
qed

text \<open>C31: pages of search results are complete as long as messages were indexed in the order of their dates: a client that
  follows the cursors gets every matching message exactly once, newest first.\<close>

theorem search_pages_complete:
  assumes "schema w (db_tabs s) (db_seqs s)" and "db_faults s = []" and "dated_in_order (t_messages (db_tabs s))"
    and "has_filter (p\<lparr>sp_cursor := 0\<rparr>)" and "list_all pg_text_ok (search_args p)"
    and "length (all_messages (db_tabs s) (search_hit w p)) < fuel"
  shows "follow_pages fuel (search_call w s p) 0 = Some (all_messages (db_tabs s) (search_hit w p))"
proof -
  have "messages_legal (db_tabs s, search_hit w p, sp_limit p)"
    using schema_parts(5)[OF assms(1)] assms(3) by (simp add: messages_legal_def ok_messages_def)
  then show ?thesis
    using message_pages.follow_all[of "(db_tabs s, search_hit w p, sp_limit p)" fuel] assms(6)
    by (simp add: search_call_eq[OF assms(2,4,5)])
qed

lemma message_page_mem: "x \<in> set (fst (message_page t P n c)) \<Longrightarrow> \<exists>r \<in> set (t_messages t). P r \<and> x = summary_of_message t r"
  by (auto simp: message_page_def cut_page_def Let_def split: if_splits dest!: in_set_takeD; blast)

lemma thread_page_mem: "x \<in> set (fst (thread_page t P n c)) \<Longrightarrow> \<exists>r \<in> set (t_threads t). P r \<and> x = summary_of_thread t r"
  by (auto simp: thread_page_def cut_page_def Let_def split: if_splits dest!: in_set_takeD; blast)

text \<open>The rows of a grantee, as the summaries the queries may show.\<close>

definition messages_of :: "tables \<Rightarrow> string \<Rightarrow> message_summary set" where
  "messages_of t gid = summary_of_message t ` {r \<in> set (t_messages t). ms_grantee r = (if gid = unassigned_grantee then None else Some gid)}"

definition threads_of :: "tables \<Rightarrow> string \<Rightarrow> thread_summary set" where
  "threads_of t gid = summary_of_thread t ` {r \<in> set (t_threads t). th_grantee r = (if gid = unassigned_grantee then None else Some gid)}"

lemma in_grantee_owner: "gid \<noteq> [] \<Longrightarrow> in_grantee gid g \<longleftrightarrow> g = (if gid = unassigned_grantee then None else Some gid)"
  by (simp add: in_grantee_def grantee_where_def)

lemma message_page_of:
  assumes "\<And>r. P r \<Longrightarrow> in_grantee gid (ms_grantee r)" and "gid \<noteq> []"
  shows "set (fst (message_page t P n c)) \<subseteq> messages_of t gid"
  using message_page_mem[of _ t P n c] assms in_grantee_owner[OF assms(2)] unfolding messages_of_def by blast

lemma thread_page_of:
  assumes "\<And>r. P r \<Longrightarrow> in_grantee gid (th_grantee r)" and "gid \<noteq> []"
  shows "set (fst (thread_page t P n c)) \<subseteq> threads_of t gid"
  using thread_page_mem[of _ t P n c] assms in_grantee_owner[OF assms(2)] unfolding threads_of_def by blast

lemma list_messages_of:
  assumes "list_messages_by_grantee gid since until limit cursor s = (Inr (out, next), s')"
  shows "set out \<subseteq> messages_of (db_tabs s) gid"
proof -
  have ne: "gid \<noteq> []" using assms by (auto simp: list_messages_by_grantee_def)
  then have "(out, next) = message_page (db_tabs s) (message_dated gid since until) (clamp_limit limit) cursor"
    by (intro pg_read_Inr(1)[OF assms[unfolded list_messages_by_grantee_def if_not_P[OF ne]]])
  moreover have "set (fst (message_page (db_tabs s) (message_dated gid since until) (clamp_limit limit) cursor)) \<subseteq> messages_of (db_tabs s) gid"
    by (rule message_page_of[OF _ ne]) (simp add: message_dated_def)
  ultimately show ?thesis by (metis fst_conv)
qed

lemma search_messages_of:
  assumes "search_messages w p s = (Inr (out, next), s')" and "sp_grantee p \<noteq> []"
  shows "set out \<subseteq> messages_of (db_tabs s) (sp_grantee p)"
proof -
  have "has_filter p" using assms(2) by (simp add: has_filter_def)
  then have "pg_read (search_args p) (\<lambda>t. message_page t (search_hit w p) (clamp_limit (sp_limit p)) (sp_cursor p)) s = (Inr (out, next), s')"
    using assms(1) by (simp add: search_messages_def)
  then have "(out, next) = message_page (db_tabs s) (search_hit w p) (clamp_limit (sp_limit p)) (sp_cursor p)"
    by (rule pg_read_Inr(1))
  moreover have "set (fst (message_page (db_tabs s) (search_hit w p) (clamp_limit (sp_limit p)) (sp_cursor p))) \<subseteq> messages_of (db_tabs s) (sp_grantee p)"
    by (rule message_page_of[OF _ assms(2)]) (simp add: search_hit_def message_dated_def)
  ultimately show ?thesis by (metis fst_conv)
qed

lemma list_threads_of:
  assumes "list_threads_by_grantee gid since until limit cursor s = (Inr (out, next), s')"
  shows "set out \<subseteq> threads_of (db_tabs s) gid"
proof -
  have ne: "gid \<noteq> []" using assms by (auto simp: list_threads_by_grantee_def)
  then have "(out, next) = thread_page (db_tabs s) (thread_dated gid since until) (clamp_limit limit) cursor"
    by (intro pg_read_Inr(1)[OF assms[unfolded list_threads_by_grantee_def if_not_P[OF ne]]])
  moreover have "set (fst (thread_page (db_tabs s) (thread_dated gid since until) (clamp_limit limit) cursor)) \<subseteq> threads_of (db_tabs s) gid"
    by (rule thread_page_of[OF _ ne]) (simp add: thread_dated_def)
  ultimately show ?thesis by (metis fst_conv)
qed

text \<open>C30: the listings of messages and of threads, and the search when it names a grantee, show only summaries of stored messages
  and threads of that grantee; under the name \<open>_unassigned\<close>, only of those that belong to nobody.\<close>

theorem queries_isolate_grantees:
  assumes "gid \<noteq> []"
  shows "(\<forall>since until limit cursor out next s'.
      list_messages_by_grantee gid since until limit cursor s = (Inr (out, next), s') \<longrightarrow> set out \<subseteq> messages_of (db_tabs s) gid) \<and>
    (\<forall>p out next s'. sp_grantee p = gid \<longrightarrow> search_messages w p s = (Inr (out, next), s') \<longrightarrow> set out \<subseteq> messages_of (db_tabs s) gid) \<and>
    (\<forall>since until limit cursor out next s'.
      list_threads_by_grantee gid since until limit cursor s = (Inr (out, next), s') \<longrightarrow> set out \<subseteq> threads_of (db_tabs s) gid)"
proof (intro conjI allI impI)
  fix p out "next" s'
  assume "sp_grantee p = gid" "search_messages w p s = (Inr (out, next), s')"
  then show "set out \<subseteq> messages_of (db_tabs s) gid" using search_messages_of[of w p s out "next" s'] assms by simp
qed (rule list_messages_of list_threads_of, assumption)+

section \<open>Storing and reading a message\<close>

text \<open>What \<open>GetMessage\<close> returns for a stored message: text columns cleaned, the date in whole seconds, the references
  separated at white space, no Bcc list.\<close>

definition as_stored :: "int \<Rightarrow> message \<Rightarrow> message" where
  "as_stored i m = m\<lparr>m_id := i, m_in_reply_to := clean_text (m_in_reply_to m),
     m_references := GoText.fields (clean_text (join_with '' '' (m_references m))),
     m_from := (m_from m)\<lparr>a_name := clean_text (a_name (m_from m))\<rparr>, m_bcc := [], m_subject := clean_text (m_subject m),
     m_date := from_unix (unix (m_date m)), m_body_text := clean_text (m_body_text m), m_body_html := clean_text (m_body_html m),
     m_attachments := []\<rparr>"

lemma fields_Nil [simp]: "GoText.fields [] = []"
  by (simp add: GoText.fields_def fields_from.simps)

lemma scan_uint [simp]: "scan_u32 (uint (u :: 32 word)) = Inr u"
  using uint_lt2p[of u] by (simp add: scan_u32_def)

definition utf8_addresses :: "address list \<Rightarrow> bool" where
  "utf8_addresses xs \<longleftrightarrow> list_all (\<lambda>a. valid_utf8 (a_name a) \<and> valid_utf8 (a_email a)) xs"

lemma decode_marshalled: "utf8_addresses xs \<Longrightarrow> decode_addresses (marshal_addresses xs) = xs"
  unfolding utf8_addresses_def by (rule decode_marshal_addresses)

lemma message_of_row_stored:
  assumes "utf8_addresses (m_to m)" and "utf8_addresses (m_cc m)"
  shows "message_of_row ((message_row_of now m)\<lparr>ms_id := i\<rparr>) = Inr (as_stored i m)"
  using assms by (cases "m_from m") (simp add: message_of_row_def message_row_of_def as_stored_def null_clean_def decode_marshalled)

lemma get_message_clean:
  assumes "db_faults s = []" and "q \<noteq> []" and "message_row_query q s = (Inr row, s)" and "message_of_row row = Inr m"
  shows "\<exists>atts recs. get_message w q s = (Inr (Some (m, atts, recs)), s) \<and>
    list_attachments_by_message (m_id m) s = (Inr atts, s) \<and> list_recipients w (m_id m) s = (Inr recs, s)"
  using assms by (simp add: get_message_def tryE_eq list_attachments_by_message_def list_recipients_def clean_simps)

definition plain_attachment :: "attachment \<Rightarrow> string \<times> string \<times> int \<times> string \<times> string" where
  "plain_attachment a = (an_filename a, an_mime a, an_size a, an_sha a, an_path a)"

definition clean_attachment :: "attachment \<Rightarrow> string \<times> string \<times> int \<times> string \<times> string" where
  "clean_attachment a = (clean_text (an_filename a), clean_text (an_mime a), an_size a, an_sha a, an_path a)"

definition recipient_key :: "world \<Rightarrow> recipient \<Rightarrow> string \<times> string" where
  "recipient_key w r = (rp_kind r, citext_key w (rp_email r))"

definition coalesce_attachment :: "string option \<times> string option \<times> int \<times> string \<times> string \<Rightarrow> string \<times> string \<times> int \<times> string \<times> string" where
  "coalesce_attachment = (\<lambda>(f, m, z). (coalesce f, coalesce m, z))"

lemma coalesce_enclosed: "coalesce_attachment (enclosed a) = clean_attachment a"
  by (simp add: coalesce_attachment_def enclosed_def clean_attachment_def null_clean_def)

lemma listed_attachments:
  assumes "db_faults s = []" and "list_attachments_by_message i s = (Inr atts, s)"
  shows "mset (map plain_attachment atts) = mset (map coalesce_attachment (attachments_of (db_tabs s) i))"
proof -
  let ?f = "\<lambda>a. (at_filename a, at_mime a, at_size a, at_sha a, at_path a)"
  let ?rows = "filter (\<lambda>r. at_message r = i) (t_attachments (db_tabs s))"
  have same: "map plain_attachment (map attachment_of_row rs) = map coalesce_attachment (map ?f rs)" for rs
    by (simp add: plain_attachment_def attachment_of_row_def coalesce_attachment_def)
  have "atts = map attachment_of_row (sort_key at_id ?rows)"
    using assms by (simp add: list_attachments_by_message_def clean_simps)
  then have "mset (map plain_attachment atts) = mset (map coalesce_attachment (map ?f (sort_key at_id ?rows)))"
    by (simp only: same)
  also have "\<dots> = mset (map coalesce_attachment (map ?f ?rows))" by (simp only: mset_map mset_sort)
  finally show ?thesis by (simp only: attachments_of_def)
qed

lemma listed_recipients:
  assumes "db_faults s = []" and "list_recipients w i s = (Inr recs, s)"
  shows "recipient_key w ` set recs = set (recipients_of w (db_tabs s) i)"
  using assms by (force simp: list_recipients_def clean_simps recipients_of_def recipient_key_def)

text \<open>C22: a message that \<open>InsertMessage\<close> reports as new reads back by its id as it was stored: cleaned texts, the same addresses,
  the date in whole seconds, all attachments and all recipients. What belongs to other messages stays as it was.\<close>

theorem message_roundtrip:
  assumes new: "insert_message w now m s = (Inr (i, True), s')" and inv: "schema w (db_tabs s) (db_seqs s)"
    and clean: "db_faults s' = []" and utf8: "utf8_addresses (m_to m)" "utf8_addresses (m_cc m)" and i: "i < 2 ^ 63"
  shows "\<exists>atts recs. get_message w (int_text i) s' = (Inr (Some (as_stored i m, atts, recs)), s') \<and>
    mset (map plain_attachment atts) = mset (map clean_attachment (m_attachments m)) \<and>
    recipient_key w ` set recs = addressees w m \<and>
    (\<forall>j. j = i \<or> children w (db_tabs s') j = children w (db_tabs s) j)"
proof -
  let ?row = "(message_row_of now m)\<lparr>ms_id := i\<rparr>"
  have msgs: "t_messages (db_tabs s') = t_messages (db_tabs s) @ [?row]" and iq: "i = q_messages (db_seqs s)"
    by (rule insert_message_new[OF new])+
  have s': "schema w (db_tabs s') (db_seqs s')" using evolves_schema[OF insert_message_schema inv] new by (metis snd_conv)
  have "distinct (map ms_id (t_messages (db_tabs s')))" using schema_parts(5)[OF s'] by (simp add: ok_messages_def)
  from lookup_by_unique[OF this, of ?row] have l: "lookup_by ms_id i (t_messages (db_tabs s')) = Some ?row" by (simp add: msgs)
  have "parse_int64 (int_text i) = Some i" using i iq schema_pos(3)[OF inv] by (intro parse_int_text) simp_all
  then have q: "message_row_query (int_text i) s' = (Inr ?row, s')" by (simp add: message_row_query_def clean_simps clean l)
  have ne: "int_text i \<noteq> []" by (simp add: int_text_def)
  from get_message_clean[OF clean ne q message_of_row_stored[OF utf8]] obtain atts recs where
    got: "get_message w (int_text i) s' = (Inr (Some (as_stored i m, atts, recs)), s')"
    and parts: "list_attachments_by_message (m_id (as_stored i m)) s' = (Inr atts, s')" "list_recipients w (m_id (as_stored i m)) s' = (Inr recs, s')"
    by blast
  have id: "m_id (as_stored i m) = i" by (simp add: as_stored_def)
  have "attachments_of (db_tabs s') i = map enclosed (m_attachments m)" "set (recipients_of w (db_tabs s') i) = addressees w m"
    using insert_message_complete[OF new inv] by (simp_all add: children_def)
  moreover have "\<forall>j. j = i \<or> children w (db_tabs s') j = children w (db_tabs s) j"
    using insert_message_complete[OF new inv] by blast
  ultimately show ?thesis using got listed_attachments[OF clean parts(1)] listed_recipients[OF clean parts(2)]
    by (auto simp: id comp_def coalesce_enclosed)
qed

section \<open>Grantees and their addresses\<close>

lemma split_agg:
  assumes "mset (w_agg w xs) = mset xs" and "\<And>e. e \<in> set xs \<Longrightarrow> e \<noteq> [] \<and> email_sep \<notin> set e"
  shows "mset (split_emails (string_agg w xs)) = mset xs"
proof (cases "xs = []")
  case True
  then show ?thesis by (simp add: string_agg_def split_emails_def)
next
  case False
  have mem: "set (w_agg w xs) = set xs" using assms(1) by (rule mset_eq_setD)
  then have ne: "w_agg w xs \<noteq> []" using False by auto
  then obtain e es where es: "w_agg w xs = e # es" by (cases "w_agg w xs") auto
  then have "join_with [email_sep] (w_agg w xs) \<noteq> []" using mem assms(2) by (fastforce simp: join_with_def)
  moreover have "split_on email_sep (join_with [email_sep] (w_agg w xs)) = w_agg w xs"
    using mem assms(2) by (intro split_on_join[OF ne]) blast
  ultimately show ?thesis using False assms(1) by (simp add: string_agg_def split_emails_def)
qed

text \<open>\<open>GranteeSummaries\<close> lists every grantee once, with exactly its addresses and the number of its documents, whatever order
  the database aggregates the addresses in, if no address is empty or has the separator in it.\<close>

theorem grantee_summaries_complete:
  assumes "grantee_summaries w s = (Inr out, s')" and inv: "schema w (db_tabs s) (db_seqs s)"
    and agg: "\<And>xs. mset (w_agg w xs) = mset xs"
    and emails: "\<forall>e \<in> set (t_emails (db_tabs s)). em_email e \<noteq> [] \<and> email_sep \<notin> set (em_email e)"
  shows "mset (map (\<lambda>g. (gs_id g, set (gs_emails g), gs_docs g)) out) =
    mset (map (\<lambda>r. (gr_id r, set (emails_of (db_tabs s) (gr_id r)), count_where (\<lambda>d. dc_grantee d = gr_id r) (t_docs (db_tabs s))))
      (t_grantees (db_tabs s))) \<and> distinct (map gs_id out)"
proof -
  let ?t = "db_tabs s"
  let ?rows = "sort_key (\<lambda>r. text_order w (gr_id r)) (t_grantees ?t)"
  have out: "out = map (summary_of_grantee w ?t) ?rows"
    using pg_read_Inr(1)[OF assms(1)[unfolded grantee_summaries_def]] by simp
  have "mset (split_emails (string_agg w (remdups (emails_of ?t g)))) = mset (remdups (emails_of ?t g))" for g
    using emails by (intro split_agg agg) (auto simp: emails_of_def)
  then have "set (split_emails (string_agg w (remdups (emails_of ?t g)))) = set (emails_of ?t g)" for g
    by (metis mset_eq_setD set_remdups)
  then have "map (\<lambda>g. (gs_id g, set (gs_emails g), gs_docs g)) out =
      map (\<lambda>r. (gr_id r, set (emails_of ?t (gr_id r)), count_where (\<lambda>d. dc_grantee d = gr_id r) (t_docs ?t))) ?rows"
    by (simp add: out summary_of_grantee_def)
  moreover have "distinct (map gr_id (t_grantees ?t))" using schema_parts(1)[OF inv] by (simp add: ok_grantees_def)
  then have "distinct (map gs_id out)" by (simp add: out summary_of_grantee_def comp_def distinct_map)
  ultimately show ?thesis by (simp only: mset_map mset_sort)
qed

section \<open>Examples and gaps\<close>

theorem message_roundtrip_witness:
  "\<exists>atts recs. get_message demo_world ''1'' demo_inserted = (Inr (Some (as_stored 1 demo_message, atts, recs)), demo_inserted)"
proof -
  have "db_faults demo_inserted = []" "utf8_addresses (m_to demo_message)" "utf8_addresses (m_cc demo_message)" by code_simp+
  moreover have "int_text 1 = ''1''" by code_simp
  ultimately show ?thesis using message_roundtrip[OF demo_insert demo_mail_schema] by auto
qed

definition demo_mail_row :: "int \<Rightarrow> int \<Rightarrow> string \<Rightarrow> message_row" where
  "demo_mail_row i d subject = \<lparr> ms_id = i, ms_message_id = int_text i, ms_thread = 1, ms_grantee = Some ''ann'', ms_folder = ''IN'',
     ms_uid = i, ms_uid_validity = 1, ms_in_reply_to = None, ms_references = None, ms_from_addr = ''bob@x'', ms_from_name = None,
     ms_to_addrs = ''null'', ms_cc_addrs = None, ms_subject = Some subject, ms_date = d, ms_body_text = None, ms_body_html = None,
     ms_size = 0, ms_indexed = 0 \<rparr>"

definition demo_box :: "(int \<times> string) list \<Rightarrow> db" where
  "demo_box ds = demo_mail\<lparr>db_tabs := (db_tabs demo_mail)\<lparr>t_messages :=
     map (\<lambda>(i, d, subject). demo_mail_row i d subject) (zip [1..int (length ds)] ds)\<rparr>, db_seqs := (db_seqs demo_mail)\<lparr>q_messages := 9\<rparr>\<rparr>"

definition demo_search :: search_params where
  "demo_search = \<lparr> sp_grantee = ''ann'', sp_from = [], sp_subject = [], sp_body = [], sp_since = None, sp_until = None,
     sp_limit = 1, sp_cursor = 0 \<rparr>"

text \<open>pages of messages can have gaps: the order is by date, but the cursor is an id. When a message with an older date was
  indexed later, a client that follows the cursors never sees it; one large page shows it.\<close>

theorem message_pages_skip:
  "map_option (map sm_id) (follow_pages 9 (search_call demo_world (demo_box [(20, ''a''), (50, ''b''), (30, ''c'')]) demo_search) 0) = Some [2, 1] \<and>
   map sm_id (fst (search_call demo_world (demo_box [(20, ''a''), (50, ''b''), (30, ''c'')]) (demo_search\<lparr>sp_limit := 10\<rparr>) 0)) = [2, 3, 1]"
  by code_simp

text \<open>the special characters of \<open>LIKE\<close> are not escaped: a search for the subject \<open>a_b\<close> also finds \<open>axb\<close>.\<close>

theorem search_takes_wildcards:
  "map sm_subject (fst (search_call demo_world (demo_box [(5, ''axb''), (6, ''ab''), (7, ''a_b'')])
     (demo_search\<lparr>sp_subject := ''a_b'', sp_limit := 10\<rparr>) 0)) = [''a_b'', ''axb'']"
  by code_simp

lemma demo_box_schema: "schema w (db_tabs (demo_box [(5, ''a''), (6, ''b'')])) (db_seqs (demo_box [(5, ''a''), (6, ''b'')]))"
proof -
  have "int_text 1 \<noteq> int_text 2" by code_simp
  then show ?thesis
    by (simp add: demo_box_def demo_mail_def demo_thread_def demo_simps schema_def ok_defs grantee_status_ok_def
        thread_ids_def grantee_ids_def demo_mail_row_def uid_key_def upto.simps)
qed

theorem search_pages_complete_witness:
  "follow_pages 3 (search_call demo_world (demo_box [(5, ''a''), (6, ''b'')]) demo_search) 0 =
     Some (all_messages (db_tabs (demo_box [(5, ''a''), (6, ''b'')])) (search_hit demo_world demo_search))"
  by (rule search_pages_complete[OF demo_box_schema]) code_simp+

theorem queries_isolate_grantees_witness:
  "sm_grantee ` set (fst (search_call demo_world (demo_box [(5, ''a'')]) demo_search 0)) \<subseteq> {Some ''ann''} \<and>
   (\<exists>out s'. list_messages_by_grantee ''ann'' None None 0 0 (demo_box [(5, ''a'')]) = (Inr (out, 0), s') \<and>
      map sm_id out = [1] \<and> sm_grantee ` set out \<subseteq> {Some ''ann''})"
proof -
  let ?s = "demo_box [(5, ''a'')]"
  have ann: "''ann'' \<noteq> []" "''ann'' \<noteq> unassigned_grantee" by (simp_all add: unassigned_grantee_def)
  have shown: "sm_grantee x = Some ''ann''" if "x \<in> messages_of (db_tabs ?s) ''ann''" for x
    using that ann(2) by (auto simp: messages_of_def summary_of_message_def)
  note iso = queries_isolate_grantees[OF ann(1), of ?s demo_world]
  let ?r = "search_messages demo_world demo_search ?s"
  have "is_ok (fst ?r)" by code_simp
  then obtain p where p: "fst ?r = Inr p" by (auto simp: is_ok_iff)
  have g: "sp_grantee demo_search = ''ann''" by (simp add: demo_search_def)
  have "?r = (Inr (fst p, snd p), snd ?r)" using pair_of_fst[OF p] by simp
  from iso[THEN conjunct2, THEN conjunct1, rule_format, OF g this]
  have "set (fst p) \<subseteq> messages_of (db_tabs ?s) ''ann''" .
  moreover have "demo_search\<lparr>sp_cursor := 0\<rparr> = demo_search" by (simp add: demo_search_def)
  ultimately have 1: "sm_grantee ` set (fst (search_call demo_world ?s demo_search 0)) \<subseteq> {Some ''ann''}"
    using p shown by (auto simp: search_call_def)
  let ?l = "list_messages_by_grantee ''ann'' None None 0 0 ?s"
  have "map_sum id (map_prod (map sm_id) id) (fst ?l) = Inr ([1], 0)" by code_simp
  then obtain out where l: "fst ?l = Inr (out, 0)" and ids: "map sm_id out = [1]" by (cases "fst ?l") auto
  from iso[THEN conjunct1, rule_format, OF pair_of_fst[OF l]] have "set out \<subseteq> messages_of (db_tabs ?s) ''ann''" .
  then have "sm_grantee ` set out \<subseteq> {Some ''ann''}" using shown by auto
  with ids pair_of_fst[OF l] have "?l = (Inr (out, 0), snd ?l) \<and> map sm_id out = [1] \<and> sm_grantee ` set out \<subseteq> {Some ''ann''}" by simp
  then show ?thesis by (intro conjI[OF 1] exI)
qed

definition demo_addressed :: db where
  "demo_addressed = demo_db\<lparr>db_tabs := (db_tabs demo_db)\<lparr>t_emails := [\<lparr> em_email = ''a@x'', em_grantee = ''ann'' \<rparr>,
     \<lparr> em_email = ''b@x'', em_grantee = ''ann'' \<rparr>]\<rparr>\<rparr>"

theorem grantee_summaries_complete_witness:
  "\<exists>out. fst (grantee_summaries demo_world demo_addressed) = Inr out \<and>
     map (\<lambda>g. (gs_id g, set (gs_emails g), gs_docs g)) out = [(''ann'', {''a@x'', ''b@x''}, 0)]"
proof -
  let ?r = "grantee_summaries demo_world demo_addressed"
  have "is_ok (fst ?r)" by code_simp
  then obtain out where out: "fst ?r = Inr out" by (auto simp: is_ok_iff)
  have "schema demo_world (db_tabs demo_addressed) (db_seqs demo_addressed)"
    by (simp add: demo_addressed_def demo_simps schema_def ok_defs grantee_status_ok_def grantee_ids_def citext_key_def is_ascii_def ascii_lower_def)
       (simp add: lower_char_def)
  moreover have "\<And>xs. mset (w_agg demo_world xs) = mset xs" by (simp add: demo_world_def)
  moreover have "\<forall>e \<in> set (t_emails (db_tabs demo_addressed)). em_email e \<noteq> [] \<and> email_sep \<notin> set (em_email e)" by code_simp
  ultimately have "mset (map (\<lambda>g. (gs_id g, set (gs_emails g), gs_docs g)) out) = {#(''ann'', {''a@x'', ''b@x''}, 0)#}"
    using grantee_summaries_complete[OF pair_of_fst[OF out]]
    by (simp add: demo_addressed_def demo_simps emails_of_def count_where_def insert_commute del: mset_map)
  then show ?thesis using out by (auto simp del: mset_map simp: mset_single_iff)
qed

end
