(* ===== verification/GoTime.thy ===== *)
theory GoTime
  imports World
begin

text \<open>
  \<open>time.Parse\<close> with the layouts \<open>RFC3339Nano\<close> and \<open>RFC3339\<close>, which accept the same texts: the date, the time with an hour
  of one or two digits, an optional fraction after a period or a comma (nine of its digits count), and \<open>Z\<close> or an
  offset. An instant is a number of nanoseconds since 1970 (\<open>gotime\<close>); its zone is not kept.
\<close>

definition digits2 :: "string \<Rightarrow> nat \<Rightarrow> nat option" where
  "digits2 s i = (if i + 2 \<le> length s then parse_nat (take 2 (drop i s)) else None)"

definition leap_year :: "int \<Rightarrow> bool" where
  "leap_year y \<longleftrightarrow> y mod 4 = 0 \<and> (y mod 100 \<noteq> 0 \<or> y mod 400 = 0)"

definition month_days :: "int \<Rightarrow> int list" where
  "month_days y = [31, if leap_year y then 29 else 28, 31, 30, 31, 30, 31, 31, 30, 31, 30, 31]"

definition days_to_year :: "int \<Rightarrow> int" where
  "days_to_year y = 365 * y + (y + 3) div 4 - (y + 99) div 100 + (y + 399) div 400 - 719528"

definition civil_days :: "int \<Rightarrow> nat \<Rightarrow> nat \<Rightarrow> int option" where
  "civil_days y m d =
     (if 1 \<le> m \<and> m \<le> 12 \<and> 1 \<le> d \<and> int d \<le> month_days y ! (m - 1)
      then Some (days_to_year y + sum_list (take (m - 1) (month_days y)) + int d - 1) else None)"

definition parse_date :: "string \<Rightarrow> int option" where
  "parse_date s =
     (if length s < 10 \<or> s ! 4 \<noteq> CHR ''-'' \<or> s ! 7 \<noteq> CHR ''-'' then None
      else (case (parse_nat (take 4 s), digits2 s 5, digits2 s 8) of
          (Some y, Some m, Some d) \<Rightarrow> civil_days (int y) m d
        | _ \<Rightarrow> None))"

text \<open>The hour may have one digit (\<open>getnum\<close> without \<open>fixed\<close>).\<close>

definition parse_hour :: "string \<Rightarrow> (nat \<times> string) option" where
  "parse_hour s =
     (let n = (if 2 \<le> length s \<and> is_digit (s ! 1) then 2 else 1)
      in map_option (\<lambda>h. (h, drop n s)) (parse_nat (take n s)))"

definition parse_fraction :: "string \<Rightarrow> int \<times> string" where
  "parse_fraction s =
     (case s of [] \<Rightarrow> (0, [])
      | c # r \<Rightarrow>
          (let ds = takeWhile is_digit r in
           case parse_nat (take 9 ds) of
             None \<Rightarrow> (0, s)
           | Some n \<Rightarrow>
               if c = CHR ''.'' \<or> c = CHR '','' then (int n * 10 ^ (9 - length (take 9 ds)), dropWhile is_digit r)
               else (0, s)))"

definition parse_zone :: "string \<Rightarrow> int option" where
  "parse_zone s =
     (if s = ''Z'' then Some 0
      else if length s = 6 \<and> (s ! 0 = CHR ''+'' \<or> s ! 0 = CHR ''-'') \<and> s ! 3 = CHR '':'' then
        (case (digits2 s 1, digits2 s 4) of
           (Some h, Some m) \<Rightarrow>
             if h \<le> 24 \<and> m \<le> 60 then Some ((if s ! 0 = CHR ''-'' then -1 else 1) * (int h * 3600 + int m * 60)) else None
         | _ \<Rightarrow> None)
      else None)"

text \<open>Seconds of the day, nanoseconds and offset of the part after the \<open>T\<close>.\<close>

definition parse_clock :: "string \<Rightarrow> (int \<times> int \<times> int) option" where
  "parse_clock s =
     (case parse_hour s of None \<Rightarrow> None
      | Some (hh, r) \<Rightarrow>
          if length r < 6 \<or> r ! 0 \<noteq> CHR '':'' \<or> r ! 3 \<noteq> CHR '':'' then None
          else (case (digits2 r 1, digits2 r 4, parse_fraction (drop 6 r)) of
              (Some mm, Some ss, nanos, rest) \<Rightarrow>
                (case parse_zone rest of None \<Rightarrow> None
                 | Some off \<Rightarrow> if hh < 24 \<and> mm < 60 \<and> ss < 60 then Some (int hh * 3600 + int mm * 60 + int ss, nanos, off) else None)
            | _ \<Rightarrow> None))"

definition parse_rfc3339 :: "string \<Rightarrow> gotime option" where
  "parse_rfc3339 s =
     (case (parse_date s, parse_clock (drop 11 s)) of
        (Some days, Some (secs, nanos, off)) \<Rightarrow>
          if s ! 10 = CHR ''T'' then Some ((days * 86400 + secs - off) * 1000000000 + nanos) else None
      | _ \<Rightarrow> None)"

lemma rfc3339_examples:
  "parse_rfc3339 ''1970-01-01T00:00:01Z'' = Some 1000000000"
  "parse_rfc3339 ''2024-02-29T5:30:00.25+01:00'' = Some 1709181000250000000"
  "parse_rfc3339 ''2023-02-29T00:00:00Z'' = None"
  by code_simp+

end
