(* ===== verification/DriveSync.thy ===== *)
theory DriveSync
  imports StoreDocs GoTime
begin

text \<open>
  \<open>internal/drive/types.go\<close> and \<open>internal/sync/sync.go\<close>: one cycle of the Drive sync.

  Drive is the parameter \<open>drive\<close>, the interface \<open>DriveAPI\<close> of the source: its answers may depend on the number of the
  call (Drive can change during a cycle), and so may the cancellation of the context. The loop state \<open>progress\<close> is
  that call number with the statistics; every step is a \<open>dbm\<close> that returns it. The recursive folder walk gets fuel;
  \<open>walk_folder_returns\<close> gives the fuel that suffices.
\<close>

section \<open>Drive\<close>

definition mime_folder :: string where "mime_folder = ''application/vnd.google-apps.folder''"
definition mime_doc :: string where "mime_doc = ''application/vnd.google-apps.document''"

record drive_file =
  f_id :: string
  f_name :: string
  f_mime :: string
  f_modified :: string
  f_owners :: "string list"
  f_trashed :: bool

record file_list =
  fl_files :: "drive_file list"
  fl_next :: string

definition primary_owner_email :: "drive_file \<Rightarrow> string" where
  "primary_owner_email f = (case f_owners f of [] \<Rightarrow> [] | o1 # _ \<Rightarrow> o1)"

record drive =
  dv_list :: "nat \<Rightarrow> string \<Rightarrow> string \<Rightarrow> err + file_list"
  dv_get :: "nat \<Rightarrow> string \<Rightarrow> err + drive_file"
  dv_export :: "nat \<Rightarrow> string \<Rightarrow> err + string"
  dv_done :: "nat \<Rightarrow> bool"

section \<open>Times\<close>

definition parse_drive_time :: "string \<Rightarrow> err + gotime" where
  "parse_drive_time s =
     (if s = [] then Inr zero_time
      else (case parse_rfc3339 s of
          Some t \<Rightarrow> Inr t
        | None \<Rightarrow> Inl (ErrWrap (''parse drive time '' @ go_quote s @ '': '') (ErrNew ''cannot parse'') [])))"

definition detect_images :: "string \<Rightarrow> bool" where
  "detect_images md = contains md ''![''"

section \<open>One document\<close>

record stats =
  st_cycle :: int
  st_synced :: int
  st_unchanged :: int
  st_skipped :: int
  st_failed :: int
  st_stale :: int

record progress =
  pr_calls :: nat
  pr_stats :: stats

definition bump :: "(stats \<Rightarrow> stats) \<Rightarrow> progress \<Rightarrow> progress" where
  "bump f p = p\<lparr>pr_stats := f (pr_stats p)\<rparr>"

definition add_synced :: "stats \<Rightarrow> stats" where "add_synced s = s\<lparr>st_synced := st_synced s + 1\<rparr>"
definition add_unchanged :: "stats \<Rightarrow> stats" where "add_unchanged s = s\<lparr>st_unchanged := st_unchanged s + 1\<rparr>"
definition add_skipped :: "stats \<Rightarrow> stats" where "add_skipped s = s\<lparr>st_skipped := st_skipped s + 1\<rparr>"
definition add_failed :: "stats \<Rightarrow> stats" where "add_failed s = s\<lparr>st_failed := st_failed s + 1\<rparr>"
definition add_stale :: "int \<Rightarrow> stats \<Rightarrow> stats" where "add_stale n s = s\<lparr>st_stale := st_stale s + n\<rparr>"

definition called :: "progress \<Rightarrow> progress" where
  "called p = p\<lparr>pr_calls := pr_calls p + 1\<rparr>"

definition new_doc :: "world \<Rightarrow> string \<Rightarrow> source \<Rightarrow> drive_file \<Rightarrow> gotime \<Rightarrow> string \<Rightarrow> doc" where
  "new_doc w gid src f modified md = \<lparr> d_id = f_id f, d_grantee = gid, d_title = f_name f,
     d_owner = to_lower w (trim_space (primary_owner_email f)), d_content = md, d_modified = modified, d_synced = zero_time,
     d_source_type = s_type src, d_source_drive = s_drive src, d_images = detect_images md, d_comments = False,
     d_status = status_active, d_error = [] \<rparr>"

text \<open>What happens when the export failed.\<close>

definition export_failed :: "drive_file \<Rightarrow> bool \<Rightarrow> err \<Rightarrow> progress \<Rightarrow> progress dbm" where
  "export_failed f known e p =
     (if is_not_found_or_forbidden e then
        if known then tryE (mark_doc_stale (f_id f) (err_text e)) (\<lambda>_. ret (bump (add_stale 1) p))
        else ret (bump add_skipped p)
      else if known then tryE (mark_doc_error (f_id f) (err_text e)) (\<lambda>_. ret (bump add_failed p))
      else ret (bump add_failed p))"

definition process_doc ::
  "world \<Rightarrow> int \<Rightarrow> drive \<Rightarrow> string \<Rightarrow> source \<Rightarrow> int \<Rightarrow> drive_file \<Rightarrow> progress \<Rightarrow> progress dbm" where
  "process_doc w now d gid src cycle f p =
     (if f_mime f \<noteq> mime_doc then ret (bump add_skipped p)
      else (case parse_drive_time (f_modified f) of
          Inl e \<Rightarrow> ret (bump add_failed p)
        | Inr modified \<Rightarrow>
            tryE (get_doc_by_id (f_id f)) (\<lambda>r.
              if (case r of Inl e \<Rightarrow> \<not> err_is e ErrNotFound | Inr _ \<Rightarrow> False) then ret (bump add_failed p)
              else if (case r of Inl e \<Rightarrow> False | Inr x \<Rightarrow> d_modified x = modified)
                then tryE (touch_doc_seen now (f_id f) cycle) (\<lambda>t. case t of
                       Inl e \<Rightarrow> ret (bump add_failed p)
                     | Inr _ \<Rightarrow> ret (bump add_unchanged p))
              else (case dv_export d (pr_calls p) (f_id f) of
                  Inl e \<Rightarrow> export_failed f (is_ok r) e (called p)
                | Inr md \<Rightarrow>
                    tryE (upsert_doc w now (new_doc w gid src f modified md) cycle) (\<lambda>u. case u of
                        Inl e \<Rightarrow> ret (bump add_failed (called p))
                      | Inr _ \<Rightarrow> ret (bump add_synced (called p)))))))"

section \<open>Folders, grantees and the cycle\<close>

text \<open>The loop over one page; the Boolean is \<open>False\<close> when a recursive walk ran out of fuel.\<close>

fun walk_files :: "(drive_file \<Rightarrow> progress \<Rightarrow> (bool \<times> progress) dbm) \<Rightarrow> drive_file list \<Rightarrow> progress \<Rightarrow> (bool \<times> progress) dbm" where
  "walk_files h [] p = ret (True, p)"
| "walk_files h (f # fs) p = bindE (h f p) (\<lambda>(ok, p'). if ok then walk_files h fs p' else ret (False, p'))"

text \<open>The result of a walk: \<open>None\<close> when the fuel ran out, otherwise what \<open>walkFolder\<close> returns.\<close>

primrec walk_folder ::
  "world \<Rightarrow> int \<Rightarrow> drive \<Rightarrow> string \<Rightarrow> source \<Rightarrow> int \<Rightarrow> nat \<Rightarrow> string \<Rightarrow> string \<Rightarrow> progress \<Rightarrow>
   ((err + unit) option \<times> progress) dbm" where
  "walk_folder w now d gid src cycle 0 = (\<lambda>folder token p. ret (None, p))"
| "walk_folder w now d gid src cycle (Suc n) = (\<lambda>folder token p.
     if dv_done d (pr_calls p) then ret (Some (Inl ErrCanceled), p)
     else (case dv_list d (pr_calls p) folder token of
         Inl e \<Rightarrow> ret (Some (Inl (ErrWrap (''list folder '' @ folder @ '': '') e [])), called p)
       | Inr page \<Rightarrow>
           bindE (walk_files (\<lambda>f p.
               if f_mime f = mime_folder
               then bindE (walk_folder w now d gid src cycle n (f_id f) [] p) (\<lambda>(r, p'). ret (r \<noteq> None, p'))
               else if f_mime f = mime_doc
               then bindE (process_doc w now d gid src cycle f p) (\<lambda>p'. ret (True, p'))
               else ret (True, p)) (fl_files page) (called p)) (\<lambda>(ok, p').
             if \<not> ok then ret (None, p')
             else if fl_next page = [] then ret (Some (Inr ()), p')
             else walk_folder w now d gid src cycle n folder (fl_next page) p')))"

text \<open>The loop over a grantee's sources, and over the grantees; \<open>Some\<close> of the outcome, \<open>None\<close> without fuel.\<close>

fun sync_sources ::
  "world \<Rightarrow> int \<Rightarrow> drive \<Rightarrow> nat \<Rightarrow> string \<Rightarrow> int \<Rightarrow> source list \<Rightarrow> progress \<Rightarrow> ((err + unit) option \<times> progress) dbm" where
  "sync_sources w now d fuel gid cycle [] p = ret (Some (Inr ()), p)"
| "sync_sources w now d fuel gid cycle (src # srcs) p =
     (if dv_done d (pr_calls p) then ret (Some (Inl ErrCanceled), p)
      else if s_type src = source_type_folder then
        bindE (walk_folder w now d gid src cycle fuel (s_drive src) [] p) (\<lambda>(r, p').
          if r = None then ret (None, p') else sync_sources w now d fuel gid cycle srcs p')
      else if s_type src = source_type_doc then
        (case dv_get d (pr_calls p) (s_drive src) of
           Inl e \<Rightarrow> sync_sources w now d fuel gid cycle srcs (called p)
         | Inr f \<Rightarrow> bindE (process_doc w now d gid src cycle f (called p)) (\<lambda>p'.
             sync_sources w now d fuel gid cycle srcs p'))
      else sync_sources w now d fuel gid cycle srcs p)"

definition sync_grantee ::
  "world \<Rightarrow> int \<Rightarrow> drive \<Rightarrow> nat \<Rightarrow> int \<Rightarrow> grantee \<Rightarrow> progress \<Rightarrow> ((err + unit) option \<times> progress) dbm" where
  "sync_grantee w now d fuel cycle g p =
     tryE (list_sources_for_grantee (g_id g)) (\<lambda>r. case r of
       Inl e \<Rightarrow> ret (Some (Inl (ErrWrap ''list sources: '' e [])), p)
     | Inr srcs \<Rightarrow> sync_sources w now d fuel (g_id g) cycle srcs p)"

fun sync_grantees ::
  "world \<Rightarrow> int \<Rightarrow> drive \<Rightarrow> nat \<Rightarrow> int \<Rightarrow> grantee list \<Rightarrow> progress \<Rightarrow> ((err + unit) option \<times> progress) dbm" where
  "sync_grantees w now d fuel cycle [] p = ret (Some (Inr ()), p)"
| "sync_grantees w now d fuel cycle (g # gs) p =
     (if dv_done d (pr_calls p) then ret (Some (Inl ErrCanceled), p)
      else bindE (sync_grantee w now d fuel cycle g p) (\<lambda>(r, p').
        if r = None then ret (None, p') else sync_grantees w now d fuel cycle gs p'))"

definition start_stats :: "int \<Rightarrow> stats" where
  "start_stats cycle = \<lparr> st_cycle = cycle, st_synced = 0, st_unchanged = 0, st_skipped = 0, st_failed = 0, st_stale = 0 \<rparr>"

text \<open>\<open>Run\<close>; \<open>ret None\<close> when the fuel ran out. \<open>finish\<close> is the time of the clock at its end.\<close>

definition run_sync :: "world \<Rightarrow> int \<Rightarrow> gotime \<Rightarrow> drive \<Rightarrow> nat \<Rightarrow> stats option dbm" where
  "run_sync w now finish d fuel =
     bindE (wrapE (\<lambda>e. ErrWrap ''bump cycle id: '' e []) next_cycle_id) (\<lambda>cycle.
     bindE (wrapE (\<lambda>e. ErrWrap ''list grantees: '' e []) (list_active_grantees w)) (\<lambda>gs.
     bindE (sync_grantees w now d fuel cycle gs \<lparr> pr_calls = 0, pr_stats = start_stats cycle \<rparr>) (\<lambda>(r, p).
       case r of
         None \<Rightarrow> ret None
       | Some (Inl e) \<Rightarrow> fail e
       | Some (Inr _) \<Rightarrow>
           bindE (wrapE (\<lambda>e. ErrWrap ''mark unseen stale: '' e []) (mark_unseen_stale cycle)) (\<lambda>marked.
           bindE (wrapE (\<lambda>e. ErrWrap ''record last_successful_sync: '' e []) (set_last_successful_sync finish)) (\<lambda>_.
             ret (Some (add_stale marked (pr_stats p))))))))"

section \<open>What a cycle can do\<close>

text \<open>The cycle satisfies every \<open>evolution\<close> its document operations satisfy; the first lemmas are parametric in the pairs
  of grantee and source for which the upsert does.\<close>

context evolution begin

lemma ev_get_doc: "evolves R (get_doc_by_id i)"
  unfolding get_doc_by_id_def by (intro ev_wrapE ev_pg_row)

lemma ev_process_doc:
  assumes "\<And>i. evolves R (touch_doc_seen now i cycle)" "\<And>i m. evolves R (mark_doc_stale i m)" "\<And>i m. evolves R (mark_doc_error i m)"
    and "\<And>f t md. evolves R (upsert_doc w now (new_doc w gid src f t md) cycle)"
  shows "evolves R (process_doc w now d gid src cycle f p)"
  unfolding process_doc_def export_failed_def
  by (intro ev_if ev_ret ev_case_sum ev_tryE ev_get_doc assms)

lemma ev_walk_files: "(\<And>f p. evolves R (h f p)) \<Longrightarrow> evolves R (walk_files h fs p)"
  by (induction fs arbitrary: p) (auto intro!: ev_ret ev_bindE ev_if)

lemma ev_walk_folder:
  assumes "\<And>f p. evolves R (process_doc w now d gid src cycle f p)"
  shows "evolves R (walk_folder w now d gid src cycle n folder token p)"
proof (induction n arbitrary: folder token p)
  case 0
  show ?case unfolding walk_folder.simps by (rule ev_ret)
next
  case (Suc n)
  show ?case
    unfolding walk_folder.simps
    by (intro ev_if ev_ret ev_case_sum ev_bindE ev_case_prod ev_walk_files Suc.IH assms)
qed

lemma ev_sync_sources:
  assumes "\<And>src f p. src \<in> set srcs \<Longrightarrow> evolves R (process_doc w now d gid src cycle f p)"
  shows "evolves R (sync_sources w now d fuel gid cycle srcs p)"
  using assms
proof (induction srcs arbitrary: p)
  case Nil
  show ?case unfolding sync_sources.simps by (rule ev_ret)
next
  case (Cons src srcs)
  then show ?case
    unfolding sync_sources.simps
    by (intro ev_if ev_ret ev_case_sum ev_bindE ev_case_prod ev_walk_folder) auto
qed

lemma ev_sync_grantees:
  assumes "\<And>g p. g \<in> set gs \<Longrightarrow> evolves R (sync_grantee w now d fuel cycle g p)"
  shows "evolves R (sync_grantees w now d fuel cycle gs p)"
  using assms
proof (induction gs arbitrary: p)
  case Nil
  show ?case unfolding sync_grantees.simps by (rule ev_ret)
next
  case (Cons g gs)
  then show ?case
    unfolding sync_grantees.simps by (intro ev_if ev_ret ev_bindE ev_case_prod) auto
qed

lemma ev_sync_grantee:
  assumes "\<And>src f p. evolves R (process_doc w now d (g_id g) src cycle f p)"
  shows "evolves R (sync_grantee w now d fuel cycle g p)"
  unfolding sync_grantee_def list_sources_for_grantee_def
  by (intro ev_tryE ev_case_sum ev_ret ev_pg_read ev_sync_sources assms)

end

lemma run_sync_same:
  "evolves (same but_docs) (run_sync w now finish d fuel)"
  unfolding run_sync_def list_active_grantees_def
  by (intro same.ev_bindE same.ev_wrapE same.ev_case_prod same.ev_case_option same.ev_case_sum same.ev_ret same.ev_fail
      same.ev_pg_read same.ev_sync_grantees same.ev_sync_grantee same.ev_process_doc doc_ops_apart)

lemma run_sync_schema [evolve]:
  "evolves (schema_step w') (run_sync w now finish d fuel)"
  unfolding run_sync_def list_active_grantees_def
  by (intro schema.ev_bindE schema.ev_wrapE schema.ev_case_prod schema.ev_case_option schema.ev_case_sum schema.ev_ret
      schema.ev_fail schema.ev_pg_read schema.ev_sync_grantees schema.ev_sync_grantee schema.ev_process_doc doc_ops_schema
      sync_ops_schema)

subsection \<open>Only whitelisted sources\<close>

text \<open>A source is whitelisted for a grantee when the grantee is active and the source is registered for it.\<close>

definition whitelisted :: "tables \<Rightarrow> string \<Rightarrow> string \<Rightarrow> bool" where
  "whitelisted t gid drive \<longleftrightarrow> (\<exists>g \<in> set (t_grantees t). gr_id g = gid \<and> gr_status g = ''active'') \<and>
     (\<exists>x \<in> set (t_sources t). so_grantee x = gid \<and> so_drive x = drive)"

text \<open>Two document rows with the same exported content and attribution.\<close>

definition same_export :: "doc_row \<Rightarrow> doc_row \<Rightarrow> bool" where
  "same_export r r' \<longleftrightarrow> dc_id r' = dc_id r \<and> dc_grantee r' = dc_grantee r \<and> dc_title r' = dc_title r \<and>
     dc_owner r' = dc_owner r \<and> dc_content r' = dc_content r \<and> dc_modified r' = dc_modified r \<and>
     dc_source_drive r' = dc_source_drive r"

definition exports_from :: "tables \<Rightarrow> snapshot \<Rightarrow> snapshot \<Rightarrow> bool" where
  "exports_from T p p' \<longleftrightarrow> (but_docs (fst p) = but_docs T \<longrightarrow> but_docs (fst p') = but_docs T \<and>
     (\<forall>r' \<in> set (t_docs (fst p')). (\<exists>r \<in> set (t_docs (fst p)). same_export r r') \<or>
        whitelisted T (dc_grantee r') (dc_source_drive r')))"

lemma same_export_refl [simp]: "same_export r r"
  by (simp add: same_export_def)

lemma exports_from_refl [simp]: "exports_from T (t, q) (t, q')"
  by (auto simp: exports_from_def intro: same_export_refl)

lemma exports_from_trans: "exports_from T p p' \<Longrightarrow> exports_from T p' p'' \<Longrightarrow> exports_from T p p''"
  unfolding exports_from_def by (simp add: same_export_def) metis

interpretation exports: evolution "exports_from T"
proof
  show "exports_from T p p" for p by (cases p) simp
  show "exports_from T p p'' " if "exports_from T p p'" "exports_from T p' p''" for p p' p''
    using that by (rule exports_from_trans)
qed simp

lemma exports_update:
  assumes "\<And>x. same_export x (f x)"
  shows "exports_from T (t, q) (t\<lparr>t_docs := update_where P f (t_docs t)\<rparr>, q')"
  using assms unfolding exports_from_def but_docs_def by (auto simp: row_simps intro: same_export_refl)

lemma doc_marks_export:
  "evolves (exports_from T) (touch_doc_seen now i cycle)" "evolves (exports_from T) (mark_doc_stale i msg)"
  "evolves (exports_from T) (mark_doc_error i msg)" "evolves (exports_from T) (mark_unseen_stale cycle)"
  unfolding touch_doc_seen_def mark_doc_stale_def mark_doc_error_def mark_unseen_stale_def require_one_row_def update_docs_def
  by (intro exports.ev_if exports.ev_fail exports.ev_ret exports.ev_bindE exports.ev_pg_modify;
      auto intro!: exports_update simp: same_export_def)+

lemma sync_state_export:
  "evolves (exports_from T) next_cycle_id" "evolves (exports_from T) (set_last_successful_sync tm)"
  unfolding next_cycle_id_def set_last_successful_sync_def Let_def
  by (intro exports.ev_in_tx exports.ev_tryE exports.ev_case_sum exports.ev_fail exports.ev_ret exports.ev_bindE
      exports.ev_pg_row exports.ev_pg_modify;
      auto simp: exports_from_def but_docs_def dest!: put_sync_Inr intro: same_export_refl)+

lemma upsert_export:
  assumes "whitelisted T (d_grantee d) (d_source_drive d)"
  shows "evolves (exports_from T) (upsert_doc w now d cycle)"
  unfolding upsert_doc_def Let_def
proof (intro exports.ev_if exports.ev_fail exports.ev_pg_modify)
  fix t :: tables and q :: seqs and x t'
  let ?r = "row_of_doc w now d cycle"
  assume "put_doc ?r t = Inr (x, t')"
  then have t': "t' = t\<lparr>t_docs := upsert_by dc_id (\<lambda>x. ?r\<lparr>dc_id := dc_id x\<rparr>) ?r (t_docs t)\<rparr>"
    by (auto simp: put_doc_def split: if_splits)
  have "dc_grantee ?r = d_grantee d" "dc_source_drive ?r = d_source_drive d" by (simp_all add: row_of_doc_def)
  then show "exports_from T (t, q) (t', q)"
    using assms unfolding exports_from_def t' but_docs_def
    by (auto simp: upsert_by_def row_simps intro: same_export_refl)
qed

lemma sync_grantee_exports:
  assumes "\<exists>r \<in> set (t_grantees T). gr_id r = g_id g \<and> gr_status r = ''active''"
  shows "evolves (exports_from T) (sync_grantee w now d fuel cycle g p)"
proof -
  have "exports_from T (snap s) (snap (snd (sync_grantee w now d fuel cycle g p s)))" for s
  proof (cases "but_docs (db_tabs s) = but_docs T")
    case False
    then show ?thesis by (simp add: exports_from_def snap_def)
  next
    case True
    obtain r s1 where l: "list_sources_for_grantee (g_id g) s = (r, s1)" by fastforce
    have s1: "exports_from T (snap s) (snap s1)"
      using l by (metis exports_from_refl list_sources_for_grantee_def prod.collapse snap_read snd_conv)
    show ?thesis
    proof (cases r)
      case (Inl e)
      then show ?thesis using l s1 by (simp add: sync_grantee_def tryE_eq)
    next
      case (Inr srcs)
      have src: "srcs = map source_of_row (sort_key so_id (filter (\<lambda>x. so_grantee x = g_id g) (t_sources (db_tabs s))))"
        by (rule pg_read_Inr(1)[OF l[unfolded list_sources_for_grantee_def Inr]])
      have tabs: "t_sources (db_tabs s) = t_sources T" using True by (metis but_docs_fields(3))
      have "whitelisted T (g_id g) (s_drive x)" if "x \<in> set srcs" for x
        using that assms unfolding src tabs whitelisted_def by (auto simp: source_of_row_def)
      then have "evolves (exports_from T) (sync_sources w now d fuel (g_id g) cycle srcs p)"
        by (intro exports.ev_sync_sources exports.ev_process_doc doc_marks_export upsert_export) (simp add: new_doc_def)
      then have "exports_from T (snap s1) (snap (snd (sync_sources w now d fuel (g_id g) cycle srcs p s1)))"
        by (simp add: evolves_def)
      with s1 l Inr show ?thesis by (auto simp: sync_grantee_def tryE_eq intro: exports_from_trans)
    qed
  qed
  then show ?thesis by (simp add: evolves_def)
qed

text \<open>What follows a query may rely on its answer, as long as nothing but documents changed.\<close>

lemma exports_bind_read:
  assumes "\<And>t. but_docs t = but_docs T \<Longrightarrow> evolves (exports_from T) (K (f t))"
  shows "evolves (exports_from T) (bindE (wrapE h (pg_read args f)) K)"
proof -
  have "exports_from T (snap s) (snap (snd (bindE (wrapE h (pg_read args f)) K s)))" for s
  proof (cases "but_docs (db_tabs s) = but_docs T")
    case False
    then show ?thesis by (simp add: exports_from_def snap_def)
  next
    case True
    obtain r s1 where l: "pg_read args f s = (r, s1)" by fastforce
    have s1: "snap s1 = snap s" by (metis l snap_read snd_conv)
    have st: "exports_from T (snap s) (snap s)" by (rule exports.stay)
    show ?thesis
    proof (cases r)
      case (Inl e)
      then show ?thesis using l s1 st by (simp add: bindE_eq wrapE_eq)
    next
      case (Inr x)
      then have "x = f (db_tabs s)" using pg_read_Inr(1)[OF l[unfolded Inr]] by simp
      with assms[OF True] have "exports_from T (snap s1) (snap (snd (K x s1)))" by (simp add: evolves_def)
      with l s1 Inr show ?thesis by (simp add: bindE_eq wrapE_eq)
    qed
  qed
  then show ?thesis by (simp add: evolves_def)
qed

lemma run_sync_exports: "evolves (exports_from T) (run_sync w now finish d fuel)"
  unfolding run_sync_def list_active_grantees_def
proof (rule exports.ev_bindE[OF exports.ev_wrapE[OF sync_state_export(1)]], rule exports_bind_read)
  fix cycle t
  assume t: "but_docs t = but_docs T"
  let ?gs = "map grantee_of_row (sort_key (\<lambda>r. text_order w (gr_id r)) (filter (\<lambda>r. gr_status r = ''active'') (t_grantees t)))"
  have "t_grantees t = t_grantees T" using t by (metis but_docs_fields(1))
  then have "\<exists>r \<in> set (t_grantees T). gr_id r = g_id g \<and> gr_status r = ''active''" if "g \<in> set ?gs" for g
    using that by (auto simp: grantee_of_row_def)
  then show "evolves (exports_from T) (bindE (sync_grantees w now d fuel cycle ?gs \<lparr>pr_calls = 0, pr_stats = start_stats cycle\<rparr>)
      (\<lambda>(r, p). case r of None \<Rightarrow> ret None | Some (Inl e) \<Rightarrow> fail e
        | Some (Inr _) \<Rightarrow> bindE (wrapE (\<lambda>e. ErrWrap ''mark unseen stale: '' e []) (mark_unseen_stale cycle)) (\<lambda>marked.
            bindE (wrapE (\<lambda>e. ErrWrap ''record last_successful_sync: '' e []) (set_last_successful_sync finish)) (\<lambda>_.
              ret (Some (add_stale marked (pr_stats p)))))))"
    by (intro exports.ev_bindE exports.ev_wrapE exports.ev_case_prod exports.ev_case_option exports.ev_case_sum exports.ev_ret
        exports.ev_fail exports.ev_sync_grantees sync_grantee_exports doc_marks_export sync_state_export)
qed

text \<open>C13: only whitelisted sources are ever exported: after a sync cycle, however it ends, every document either carries the
  content and attribution it had before, or belongs to an active grantee through a source registered for that
  grantee. Nothing outside documents and sync state has changed.\<close>

theorem sync_only_whitelisted:
  "case run_sync w now finish d fuel s of (r, s') \<Rightarrow>
     but_docs (db_tabs s') = but_docs (db_tabs s) \<and>
     (\<forall>r' \<in> set (t_docs (db_tabs s')). (\<exists>r \<in> set (t_docs (db_tabs s)). same_export r r') \<or>
        whitelisted (db_tabs s) (dc_grantee r') (dc_source_drive r'))"
  using run_sync_exports[of "db_tabs s" w now finish d fuel]
  by (auto simp: evolves_def exports_from_def snap_def split: prod.split dest!: spec[of _ s])

subsection \<open>What a completed cycle leaves behind\<close>

definition cycle_of :: "progress \<Rightarrow> int" where
  "cycle_of p = st_cycle (pr_stats p)"

lemma cycle_of_simps [simp]:
  "cycle_of (bump add_synced p) = cycle_of p" "cycle_of (bump add_unchanged p) = cycle_of p"
  "cycle_of (bump add_skipped p) = cycle_of p" "cycle_of (bump add_failed p) = cycle_of p"
  "cycle_of (bump (add_stale n) p) = cycle_of p" "cycle_of (called p) = cycle_of p"
  by (simp_all add: cycle_of_def bump_def called_def add_synced_def add_unchanged_def add_skipped_def add_failed_def add_stale_def)

lemma gives_process_doc: "gives (\<lambda>p'. cycle_of p' = cycle_of p) (process_doc w now d gid src cycle f p)"
  unfolding process_doc_def export_failed_def
  by (intro gives_if gives_tryE gives_case_sum gives_ret) simp_all

lemma gives_walk_files:
  assumes "\<And>f p. gives (\<lambda>(ok, p'). cycle_of p' = cycle_of p) (h f p)"
  shows "gives (\<lambda>(ok, p'). cycle_of p' = cycle_of p) (walk_files h fs p)"
proof (induction fs arbitrary: p)
  case Nil
  then show ?case unfolding walk_files.simps by (intro gives_ret) simp
next
  case (Cons f fs)
  show ?case unfolding walk_files.simps
  proof (rule gives_bindE[OF assms], clarify)
    fix ok p' assume "cycle_of p' = cycle_of p"
    with Cons.IH[of p'] show "gives (\<lambda>(ok, p'). cycle_of p' = cycle_of p) (if ok then walk_files h fs p' else ret (False, p'))"
      by (intro gives_if gives_ret) simp_all
  qed
qed

lemma gives_walk_folder:
  "gives (\<lambda>(r, p'). cycle_of p' = cycle_of p) (walk_folder w now d gid src cycle n folder token p)"
proof (induction n arbitrary: folder token p)
  case 0
  show ?case unfolding walk_folder.simps by (intro gives_ret) simp
next
  case (Suc n)
  have doc: "gives (\<lambda>(ok, p'). cycle_of p' = cycle_of p) (bindE (process_doc w now d gid src cycle f p) (\<lambda>p'. ret (True, p')))"
    for f p by (rule gives_bindE[OF gives_process_doc]) (intro gives_ret, simp)
  have sub: "gives (\<lambda>(ok, p'). cycle_of p' = cycle_of p)
      (bindE (walk_folder w now d gid src cycle n (f_id f) [] p) (\<lambda>(r, p'). ret (r \<noteq> None, p')))" for f p
    by (rule gives_bindE[OF Suc.IH]) (clarify, intro gives_ret, simp)
  have next_page: "gives (\<lambda>(r, p'). cycle_of p' = cycle_of p)
      (if \<not> ok then ret (None, p') else if fl_next page = [] then ret (Some (Inr ()), p')
       else walk_folder w now d gid src cycle n folder (fl_next page) p')"
    if "cycle_of p' = cycle_of p" for ok p' page
    using Suc.IH[of p' folder "fl_next page"] that by (intro gives_if gives_ret) simp_all
  show ?case unfolding walk_folder.simps
  proof (intro gives_if gives_case_sum gives_ret)
    fix page
    show "gives (\<lambda>(r, p'). cycle_of p' = cycle_of p) (bindE (walk_files (\<lambda>f p.
        if f_mime f = mime_folder then bindE (walk_folder w now d gid src cycle n (f_id f) [] p) (\<lambda>(r, p'). ret (r \<noteq> None, p'))
        else if f_mime f = mime_doc then bindE (process_doc w now d gid src cycle f p) (\<lambda>p'. ret (True, p'))
        else ret (True, p)) (fl_files page) (called p)) (\<lambda>(ok, p').
          if \<not> ok then ret (None, p') else if fl_next page = [] then ret (Some (Inr ()), p')
          else walk_folder w now d gid src cycle n folder (fl_next page) p'))"
    proof (rule gives_bindE[OF gives_walk_files])
      show "gives (\<lambda>(ok, p'). cycle_of p' = cycle_of p) (if f_mime f = mime_folder
          then bindE (walk_folder w now d gid src cycle n (f_id f) [] p) (\<lambda>(r, p'). ret (r \<noteq> None, p'))
          else if f_mime f = mime_doc then bindE (process_doc w now d gid src cycle f p) (\<lambda>p'. ret (True, p'))
          else ret (True, p))" for f p
        by (intro gives_if doc sub gives_ret) simp
    qed (clarify, rule next_page, simp)
  qed simp_all
qed

lemma gives_sync_sources:
  "gives (\<lambda>(r, p'). cycle_of p' = cycle_of p) (sync_sources w now d fuel gid cycle srcs p)"
proof (induction srcs arbitrary: p)
  case Nil
  show ?case unfolding sync_sources.simps by (intro gives_ret) simp
next
  case (Cons src srcs)
  have rest: "gives (\<lambda>(r, p'). cycle_of p' = cycle_of p) (sync_sources w now d fuel gid cycle srcs p')"
    if "cycle_of p' = cycle_of p" for p' using Cons.IH[of p'] that by simp
  have doc: "gives (\<lambda>(r, p'). cycle_of p' = cycle_of p)
      (bindE (process_doc w now d gid src cycle f (called p)) (\<lambda>p'. sync_sources w now d fuel gid cycle srcs p'))" for f
    by (rule gives_bindE[OF gives_process_doc]) (rule rest, simp)
  have folder: "gives (\<lambda>(r, p'). cycle_of p' = cycle_of p)
      (bindE (walk_folder w now d gid src cycle fuel (s_drive src) [] p) (\<lambda>(r, p').
        if r = None then ret (None, p') else sync_sources w now d fuel gid cycle srcs p'))"
    by (rule gives_bindE[OF gives_walk_folder]) (clarify, intro gives_if gives_ret rest, simp_all)
  show ?case unfolding sync_sources.simps
    by (intro gives_if gives_case_sum gives_ret folder doc rest) simp_all
qed

lemma gives_sync_grantees:
  "gives (\<lambda>(r, p'). cycle_of p' = cycle_of p) (sync_grantees w now d fuel cycle gs p)"
proof (induction gs arbitrary: p)
  case Nil
  show ?case unfolding sync_grantees.simps by (intro gives_ret) simp
next
  case (Cons g gs)
  have rest: "gives (\<lambda>(r, p'). cycle_of p' = cycle_of p) (sync_grantees w now d fuel cycle gs p')"
    if "cycle_of p' = cycle_of p" for p' using Cons.IH[of p'] that by simp
  have one: "gives (\<lambda>(r, p'). cycle_of p' = cycle_of p) (sync_grantee w now d fuel cycle g p)"
    unfolding sync_grantee_def by (intro gives_tryE gives_case_sum gives_ret gives_sync_sources) simp
  have "gives (\<lambda>(r, p'). cycle_of p' = cycle_of p) (bindE (sync_grantee w now d fuel cycle g p) (\<lambda>(r, p').
        if r = None then ret (None, p') else sync_grantees w now d fuel cycle gs p'))"
    by (rule gives_bindE[OF one]) (clarify, intro gives_if gives_ret rest, simp_all)
  then show ?case unfolding sync_grantees.simps by (intro gives_if gives_ret) simp_all
qed

text \<open>C14: a completed cycle forgets no document: every document that is still active afterwards, belongs to an active grantee
  and comes from a registered source carries the stamp of this cycle or a later one.\<close>

theorem sync_no_stale_active:
  assumes "run_sync w now finish d fuel s = (Inr (Some st), s')"
  shows "\<forall>r \<in> set (t_docs (db_tabs s')). dc_status r = ''active'' \<and>
    (\<exists>g \<in> set (t_grantees (db_tabs s')). gr_id g = dc_grantee r \<and> gr_status g = ''active'') \<and>
    (\<exists>x \<in> set (t_sources (db_tabs s')). so_drive x = dc_source_drive r) \<longrightarrow> (\<exists>c. dc_cycle r = Some c \<and> st_cycle st \<le> c)"
proof -
  from assms obtain cycle s1 s2 r p s3 where
    gs: "sync_grantees w now d fuel cycle s1 \<lparr>pr_calls = 0, pr_stats = start_stats cycle\<rparr> s2 = (Inr (r, p), s3)"
    and k: "(case r of None \<Rightarrow> ret None | Some (Inl e) \<Rightarrow> fail e | Some (Inr _) \<Rightarrow>
        bindE (wrapE (\<lambda>e. ErrWrap ''mark unseen stale: '' e []) (mark_unseen_stale cycle)) (\<lambda>marked.
        bindE (wrapE (\<lambda>e. ErrWrap ''record last_successful_sync: '' e []) (set_last_successful_sync finish)) (\<lambda>_.
          ret (Some (add_stale marked (pr_stats p)))))) s3 = (Inr (Some st), s')"
    unfolding run_sync_def by (auto simp: bindE_Inr_iff)
  obtain x where r: "r = Some x" using k by (cases r) simp_all
  have "x = Inr ()" using k unfolding r by (cases x) simp_all
  with k r obtain marked s4 where
    m: "mark_unseen_stale cycle s3 = (Inr marked, s4)" and f: "set_last_successful_sync finish s4 = (Inr (), s')"
    and st: "st = add_stale marked (pr_stats p)"
    by (auto simp: bindE_Inr_iff)
  have "cycle_of p = cycle" using givesD[OF gives_sync_grantees gs] by (simp add: cycle_of_def start_stats_def)
  then have cyc: "st_cycle st = cycle" by (simp add: st add_stale_def cycle_of_def)
  let ?t = "db_tabs s3"
  from pg_modify_Inr(2)[OF m[unfolded mark_unseen_stale_def]] have t4: "db_tabs s4 = ?t\<lparr>t_docs := update_where (unseen ?t cycle)
      (\<lambda>r. r\<lparr>dc_status := ''stale'', dc_last_error := Some ''not seen in last sync cycle''\<rparr>) (t_docs ?t)\<rparr>"
    by (simp add: update_docs_def)
  from put_sync_Inr[OF pg_modify_Inr(2)[OF f[unfolded set_last_successful_sync_def]]] have
    same: "t_docs (db_tabs s') = t_docs (db_tabs s4)" "t_grantees (db_tabs s') = t_grantees ?t" "t_sources (db_tabs s') = t_sources ?t"
    by (simp_all add: t4)
  show ?thesis
  proof (intro ballI impI, elim conjE)
    fix r assume "r \<in> set (t_docs (db_tabs s'))" and act: "dc_status r = ''active''"
      and g: "\<exists>g \<in> set (t_grantees (db_tabs s')). gr_id g = dc_grantee r \<and> gr_status g = ''active''"
      and x: "\<exists>x \<in> set (t_sources (db_tabs s')). so_drive x = dc_source_drive r"
    then have "r \<in> set (t_docs ?t) \<and> \<not> unseen ?t cycle r" by (auto simp: same t4 row_simps)
    then show "\<exists>c. dc_cycle r = Some c \<and> st_cycle st \<le> c"
      using act g x by (auto simp: unseen_def same list_ex_iff cyc split: option.splits)
  qed
qed

section \<open>One document, and the end of a walk\<close>

lemma get_doc_clean:
  "db_faults s = [] \<Longrightarrow> pg_text_ok i \<Longrightarrow> get_doc_by_id i s =
     (case lookup_by dc_id i (t_docs (db_tabs s)) of None \<Rightarrow> (Inl ErrNotFound, s) | Some r \<Rightarrow> (Inr (doc_of_row r), s))"
  by (simp add: get_doc_by_id_def clean_simps not_found_def split: option.split)

text \<open>a document whose modification time is the stored one is not exported again: the cycle only refreshes its stamp,
  its sync time and its status. (Drive's times count only in whole seconds here, see the next property.)\<close>

theorem unchanged_doc_noop:
  assumes "db_faults s = []" and "pg_text_ok (f_id f)" and "f_mime f = mime_doc"
    and "lookup_by dc_id (f_id f) (t_docs (db_tabs s)) = Some r"
    and "parse_drive_time (f_modified f) = Inr (from_unix (dc_modified r))"
  shows "process_doc w now d gid src cycle f p s = (Inr (bump add_unchanged p), s\<lparr>db_tabs := (db_tabs s)\<lparr>t_docs :=
    update_where (\<lambda>x. dc_id x = f_id f)
      (\<lambda>x. x\<lparr>dc_cycle := Some cycle, dc_synced := now, dc_status := ''active'', dc_last_error := None\<rparr>) (t_docs (db_tabs s))\<rparr>\<rparr>)"
proof -
  have "count_where (\<lambda>x. dc_id x = f_id f) (t_docs (db_tabs s)) \<noteq> 0"
    using lookup_by_Some[OF assms(4)] by (auto simp: row_simps)
  then have "touch_doc_seen now (f_id f) cycle s = (Inr (), s\<lparr>db_tabs := (db_tabs s)\<lparr>t_docs :=
    update_where (\<lambda>x. dc_id x = f_id f)
      (\<lambda>x. x\<lparr>dc_cycle := Some cycle, dc_synced := now, dc_status := ''active'', dc_last_error := None\<rparr>) (t_docs (db_tabs s))\<rparr>\<rparr>)"
    using assms(1,2) by (simp add: touch_doc_seen_def clean_simps update_docs_def require_one_row_def)
  then show ?thesis
    using assms by (simp add: process_doc_def tryE_eq get_doc_clean doc_of_row_def)
qed

text \<open>a document whose Drive time has a fraction of a second is exported again in every cycle, whatever is stored: the
  database keeps whole seconds, and the comparison with the full time never succeeds.\<close>

theorem fractional_time_reexported:
  assumes "db_faults s = []" and "pg_text_ok (f_id f)" and "f_mime f = mime_doc"
    and "parse_drive_time (f_modified f) = Inr t" and "from_unix (unix t) \<noteq> t"
  shows "\<exists>p' s'. process_doc w now d gid src cycle f p s = (Inr p', s') \<and> pr_calls p' = pr_calls p + 1"
proof -
  have ne: "from_unix i \<noteq> t" for i using assms(5) by (metis unix_from_unix)
  have calls: "pr_calls (bump g (called p)) = pr_calls p + 1" for g by (simp add: bump_def called_def)
  show ?thesis
    using assms ne calls
    by (cases "lookup_by dc_id (f_id f) (t_docs (db_tabs s))")
      (auto simp: process_doc_def tryE_eq get_doc_clean doc_of_row_def export_failed_def split: sum.split)
qed

lemma process_doc_total: "\<exists>p' s'. process_doc w now d gid src cycle f p s = (Inr p', s')"
  unfolding process_doc_def export_failed_def by (auto simp: tryE_eq split: sum.split)

lemma walk_files_total:
  assumes "\<And>f p s. f \<in> set fs \<Longrightarrow> \<exists>p' s'. h f p s = (Inr (True, p'), s')"
  shows "\<exists>p' s'. walk_files h fs p s = (Inr (True, p'), s')"
  using assms
proof (induction fs arbitrary: p s)
  case (Cons f fs)
  from Cons.prems[of f p s] obtain p1 s1 where h: "h f p s = (Inr (True, p1), s1)" by auto
  have "\<exists>p' s'. walk_files h fs p1 s1 = (Inr (True, p'), s')" using Cons by simp
  with h show ?case by (auto simp: bindE_eq)
qed simp

text \<open>C15: the folder walk returns: if the folder tree and the page chains Drive reports are well-founded, that is, a rank
  decreases from a folder page to the first page of each subfolder on it and to the next page, then fuel above the
  rank is enough and the walk ends with a result.\<close>

theorem walk_folder_returns:
  assumes sub: "\<And>k folder token page f. dv_list d k folder token = Inr page \<Longrightarrow> f \<in> set (fl_files page) \<Longrightarrow>
      f_mime f = mime_folder \<Longrightarrow> rank (f_id f) [] < rank folder token"
    and nxt: "\<And>k folder token page. dv_list d k folder token = Inr page \<Longrightarrow> fl_next page \<noteq> [] \<Longrightarrow>
      rank folder (fl_next page) < rank folder token"
    and fuel: "rank folder token < (fuel :: nat)"
  shows "\<exists>r p' s'. walk_folder w now d gid src cycle fuel folder token p s = (Inr (Some r, p'), s')"
  using fuel
proof (induction fuel arbitrary: folder token p s)
  case 0
  then show ?case by simp
next
  case (Suc n)
  show ?case
  proof (cases "dv_done d (pr_calls p)")
    case True
    then show ?thesis by simp
  next
    case False
    show ?thesis
    proof (cases "dv_list d (pr_calls p) folder token")
      case (Inl e)
      then show ?thesis using False by simp
    next
      case (Inr page)
      let ?h = "\<lambda>f p. if f_mime f = mime_folder
          then bindE (walk_folder w now d gid src cycle n (f_id f) [] p) (\<lambda>(r, p'). ret (r \<noteq> None, p'))
          else if f_mime f = mime_doc then bindE (process_doc w now d gid src cycle f p) (\<lambda>p'. ret (True, p'))
          else ret (True, p)"
      have "\<exists>p' s'. ?h f p s = (Inr (True, p'), s')" if f: "f \<in> set (fl_files page)" for f p s
      proof (cases "f_mime f = mime_folder")
        case True
        then have "rank (f_id f) [] < n" using sub[OF Inr f] Suc.prems by simp
        from Suc.IH[OF this, of p s] True show ?thesis by (auto simp: bindE_eq)
      next
        case False
        then show ?thesis using process_doc_total[of w now d gid src cycle f p s] by (auto simp: bindE_eq)
      qed
      then obtain p1 s1 where files: "walk_files ?h (fl_files page) (called p) s = (Inr (True, p1), s1)"
        using walk_files_total[of "fl_files page" ?h] by blast
      show ?thesis
      proof (cases "fl_next page = []")
        case True
        then show ?thesis using False Inr files by (simp add: bindE_eq)
      next
        case more: False
        then have "rank folder (fl_next page) < n" using nxt[OF Inr more] Suc.prems by simp
        from Suc.IH[OF this, of p1 s1] show ?thesis using False Inr files more by (simp add: bindE_eq)
      qed
    qed
  qed
qed

section \<open>Concrete cycles\<close>

text \<open>One active grantee with one folder; Drive has one document in it, changed at half past a second.\<close>

definition demo_file :: "string \<Rightarrow> drive_file" where
  "demo_file m = \<lparr> f_id = ''D'', f_name = ''Doc'', f_mime = mime_doc, f_modified = m, f_owners = [''O@x''], f_trashed = False \<rparr>"

definition demo_drive :: drive where
  "demo_drive = \<lparr> dv_list = (\<lambda>k folder token. if folder = ''F''
       then Inr \<lparr> fl_files = [demo_file ''2024-05-01T10:00:00.5Z''], fl_next = [] \<rparr>
       else Inl (ErrStatus 404 ''u'' ''gone'')),
     dv_get = (\<lambda>k i. Inl (ErrStatus 404 ''u'' ''gone'')), dv_export = (\<lambda>k i. Inr ''# hi''), dv_done = (\<lambda>k. False) \<rparr>"

definition demo_sources :: db where
  "demo_sources = demo_db\<lparr>db_tabs := (db_tabs demo_db)\<lparr>t_sources :=
     [\<lparr> so_id = 1, so_grantee = ''ann'', so_type = ''folder'', so_drive = ''F'', so_added = 0 \<rparr>]\<rparr>\<rparr>"

definition demo_synced :: "stats option dbm" where
  "demo_synced = run_sync demo_world 9 9000000000 demo_drive 3"

theorem sync_only_whitelisted_witness:
  "list_all (\<lambda>r. whitelisted (db_tabs demo_sources) (dc_grantee r) (dc_source_drive r))
     (t_docs (db_tabs (snd (demo_synced demo_sources))))"
proof -
  have "t_docs (db_tabs demo_sources) = []" by code_simp
  with sync_only_whitelisted[where w = demo_world and now = 9 and finish = 9000000000 and d = demo_drive and fuel = 3 and s = demo_sources] show ?thesis
    by (auto simp: demo_synced_def list_all_iff split: prod.splits)
qed

theorem sync_no_stale_active_witness:
  "list_all (\<lambda>r. dc_cycle r = Some 1) (t_docs (db_tabs (snd (demo_synced demo_sources)))) \<and>
   list_ex (\<lambda>r. dc_status r = ''active'' \<and> (\<exists>c. dc_cycle r = Some c \<and> 1 \<le> c)) (t_docs (db_tabs (snd (demo_synced demo_sources))))"
proof -
  let ?s = "snd (demo_synced demo_sources)"
  have "map_sum err_text (map_option st_cycle) (fst (demo_synced demo_sources)) = Inr (Some 1)" by code_simp
  then obtain st where st: "fst (demo_synced demo_sources) = Inr (Some st)" "st_cycle st = 1"
    by (cases "fst (demo_synced demo_sources)") auto
  note cl = sync_no_stale_active[OF pair_of_fst[OF st(1)[unfolded demo_synced_def]]]
  have ex: "list_ex (\<lambda>r. dc_status r = ''active'' \<and>
    list_ex (\<lambda>g. gr_id g = dc_grantee r \<and> gr_status g = ''active'') (t_grantees (db_tabs ?s)) \<and>
    list_ex (\<lambda>x. so_drive x = dc_source_drive r) (t_sources (db_tabs ?s))) (t_docs (db_tabs ?s))" by code_simp
  have "list_all (\<lambda>r. dc_cycle r = Some 1) (t_docs (db_tabs ?s))" by code_simp
  moreover have "list_ex (\<lambda>r. dc_status r = ''active'' \<and> (\<exists>c. dc_cycle r = Some c \<and> 1 \<le> c)) (t_docs (db_tabs ?s))"
    using ex cl st(2) unfolding list_ex_iff demo_synced_def[symmetric] by (simp add: demo_synced_def) blast
  ultimately show ?thesis by simp
qed

definition demo_progress :: progress where
  "demo_progress = \<lparr> pr_calls = 0, pr_stats = start_stats 4 \<rparr>"

definition demo_source :: source where
  "demo_source = \<lparr> s_id = 1, s_grantee = ''ann'', s_type = ''folder'', s_drive = ''F'', s_added = 0 \<rparr>"

definition demo_stored :: db where
  "demo_stored = demo_db\<lparr>db_tabs := (db_tabs demo_db)\<lparr>t_docs := [demo_doc ''D'' 1714557600]\<rparr>\<rparr>"

theorem unchanged_doc_noop_witness:
  "fst (process_doc demo_world 9 demo_drive ''ann'' demo_source 4 (demo_file ''2024-05-01T10:00:00Z'') demo_progress demo_stored) =
     Inr (bump add_unchanged demo_progress)"
proof -
  let ?f = "demo_file ''2024-05-01T10:00:00Z''"
  have "lookup_by dc_id (f_id ?f) (t_docs (db_tabs demo_stored)) = Some (demo_doc ''D'' 1714557600)" by code_simp
  moreover have "db_faults demo_stored = []" "pg_text_ok (f_id ?f)" "f_mime ?f = mime_doc" by code_simp+
  moreover have "parse_drive_time (f_modified ?f) = Inr (from_unix (dc_modified (demo_doc ''D'' 1714557600)))" by code_simp
  ultimately show ?thesis by (simp add: unchanged_doc_noop)
qed

theorem fractional_time_reexported_witness:
  "\<exists>p' s'. process_doc demo_world 9 demo_drive ''ann'' demo_source 4 (demo_file ''2024-05-01T10:00:00.5Z'') demo_progress demo_stored =
     (Inr p', s') \<and> pr_calls p' = 1"
proof -
  let ?f = "demo_file ''2024-05-01T10:00:00.5Z''"
  have "db_faults demo_stored = []" "pg_text_ok (f_id ?f)" "f_mime ?f = mime_doc" by code_simp+
  moreover have "parse_drive_time (f_modified ?f) = Inr 1714557600500000000" by code_simp
  moreover have "from_unix (unix 1714557600500000000) \<noteq> 1714557600500000000" by (simp add: from_unix_def unix_def)
  ultimately show ?thesis
    using fractional_time_reexported[of demo_stored ?f 1714557600500000000 demo_world 9 demo_drive "''ann''" demo_source 4 demo_progress]
    by (simp add: demo_progress_def)
qed

theorem walk_folder_returns_witness:
  "\<exists>r p' s'. walk_folder demo_world 9 demo_drive ''ann'' demo_source 4 1 ''F'' [] demo_progress demo_stored = (Inr (Some r, p'), s')"
  by (rule walk_folder_returns[where rank = "\<lambda>_ _. 0"])
    (auto simp: demo_drive_def demo_file_def mime_doc_def mime_folder_def split: if_splits)

end
