(* ===== verification/DriveClient.thy ===== *)
theory DriveClient
  imports DriveSync GoUrl JsonArrays
begin

text \<open>
  \<open>internal/drive/client.go\<close>: the client behind \<open>DriveAPI\<close>. The token source and the HTTP exchange are the record
  \<open>drive_http\<close>, indexed by the number of the request; \<open>http_drive\<close> is the \<open>drive\<close> a sync cycle gets from it.

  Replies are decoded from their JSON text with the scanner of \<open>Json\<close>. Main results: \<open>list_request_delivered\<close> and
  \<open>file_request_delivered\<close> (whatever the ids and tokens are, the server reads back exactly what the client meant) and
  \<open>http_drive_fails\<close> (which replies count as lost access).
\<close>

section \<open>Requests\<close>

record drive_http =
  dh_base :: string
  dh_token :: "nat \<Rightarrow> err + string"
  dh_send :: "nat \<Rightarrow> string \<Rightarrow> string \<Rightarrow> err + nat \<times> (err + string)"
    \<comment> \<open>request number, token and URL; the reply is a status and a body, or the error of reading it\<close>

definition default_base_url :: string where
  "default_base_url = ''https://www.googleapis.com/drive/v3''"

text \<open>\<open>New\<close>: the base URL defaults, a token source is required.\<close>

definition new_client :: "string \<Rightarrow> (nat \<Rightarrow> err + string) option \<Rightarrow> (nat \<Rightarrow> string \<Rightarrow> string \<Rightarrow> err + nat \<times> (err + string)) \<Rightarrow> err + drive_http" where
  "new_client base tokens send =
     (case tokens of
        None \<Rightarrow> Inl (ErrNew ''drive: a TokenSource is required'')
      | Some t \<Rightarrow> Inr \<lparr> dh_base = (if base = [] then default_base_url else base), dh_token = t, dh_send = send \<rparr>)"

text \<open>\<open>doRaw\<close>. It starts with \<open>http.NewRequest\<close>, which fails on a URL that cannot be parsed. That branch is left out: what
  follows the base URL is a fixed path with escaped components, so only a malformed \<open>GDOCS_DRIVE_BASE_URL\<close> of the configuration
  could take it, and then every request would. The model is about a base URL that parses.\<close>

definition body_limit :: nat where "body_limit = 33554432"

definition do_raw :: "drive_http \<Rightarrow> nat \<Rightarrow> string \<Rightarrow> err + string" where
  "do_raw c n endpoint =
     (case dh_token c n of
        Inl e \<Rightarrow> Inl (ErrWrap ''drive: get access token: '' e [])
      | Inr tok \<Rightarrow>
          (case dh_send c n tok endpoint of
             Inl e \<Rightarrow> Inl (ErrWrap (''drive: GET '' @ endpoint @ '': '') e [])
           | Inr (st, Inl e) \<Rightarrow> Inl (ErrWrap (''drive: read '' @ endpoint @ '': '') e [])
           | Inr (st, Inr raw) \<Rightarrow>
               (let b = take body_limit raw in
                if st < 200 \<or> st \<ge> 300 then Inl (ErrStatus st endpoint b) else Inr b)))"

definition decoded :: "string \<Rightarrow> (string \<Rightarrow> err + 'a) \<Rightarrow> err + string \<Rightarrow> err + 'a" where
  "decoded endpoint dec r =
     (case r of
        Inl e \<Rightarrow> Inl e
      | Inr b \<Rightarrow> (case dec b of Inl e \<Rightarrow> Inl (ErrWrap (''drive: decode '' @ endpoint @ '': '') e []) | Inr x \<Rightarrow> Inr x))"

text \<open>\<open>escape\<close> of a string literal in a Drive query.\<close>

definition drive_escape :: "string \<Rightarrow> string" where
  "drive_escape s = replace_byte (CHR 0x27) [CHR 0x5C, CHR 0x27] s"

definition folder_query :: "string \<Rightarrow> string" where
  "folder_query folder = [CHR 0x27] @ drive_escape folder @ [CHR 0x27] @ '' in parents and trashed = false''"

definition list_fields :: string where
  "list_fields = ''files(id,name,mimeType,modifiedTime,sharedWithMeTime,owners(emailAddress,displayName),trashed),nextPageToken''"

definition get_fields :: string where
  "get_fields = ''id,name,mimeType,modifiedTime,owners(emailAddress,displayName),trashed''"

definition list_url :: "drive_http \<Rightarrow> string \<Rightarrow> string \<Rightarrow> string" where
  "list_url c q token = dh_base c @ ''/files?'' @ values_encode
     ([(''q'', q), (''fields'', list_fields), (''pageSize'', ''1000'')] @ (if token = [] then [] else [(''pageToken'', token)]))"

definition get_url :: "drive_http \<Rightarrow> string \<Rightarrow> string \<Rightarrow> string" where
  "get_url c i flds = dh_base c @ ''/files/'' @ path_escape i @ ''?'' @
     values_encode [(''fields'', if flds = [] then get_fields else flds)]"

definition export_url :: "drive_http \<Rightarrow> string \<Rightarrow> string" where
  "export_url c i = dh_base c @ ''/files/'' @ path_escape i @ ''/export?'' @ values_encode [(''mimeType'', ''text/markdown'')]"

section \<open>Replies\<close>

text \<open>
  \<open>json.Unmarshal\<close> into a struct: a setter per field takes the raw text of a value and tells whether its type did not fit;
  decoding goes on after such an error, which is returned at the end.
\<close>

type_synonym 'a setter = "string \<Rightarrow> 'a \<Rightarrow> bool \<times> 'a"

definition set_string :: "(string \<Rightarrow> 'a \<Rightarrow> 'a) \<Rightarrow> 'a setter" where
  "set_string put raw x =
     (case raw of
        [] \<Rightarrow> (False, x)
      | c # _ \<Rightarrow> if c = CHR 0x22 then (False, put (unquote_json raw) x) else (c \<noteq> CHR ''n'', x))"

definition set_bool :: "(bool \<Rightarrow> 'a \<Rightarrow> 'a) \<Rightarrow> 'a setter" where
  "set_bool put raw x =
     (case raw of
        [] \<Rightarrow> (False, x)
      | c # _ \<Rightarrow> if c = CHR ''t'' then (False, put True x) else if c = CHR ''f'' then (False, put False x)
                 else (c \<noteq> CHR ''n'', x))"

definition set_member :: "(string \<times> 'a setter) list \<Rightarrow> string \<times> string \<Rightarrow> bool \<times> 'a \<Rightarrow> bool \<times> 'a" where
  "set_member sets kv acc =
     (case field_of_key (map fst sets) (unquote_json (fst kv)) of
        None \<Rightarrow> acc
      | Some n \<Rightarrow> (case map_of sets n of
          None \<Rightarrow> acc
        | Some f \<Rightarrow> (case f (snd kv) (snd acc) of (bad, x) \<Rightarrow> (fst acc \<or> bad, x))))"

definition set_struct :: "(string \<times> 'a setter) list \<Rightarrow> 'a setter" where
  "set_struct sets raw x =
     (case raw of
        [] \<Rightarrow> (False, x)
      | c # _ \<Rightarrow> if c = CHR ''{'' then fold (set_member sets) (json_members raw) (False, x) else (c \<noteq> CHR ''n'', x))"

text \<open>A slice: the elements are decoded into zero values; \<open>null\<close> makes it nil.\<close>

definition set_slice :: "'b setter \<Rightarrow> 'b \<Rightarrow> ('b list \<Rightarrow> 'a \<Rightarrow> 'a) \<Rightarrow> 'a setter" where
  "set_slice el zero put raw x =
     (case raw of
        [] \<Rightarrow> (False, x)
      | c # _ \<Rightarrow>
          if c = CHR ''['' then (let rs = map (\<lambda>e. el e zero) (json_elements raw) in (list_ex fst rs, put (map snd rs) x))
          else if c = CHR ''n'' then (False, put [] x) else (True, x))"

definition owner_setter :: "(string \<times> string) setter" where
  "owner_setter = set_struct [(''emailAddress'', set_string (\<lambda>v o1. (v, snd o1))), (''displayName'', set_string (\<lambda>v o1. (fst o1, v)))]"

definition zero_file :: drive_file where
  "zero_file = \<lparr> f_id = [], f_name = [], f_mime = [], f_modified = [], f_owners = [], f_trashed = False \<rparr>"

definition file_setter :: "drive_file setter" where
  "file_setter = set_struct
     [(''id'', set_string (\<lambda>v f. f\<lparr>f_id := v\<rparr>)), (''name'', set_string (\<lambda>v f. f\<lparr>f_name := v\<rparr>)),
      (''mimeType'', set_string (\<lambda>v f. f\<lparr>f_mime := v\<rparr>)), (''modifiedTime'', set_string (\<lambda>v f. f\<lparr>f_modified := v\<rparr>)),
      (''owners'', set_slice owner_setter ([], []) (\<lambda>os f. f\<lparr>f_owners := map fst os\<rparr>)),
      (''trashed'', set_bool (\<lambda>v f. f\<lparr>f_trashed := v\<rparr>))]"

definition list_setter :: "file_list setter" where
  "list_setter = set_struct
     [(''files'', set_slice file_setter zero_file (\<lambda>fs l. l\<lparr>fl_files := fs\<rparr>)),
      (''nextPageToken'', set_string (\<lambda>v l. l\<lparr>fl_next := v\<rparr>))]"

text \<open>Unmarshalling checks the syntax of the whole text first.\<close>

definition unmarshal_with :: "'a setter \<Rightarrow> 'a \<Rightarrow> string \<Rightarrow> err + 'a" where
  "unmarshal_with f zero raw =
     (case json_compact raw of
        None \<Rightarrow> Inl (ErrNew ''invalid JSON'')
      | Some c \<Rightarrow> (case f c zero of (bad, x) \<Rightarrow>
          if bad then Inl (ErrNew ''json: cannot unmarshal value'') else Inr x))"

section \<open>The client\<close>

definition list_folder :: "drive_http \<Rightarrow> nat \<Rightarrow> string \<Rightarrow> string \<Rightarrow> err + file_list" where
  "list_folder c n folder token =
     (let url = list_url c (folder_query folder) token in
      decoded url (unmarshal_with list_setter \<lparr> fl_files = [], fl_next = [] \<rparr>) (do_raw c n url))"

definition get_file :: "drive_http \<Rightarrow> nat \<Rightarrow> string \<Rightarrow> string \<Rightarrow> err + drive_file" where
  "get_file c n i flds =
     (let url = get_url c i flds in decoded url (unmarshal_with file_setter zero_file) (do_raw c n url))"

definition export_markdown :: "drive_http \<Rightarrow> nat \<Rightarrow> string \<Rightarrow> err + string" where
  "export_markdown c n i = do_raw c n (export_url c i)"

definition http_drive :: "drive_http \<Rightarrow> (nat \<Rightarrow> bool) \<Rightarrow> drive" where
  "http_drive c stop = \<lparr> dv_list = list_folder c, dv_get = (\<lambda>n i. get_file c n i []), dv_export = export_markdown c, dv_done = stop \<rparr>"

section \<open>The server reads what the client meant\<close>

text \<open>C20: a listing asks for what was meant: whatever the folder id and the page token contain, the path of the request is the
  files endpoint, and its query decodes to the folder condition with the escaped id, the requested fields, the page size
  and that token.\<close>

theorem list_request_delivered:
  "\<exists>query. cut_url (drop (length (dh_base c)) (list_url c (folder_query folder) token)) = (''/files'', query) \<and>
     query_get query ''q'' = folder_query folder \<and> query_get query ''pageToken'' = token \<and>
     query_get query ''fields'' = list_fields \<and> query_get query ''pageSize'' = ''1000''"
proof -
  let ?kvs = "[(''q'', folder_query folder), (''fields'', list_fields), (''pageSize'', ''1000'')] @
      (if token = [] then [] else [(''pageToken'', token)])"
  have "cut_url (''/files'' @ CHR ''?'' # values_encode ?kvs) = (''/files'', values_encode ?kvs)"
    by (rule cut_query) (simp_all add: values_encode_free del: append.simps)
  then have "cut_url (drop (length (dh_base c)) (list_url c (folder_query folder) token)) = (''/files'', values_encode ?kvs)"
    by (simp add: list_url_def)
  moreover have "distinct (map fst ?kvs)" "?kvs \<noteq> []" by simp_all
  note q = query_get_encode[OF this(2,1)]
  have "query_get (values_encode ?kvs) ''q'' = folder_query folder" "query_get (values_encode ?kvs) ''pageToken'' = token"
    "query_get (values_encode ?kvs) ''fields'' = list_fields" "query_get (values_encode ?kvs) ''pageSize'' = ''1000''"
    unfolding q by simp_all
  ultimately show ?thesis by blast
qed

lemma unescape_fixed: "url_unescape False ''files'' = Some ''files''" "url_unescape False ''export'' = Some ''export''"
  by code_simp+

lemma fixed_segment_free: "segment_free ''files''" "segment_free ''export''"
  by (simp_all add: segment_free_def)

lemma file_path:
  assumes "tail = [] \<or> tail = [''export'']" and "kvs \<noteq> []" and "distinct (map fst kvs)"
  shows "\<exists>path query. cut_url (concat (map (\<lambda>s. CHR ''/'' # s) ([''files'', path_escape i] @ tail)) @ CHR ''?'' # values_encode kvs) =
      (path, query) \<and>
    those (map (url_unescape False) (split_on CHR ''/'' path)) = Some ([[], ''files'', i] @ tail) \<and>
    (\<forall>k. query_get query k = (case map_of kvs k of None \<Rightarrow> [] | Some v \<Rightarrow> v))"
proof -
  let ?ss = "[''files'', path_escape i] @ tail"
  let ?p = "concat (map (\<lambda>s. CHR ''/'' # s) ?ss)"
  have free: "\<And>s. s \<in> set ?ss \<Longrightarrow> segment_free s"
    using assms(1) fixed_segment_free path_escape_segment by auto
  then have "CHR ''?'' \<notin> set ?p" "CHR ''#'' \<notin> set ?p" by (auto simp: segment_free_def)
  then have cut: "cut_url (?p @ CHR ''?'' # values_encode kvs) = (?p, values_encode kvs)"
    by (rule cut_query) (simp add: values_encode_free)
  have "split_on CHR ''/'' ?p = [] # ?ss" by (rule path_segments(2)[OF _ free]) simp_all
  moreover have "those (map (url_unescape False) ([] # ?ss)) = Some ([[], ''files'', i] @ tail)"
    using assms(1) unescape_fixed by (auto simp del: url_unescape.simps(2))
  ultimately show ?thesis using cut query_get_encode[OF assms(2,3)] by auto
qed

text \<open>a file request names the file: whatever the id contains, the path of the request splits into the files endpoint and
  one segment that unescapes to the id (followed by the export endpoint for an export).\<close>

theorem file_request_delivered:
  "(\<exists>path query. cut_url (drop (length (dh_base c)) (get_url c i flds)) = (path, query) \<and>
     those (map (url_unescape False) (split_on CHR ''/'' path)) = Some [[], ''files'', i] \<and>
     query_get query ''fields'' = (if flds = [] then get_fields else flds)) \<and>
   (\<exists>path query. cut_url (drop (length (dh_base c)) (export_url c i)) = (path, query) \<and>
     those (map (url_unescape False) (split_on CHR ''/'' path)) = Some [[], ''files'', i, ''export''] \<and>
     query_get query ''mimeType'' = ''text/markdown'')"
proof
  show "\<exists>path query. cut_url (drop (length (dh_base c)) (get_url c i flds)) = (path, query) \<and>
     those (map (url_unescape False) (split_on CHR ''/'' path)) = Some [[], ''files'', i] \<and>
     query_get query ''fields'' = (if flds = [] then get_fields else flds)"
    using file_path[of "[]" "[(''fields'', if flds = [] then get_fields else flds)]" i] by (auto simp: get_url_def)
  show "\<exists>path query. cut_url (drop (length (dh_base c)) (export_url c i)) = (path, query) \<and>
     those (map (url_unescape False) (split_on CHR ''/'' path)) = Some [[], ''files'', i, ''export''] \<and>
     query_get query ''mimeType'' = ''text/markdown''"
    using file_path[of "[''export'']" "[(''mimeType'', ''text/markdown'')]" i] by (auto simp: export_url_def)
qed

section \<open>Lost access\<close>

text \<open>An error of the exchange itself is no reply.\<close>

definition plain_errors :: "drive_http \<Rightarrow> bool" where
  "plain_errors c \<longleftrightarrow> (\<forall>n e. dh_token c n = Inl e \<longrightarrow> \<not> is_not_found_or_forbidden e) \<and>
     (\<forall>n tok u e. dh_send c n tok u = Inl e \<longrightarrow> \<not> is_not_found_or_forbidden e) \<and>
     (\<forall>n tok u st e. dh_send c n tok u = Inr (st, Inl e) \<longrightarrow> \<not> is_not_found_or_forbidden e)"

lemma http_drive_fails:
  assumes "plain_errors c" and "do_raw c n url = Inl e"
  shows "is_not_found_or_forbidden e \<longleftrightarrow>
    (\<exists>tok st b. dh_token c n = Inr tok \<and> dh_send c n tok url = Inr (st, Inr b) \<and> (st = 403 \<or> st = 404))"
  using assms by (auto simp: do_raw_def plain_errors_def Let_def split: sum.splits prod.splits if_splits)

lemma err_text_status: "err_text (ErrStatus st url b) \<noteq> []"
  by simp

text \<open>C21: a document Drive no longer gives out: when the export of a stored document is answered with 403 or 404, the cycle counts
  it as stale and, provided the error's text can be stored, its row is stale with that text. The text holds the first 256
  bytes of the reply; cut inside a character it is not valid UTF-8, the database rejects the update, and the row stays as
  it was although it is counted.\<close>

theorem lost_document_marked:
  assumes "db_faults s = []" and "pg_text_ok (f_id f)" and "f_mime f = mime_doc"
    and row: "lookup_by dc_id (f_id f) (t_docs (db_tabs s)) = Some r"
    and "parse_drive_time (f_modified f) = Inr m" and "m \<noteq> from_unix (dc_modified r)"
    and reply: "dh_token c (pr_calls p) = Inr tok" "dh_send c (pr_calls p) tok (export_url c (f_id f)) = Inr (st, Inr raw)"
      "st = 403 \<or> st = 404"
  shows "\<exists>s'. process_doc w now (http_drive c stop) gid src cycle f p s = (Inr (bump (add_stale 1) (called p)), s') \<and>
    (let msg = err_text (ErrStatus st (export_url c (f_id f)) (take body_limit raw)) in
     lookup_by dc_id (f_id f) (t_docs (db_tabs s')) =
       Some (if pg_text_ok msg then r\<lparr>dc_status := ''stale'', dc_last_error := Some msg\<rparr> else r))"
proof -
  define e where "e = ErrStatus st (export_url c (f_id f)) (take body_limit raw)"
  have exp: "dv_export (http_drive c stop) (pr_calls p) (f_id f) = Inl e"
    using reply by (auto simp: http_drive_def export_markdown_def do_raw_def e_def Let_def)
  have lost: "is_not_found_or_forbidden e" using reply(3) by (auto simp: e_def)
  have msg: "null_str (err_text e) = Some (err_text e)" using err_text_status by (simp add: null_str_def e_def del: err_text.simps)
  have run: "process_doc w now (http_drive c stop) gid src cycle f p s =
      tryE (mark_doc_stale (f_id f) (err_text e)) (\<lambda>_. ret (bump (add_stale 1) (called p))) s"
    using assms exp lost by (simp add: process_doc_def tryE_eq get_doc_clean doc_of_row_def export_failed_def)
  have id: "dc_id r = f_id f" using lookup_by_Some[OF row] by simp
  show ?thesis
  proof (cases "pg_text_ok (err_text e)")
    case True
    then have "\<exists>s'. mark_doc_stale (f_id f) (err_text e) s = (Inr (), s') \<and> t_docs (db_tabs s') =
        update_where (\<lambda>r. dc_id r = f_id f) (\<lambda>r. r\<lparr>dc_status := ''stale'', dc_last_error := Some (err_text e)\<rparr>) (t_docs (db_tabs s))"
      using assms(1,2) by (simp add: mark_doc_stale_def clean_simps update_docs_def msg opt_arg_def)
    then show ?thesis using run row id True
      by (auto simp: tryE_eq lookup_by_update_where Let_def simp flip: e_def)
  next
    case False
    then have "\<exists>x. mark_doc_stale (f_id f) (err_text e) s = (Inl x, s)"
      using assms(1) by (simp add: mark_doc_stale_def clean_simps msg opt_arg_def)
    then show ?thesis using run row False by (auto simp: tryE_eq Let_def simp flip: e_def)
  qed
qed

text \<open>A reply whose 256th byte is the first of a two-byte character.\<close>

definition demo_lost_body :: string where
  "demo_lost_body = replicate 255 CHR ''a'' @ [CHR 0xC3, CHR 0xA9]"

definition demo_http :: drive_http where
  "demo_http = \<lparr> dh_base = ''http://d'', dh_token = (\<lambda>_. Inr ''t''), dh_send = (\<lambda>_ _ _. Inr (404, Inr demo_lost_body)) \<rparr>"

lemma demo_lost_text: "\<not> pg_text_ok (err_text (ErrStatus 404 (export_url demo_http ''D'') demo_lost_body))"
  by code_simp

theorem lost_document_marked_witness:
  "\<exists>s'. process_doc demo_world 9 (http_drive demo_http (\<lambda>_. False)) ''ann'' demo_source 4 (demo_file ''2024-05-02T10:00:00Z'')
      demo_progress demo_stored = (Inr (bump (add_stale 1) (called demo_progress)), s') \<and>
    lookup_by dc_id ''D'' (t_docs (db_tabs s')) = Some (demo_doc ''D'' 1714557600)"
proof -
  let ?f = "demo_file ''2024-05-02T10:00:00Z''"
  have l: "lookup_by dc_id (f_id ?f) (t_docs (db_tabs demo_stored)) = Some (demo_doc ''D'' 1714557600)" by code_simp
  have c: "db_faults demo_stored = []" "pg_text_ok (f_id ?f)" "f_mime ?f = mime_doc" by code_simp+
  have m: "case parse_drive_time (f_modified ?f) of Inl e \<Rightarrow> False | Inr m \<Rightarrow> m \<noteq> from_unix (dc_modified (demo_doc ''D'' 1714557600))"
    by code_simp
  then obtain m where m: "parse_drive_time (f_modified ?f) = Inr m" "m \<noteq> from_unix (dc_modified (demo_doc ''D'' 1714557600))"
    by (auto split: sum.splits)
  have h: "dh_token demo_http (pr_calls demo_progress) = Inr ''t''"
    "dh_send demo_http (pr_calls demo_progress) ''t'' (export_url demo_http (f_id ?f)) = Inr (404, Inr demo_lost_body)"
    by (simp_all add: demo_http_def)
  have n: "take body_limit demo_lost_body = demo_lost_body" by (rule take_all) (simp add: demo_lost_body_def body_limit_def)
  have id: "f_id ?f = ''D''" by (simp add: demo_file_def)
  from lost_document_marked[OF c l m h] show ?thesis using demo_lost_text by (simp add: n id Let_def del: err_text.simps)
qed

end
