(* ===== verification/McpServer.thy ===== *)
theory McpServer
  imports StoreQueries Actions DriveSync
begin

text \<open>
  \<open>internal/mcpserver\<close>: the tools the agent can call.

  A call is a \<open>tool_call\<close> with the decoded input of the tool (the MCP library decodes and validates the JSON) and
  \<open>call_tool\<close> runs its handler over the store. Drive is the optional parameter \<open>drv\<close>, a lookup of one file.
  \<open>bearer_auth\<close> and \<open>serve\<close> are the HTTP side.

  Main results: no tool changes the corpus or the operators; the mutating tools only append a pending row to the approval
  queue; a note supersedes only notes of its own grantee; a document is only shown under its own grantee.
\<close>

section \<open>HTTP\<close>

definition server_name :: string where "server_name = ''balvibot-api''"

datatype 'a http_reply = HttpText nat string | McpReply 'a

text \<open>\<open>http.ServeMux\<close> on a clean path.\<close>

definition mcp_mux :: "(string \<Rightarrow> 'a) \<Rightarrow> string \<Rightarrow> 'a http_reply" where
  "mcp_mux stream path =
     (if path = ''/mcp'' \<or> starts_with path ''/mcp/'' then McpReply (stream path)
      else if path = ''/healthz'' then HttpText 200 ''ok''
      else HttpText 404 ''404 page not found'')"

definition trim_prefix :: "string \<Rightarrow> string \<Rightarrow> string" where
  "trim_prefix s p = (if starts_with s p then drop (length p) s else s)"

definition bearer_auth :: "string \<Rightarrow> (string \<Rightarrow> 'a http_reply) \<Rightarrow> string \<Rightarrow> string \<Rightarrow> 'a http_reply" where
  "bearer_auth token handler path header =
     (if path = ''/healthz'' then handler path
      else let got = trim_prefix header ''Bearer '' in
        if got = [] \<or> got \<noteq> token then HttpText 401 ''unauthorized''
        else handler path)"

record mcp_config =
  mc_bind :: string
  mc_token :: string

text \<open>\<open>Run\<close>: the configuration checks, then the handler it listens with.\<close>

definition run_mcp :: "mcp_config \<Rightarrow> (string \<Rightarrow> 'a) \<Rightarrow> err + (string \<Rightarrow> string \<Rightarrow> 'a http_reply)" where
  "run_mcp cfg stream =
     (if mc_token cfg = [] then Inl (ErrNew ''mcp bearer token is required'')
      else if mc_bind cfg = [] then Inl (ErrNew ''mcp bind address is required'')
      else Inr (bearer_auth (mc_token cfg) (mcp_mux stream)))"

definition max_logged_args :: nat where "max_logged_args = 256"

definition truncate_args :: "string \<Rightarrow> string" where
  "truncate_args raw =
     (if raw = [] then [] else if length raw > max_logged_args then take max_logged_args raw @ ellipsis else raw)"

section \<open>Inputs and outputs\<close>

record list_approvals_input =
  il_status :: string

record add_grantee_input =
  ig_slug :: string
  ig_name :: string
  ig_signal :: string
  ig_requested_by :: string

record add_approval_user_input =
  iu_email :: string
  iu_key :: string
  iu_signal :: string
  iu_requested_by :: string

record whitelist_doc_input =
  iw_grantee :: string
  iw_drive :: string
  iw_signal :: string
  iw_requested_by :: string

record authorize_email_input =
  ia_grantee :: string
  ia_email :: string
  ia_signal :: string
  ia_requested_by :: string

record create_note_input =
  ic_grantee :: string
  ic_content :: string
  ic_kind :: string
  ic_supersedes :: int
  ic_signal :: string

record list_notes_input =
  ln_grantee :: string
  ln_kind :: string
  ln_since :: string
  ln_until :: string
  ln_include :: bool
  ln_limit :: int
  ln_cursor :: int

record list_emails_input =
  le_grantee :: string
  le_since :: string
  le_until :: string
  le_limit :: int
  le_cursor :: int

record list_threads_input =
  lt_grantee :: string
  lt_since :: string
  lt_until :: string
  lt_limit :: int
  lt_cursor :: int

record search_emails_input =
  is_grantee :: string
  is_from :: string
  is_subject :: string
  is_body :: string
  is_since :: string
  is_until :: string
  is_limit :: int
  is_cursor :: int

record list_documents_input =
  ld_grantee :: string
  ld_limit :: int
  ld_cursor :: int

record get_document_input =
  gd_grantee :: string
  gd_doc :: string

record enqueue_result =
  er_id :: int
  er_action :: string
  er_status :: string

text \<open>The decoded objects of an approval are their members: each key with the JSON text of its value.\<close>

record approval_view =
  av_id :: int
  av_action :: string
  av_args :: "(string \<times> string) list"
  av_metadata :: "(string \<times> string) list"
  av_status :: string
  av_requested_by :: string
  av_approved_by :: string
  av_created :: gotime
  av_approved_at :: "gotime option"
  av_executed_at :: "gotime option"
  av_last_error :: string

record message_detail =
  md_id :: int
  md_message_id :: string
  md_thread :: int
  md_grantee :: "string option"
  md_folder :: string
  md_in_reply_to :: string
  md_references :: "string list"
  md_from :: address
  md_to :: "address list"
  md_cc :: "address list"
  md_recipients :: "recipient list"
  md_subject :: string
  md_date :: gotime
  md_body_text :: string
  md_body_html :: string
  md_size :: int

record document_detail =
  dd_id :: string
  dd_grantee :: string
  dd_title :: string
  dd_content :: string
  dd_modified :: gotime
  dd_synced :: gotime
  dd_images :: bool
  dd_comments :: bool
  dd_status :: string
  dd_stale :: bool
  dd_last_error :: string

record document_metadata =
  dm_id :: string
  dm_grantee :: string
  dm_title :: string
  dm_modified :: gotime
  dm_synced :: gotime
  dm_images :: bool
  dm_comments :: bool
  dm_status :: string
  dm_stale :: bool
  dm_last_error :: string

datatype tool_result =
    OutGrantees "grantee_summary list"
  | OutMessages "message_summary list" int
  | OutEmail message_detail "attachment list"
  | OutThreads "thread_summary list" int
  | OutThread thread "message_summary list"
  | OutAttachments "attachment list"
  | OutEnqueued enqueue_result
  | OutApprovals "approval_view list"
  | OutNote grantee_note
  | OutNotes "grantee_note list" int
  | OutDocuments "doc_summary list" int
  | OutDocument document_detail
  | OutMetadata document_metadata

section \<open>Shared steps\<close>

definition parse_time_bound :: "string \<Rightarrow> err + gotime option" where
  "parse_time_bound s =
     (if s = [] then Inr None
      else (case parse_rfc3339 s of
          Some t \<Rightarrow> Inr (Some t)
        | None \<Rightarrow> Inl (ErrNew (''invalid timestamp '' @ go_quote s @ '': expected RFC 3339''))))"

text \<open>\<open>since\<close> is parsed first; the first error ends the call.\<close>

definition with_bounds :: "string \<Rightarrow> string \<Rightarrow> (gotime option \<Rightarrow> gotime option \<Rightarrow> 'a dbm) \<Rightarrow> 'a dbm" where
  "with_bounds since until k =
     (case parse_time_bound since of Inl e \<Rightarrow> fail e
      | Inr a \<Rightarrow> (case parse_time_bound until of Inl e \<Rightarrow> fail e | Inr b \<Rightarrow> k a b))"

text \<open>The existence check of a grantee the handlers make for immediate feedback.\<close>

definition check_grantee :: "string \<Rightarrow> unit dbm" where
  "check_grantee gid =
     tryE (get_grantee gid) (\<lambda>r. case r of
       Inl e \<Rightarrow> if err_is e ErrNotFound then fail (ErrNew (''grantee_not_found: '' @ gid)) else fail e
     | Inr _ \<Rightarrow> ret ())"

definition action_metadata :: "string \<Rightarrow> string" where
  "action_metadata signal = (let sn = trim_space signal in if sn = [] then [] else metadata_json sn)"

definition queue_action :: "world \<Rightarrow> int \<Rightarrow> string \<Rightarrow> string \<Rightarrow> string \<Rightarrow> string \<Rightarrow> tool_result dbm" where
  "queue_action w now action args signal requested_by =
     bindE (enqueue_action w now action args (action_metadata signal) requested_by) (\<lambda>i.
       ret (OutEnqueued \<lparr> er_id = i, er_action = action, er_status = approval_pending \<rparr>))"

section \<open>The approval tools\<close>

text \<open>\<open>json.Unmarshal\<close> of a non-empty column into a \<open>map[string]any\<close>: an object, or \<open>null\<close> for no members.\<close>

definition decode_object :: "string \<Rightarrow> err + (string \<times> string) list" where
  "decode_object raw =
     (if raw = [] then Inr []
      else if \<not> json_valid raw then Inl (ErrNew ''invalid JSON'')
      else (case json_compact raw of
          Some (c # _) \<Rightarrow>
            if c = CHR ''{'' then Inr (map (\<lambda>(k, v). (unquote_json k, v)) (json_members raw))
            else if c = CHR ''n'' then Inr []
            else Inl (ErrNew ''json: cannot unmarshal value into Go value of type map[string]interface {}'')
        | _ \<Rightarrow> Inl (ErrNew ''unexpected end of JSON input'')))"

definition to_approval_view :: "approval_action \<Rightarrow> err + approval_view" where
  "to_approval_view a =
     (case decode_object (a_args a) of
        Inl e \<Rightarrow> Inl (ErrWrap (''decode args for approval '' @ int_text (a_id a) @ '': '') e [])
      | Inr args \<Rightarrow>
         (case decode_object (a_metadata a) of
            Inl e \<Rightarrow> Inl (ErrWrap (''decode metadata for approval '' @ int_text (a_id a) @ '': '') e [])
          | Inr meta \<Rightarrow> Inr \<lparr> av_id = a_id a, av_action = a_action a, av_args = args, av_metadata = meta, av_status = a_status a,
              av_requested_by = a_requested_by a, av_approved_by = a_approved_by a, av_created = a_created a,
              av_approved_at = a_approved_at a, av_executed_at = a_executed_at a, av_last_error = a_last_error a \<rparr>))"

fun approval_views :: "approval_action list \<Rightarrow> err + approval_view list" where
  "approval_views [] = Inr []"
| "approval_views (a # as) =
     (case to_approval_view a of Inl e \<Rightarrow> Inl e
      | Inr v \<Rightarrow> (case approval_views as of Inl e \<Rightarrow> Inl e | Inr vs \<Rightarrow> Inr (v # vs)))"

definition mcp_list_approvals :: "list_approvals_input \<Rightarrow> tool_result dbm" where
  "mcp_list_approvals inp =
     (let status = trim_space (il_status inp) in
      if status \<notin> {[], approval_pending, approval_executed, approval_failed, approval_rejected}
      then fail (ErrNew (''invalid status '' @ go_quote status @ '': expected one of pending, executed, failed, rejected''))
      else bindE (list_actions status) (\<lambda>queued.
        case approval_views queued of Inl e \<Rightarrow> fail e | Inr views \<Rightarrow> ret (OutApprovals views)))"

definition mcp_add_grantee :: "world \<Rightarrow> int \<Rightarrow> add_grantee_input \<Rightarrow> tool_result dbm" where
  "mcp_add_grantee w now inp =
     (let slug = trim_space (ig_slug inp) in
      if slug = [] then fail (ErrNew ''slug is required'')
      else queue_action w now action_add_grantee (add_grantee_args slug (ig_name inp)) (ig_signal inp) (ig_requested_by inp))"

definition mcp_add_approval_user :: "world \<Rightarrow> int \<Rightarrow> add_approval_user_input \<Rightarrow> tool_result dbm" where
  "mcp_add_approval_user w now inp =
     (let email = trim_space (iu_email inp); key = trim_space (iu_key inp) in
      if email = [] then fail (ErrNew ''email is required'')
      else if key = [] then fail (ErrNew ''ssh_public_key is required'')
      else (case fingerprint w key of
          Inl e \<Rightarrow> fail (ErrWrap ''invalid ssh_public_key: '' e [])
        | Inr _ \<Rightarrow> queue_action w now action_add_approval_user (add_approval_user_args email key)
            (iu_signal inp) (iu_requested_by inp)))"

text \<open>Folder or document, from the MIME type.\<close>

definition source_type_of :: "string \<Rightarrow> drive_file \<Rightarrow> err + string" where
  "source_type_of drive_id f =
     (if f_mime f = mime_folder then Inr source_type_folder
      else if f_mime f = mime_doc then Inr source_type_doc
      else Inl (ErrNew (''drive object '' @ go_quote drive_id @ '' has mime '' @ go_quote (f_mime f) @
                 ''; only Google Docs and folders can be whitelisted'')))"

definition mcp_whitelist_doc :: "world \<Rightarrow> int \<Rightarrow> (string \<Rightarrow> err + drive_file) option \<Rightarrow> whitelist_doc_input \<Rightarrow> tool_result dbm" where
  "mcp_whitelist_doc w now drv inp =
     (let grantee = trim_space (iw_grantee inp); drive_id = trim_space (iw_drive inp) in
      if grantee = [] then fail (ErrNew ''grantee_id is required'')
      else if drive_id = [] then fail (ErrNew ''drive_id is required'')
      else bindE (check_grantee grantee) (\<lambda>_.
        case drv of
          None \<Rightarrow> fail (ErrNew ''drive lookup is not configured on this server'')
        | Some get_file \<Rightarrow>
           (case get_file drive_id of
              Inl e \<Rightarrow> fail (ErrWrap (''look up drive object '' @ go_quote drive_id @ '': '') e [])
            | Inr f \<Rightarrow>
               (case source_type_of drive_id f of
                  Inl e \<Rightarrow> fail e
                | Inr ty \<Rightarrow> queue_action w now action_whitelist_doc (whitelist_doc_args grantee drive_id ty)
                    (iw_signal inp) (iw_requested_by inp)))))"

definition mcp_authorize_email :: "world \<Rightarrow> int \<Rightarrow> authorize_email_input \<Rightarrow> tool_result dbm" where
  "mcp_authorize_email w now inp =
     (let grantee = trim_space (ia_grantee inp); email = trim_space (ia_email inp) in
      if grantee = [] then fail (ErrNew ''grantee_id is required'')
      else if email = [] then fail (ErrNew ''email is required'')
      else bindE (check_grantee grantee) (\<lambda>_.
        queue_action w now action_authorize_grantee_email (authorize_grantee_email_args grantee email)
          (ia_signal inp) (ia_requested_by inp)))"

section \<open>Grantees and mail\<close>

definition mcp_list_grantees :: "world \<Rightarrow> tool_result dbm" where
  "mcp_list_grantees w = bindE (grantee_summaries w) (\<lambda>gs. ret (OutGrantees gs))"

definition mcp_list_emails :: "list_emails_input \<Rightarrow> tool_result dbm" where
  "mcp_list_emails inp =
     (if le_grantee inp = [] then fail (ErrNew ''grantee_id is required'')
      else with_bounds (le_since inp) (le_until inp) (\<lambda>since until.
        bindE (list_messages_by_grantee (le_grantee inp) since until (le_limit inp) (le_cursor inp)) (\<lambda>(msgs, next).
          ret (OutMessages msgs next))))"

definition detail_of_message :: "message \<Rightarrow> recipient list \<Rightarrow> message_detail" where
  "detail_of_message m recs = \<lparr> md_id = m_id m, md_message_id = m_message_id m, md_thread = m_thread m, md_grantee = m_grantee m,
     md_folder = m_folder m, md_in_reply_to = m_in_reply_to m, md_references = m_references m, md_from = m_from m, md_to = m_to m,
     md_cc = m_cc m, md_recipients = recs, md_subject = m_subject m, md_date = m_date m, md_body_text = m_body_text m,
     md_body_html = m_body_html m, md_size = m_size m \<rparr>"

definition mcp_get_email :: "world \<Rightarrow> string \<Rightarrow> tool_result dbm" where
  "mcp_get_email w i =
     (if i = [] then fail (ErrNew ''id is required'')
      else bindE (get_message w i) (\<lambda>r. case r of
        None \<Rightarrow> fail (ErrNew (''message '' @ go_quote i @ '' not found''))
      | Some (m, atts, recs) \<Rightarrow> ret (OutEmail (detail_of_message m recs) atts)))"

definition mcp_list_threads :: "list_threads_input \<Rightarrow> tool_result dbm" where
  "mcp_list_threads inp =
     (if lt_grantee inp = [] then fail (ErrNew ''grantee_id is required'')
      else with_bounds (lt_since inp) (lt_until inp) (\<lambda>since until.
        bindE (list_threads_by_grantee (lt_grantee inp) since until (lt_limit inp) (lt_cursor inp)) (\<lambda>(ts, next).
          ret (OutThreads ts next))))"

definition mcp_get_thread :: "int \<Rightarrow> tool_result dbm" where
  "mcp_get_thread i =
     (if i = 0 then fail (ErrNew ''thread_id is required'')
      else bindE (get_thread_messages i) (\<lambda>r. case r of
        None \<Rightarrow> fail (ErrNew (''thread '' @ int_text i @ '' not found''))
      | Some (t, msgs) \<Rightarrow> ret (OutThread t msgs)))"

definition mcp_search_emails :: "world \<Rightarrow> search_emails_input \<Rightarrow> tool_result dbm" where
  "mcp_search_emails w inp =
     with_bounds (is_since inp) (is_until inp) (\<lambda>since until.
       bindE (search_messages w \<lparr> sp_grantee = is_grantee inp, sp_from = is_from inp, sp_subject = is_subject inp,
                sp_body = is_body inp, sp_since = since, sp_until = until, sp_limit = is_limit inp, sp_cursor = is_cursor inp \<rparr>)
         (\<lambda>(msgs, next). ret (OutMessages msgs next)))"

definition mcp_list_attachments :: "int \<Rightarrow> tool_result dbm" where
  "mcp_list_attachments i =
     (if i = 0 then fail (ErrNew ''message_id is required'')
      else bindE (list_attachments_by_message i) (\<lambda>atts. ret (OutAttachments atts)))"

section \<open>Notes and documents\<close>

text \<open>The kind filter both note tools check.\<close>

definition kind_error :: "string \<Rightarrow> err" where
  "kind_error kind = ErrNew (''invalid kind '' @ go_quote kind @ '': expected one of '' @ join_with '', '' note_kinds)"

text \<open>\<open>supersedes_id\<close>: none, or a note of the same grantee.\<close>

definition check_superseded :: "string \<Rightarrow> int \<Rightarrow> int option dbm" where
  "check_superseded grantee i =
     (if i = 0 then ret None
      else tryE (get_note i) (\<lambda>r. case r of
        Inl e \<Rightarrow> if err_is e ErrNotFound then fail (ErrNew (''supersedes_id '' @ int_text i @ '' not found'')) else fail e
      | Inr prev \<Rightarrow>
          if n_grantee prev \<noteq> grantee
          then fail (ErrNew (''supersedes_id '' @ int_text i @ '' belongs to grantee '' @ n_grantee prev @ '', not '' @ grantee))
          else ret (Some i)))"

definition mcp_create_note :: "int \<Rightarrow> create_note_input \<Rightarrow> tool_result dbm" where
  "mcp_create_note now inp =
     (let grantee = trim_space (ic_grantee inp); kind = trim_space (ic_kind inp) in
      if grantee = [] then fail (ErrNew ''grantee_id is required'')
      else if trim_space (ic_content inp) = [] then fail (ErrNew ''content is required'')
      else if kind \<noteq> [] \<and> \<not> valid_note_kind kind then fail (kind_error kind)
      else bindE (check_grantee grantee) (\<lambda>_.
        bindE (check_superseded grantee (ic_supersedes inp)) (\<lambda>prev_id.
          bindE (create_note now \<lparr> n_id = 0, n_grantee = grantee, n_kind = kind, n_content = ic_content inp, n_signal = ic_signal inp,
                   n_supersedes = prev_id, n_superseded_by = None, n_created = zero_time \<rparr>) (\<lambda>saved.
            ret (OutNote saved)))))"

definition mcp_list_notes :: "list_notes_input \<Rightarrow> tool_result dbm" where
  "mcp_list_notes inp =
     (let grantee = trim_space (ln_grantee inp); kind = trim_space (ln_kind inp) in
      if grantee = [] then fail (ErrNew ''grantee_id is required'')
      else if kind \<noteq> [] \<and> \<not> valid_note_kind kind then fail (kind_error kind)
      else with_bounds (ln_since inp) (ln_until inp) (\<lambda>since until.
        bindE (list_notes \<lparr> nf_grantee = grantee, nf_kind = kind, nf_since = since, nf_until = until,
                 nf_include = ln_include inp, nf_limit = ln_limit inp, nf_cursor = ln_cursor inp \<rparr>) (\<lambda>(notes, next).
          ret (OutNotes notes next))))"

definition mcp_list_documents :: "world \<Rightarrow> list_documents_input \<Rightarrow> tool_result dbm" where
  "mcp_list_documents w inp =
     (if ld_grantee inp = [] then fail (ErrNew ''grantee_id is required'')
      else bindE (check_grantee (ld_grantee inp)) (\<lambda>_.
        bindE (list_docs_for_grantee w (ld_grantee inp) (ld_limit inp) (ld_cursor inp)) (\<lambda>(docs, next).
          ret (OutDocuments docs next))))"

text \<open>The lookup both document tools start with.\<close>

definition document_for_grantee :: "get_document_input \<Rightarrow> doc dbm" where
  "document_for_grantee inp =
     (if gd_grantee inp = [] \<or> gd_doc inp = [] then fail (ErrNew ''grantee_id and doc_id are required'')
      else tryE (get_doc_for_grantee (gd_grantee inp) (gd_doc inp)) (\<lambda>r. case r of
        Inl e \<Rightarrow> if err_is e ErrNotFound
                then fail (ErrNew (''document_not_found: '' @ gd_doc inp @ '' for grantee '' @ gd_grantee inp)) else fail e
      | Inr d \<Rightarrow> ret d))"

definition mcp_get_document :: "get_document_input \<Rightarrow> tool_result dbm" where
  "mcp_get_document inp = bindE (document_for_grantee inp) (\<lambda>d. ret (OutDocument \<lparr> dd_id = d_id d, dd_grantee = d_grantee d,
     dd_title = d_title d, dd_content = d_content d, dd_modified = d_modified d, dd_synced = d_synced d, dd_images = d_images d,
     dd_comments = d_comments d, dd_status = d_status d, dd_stale = (d_status d = status_stale), dd_last_error = d_error d \<rparr>))"

definition mcp_get_metadata :: "get_document_input \<Rightarrow> tool_result dbm" where
  "mcp_get_metadata inp = bindE (document_for_grantee inp) (\<lambda>d. ret (OutMetadata \<lparr> dm_id = d_id d, dm_grantee = d_grantee d,
     dm_title = d_title d, dm_modified = d_modified d, dm_synced = d_synced d, dm_images = d_images d,
     dm_comments = d_comments d, dm_status = d_status d, dm_stale = (d_status d = status_stale), dm_last_error = d_error d \<rparr>))"

section \<open>The tools by name\<close>

datatype tool_call =
    ListGrantees
  | ListEmails list_emails_input
  | GetEmail string
  | ListThreads list_threads_input
  | GetThread int
  | SearchEmails search_emails_input
  | ListAttachments int
  | AddGranteeTool add_grantee_input
  | AddApprovalUserTool add_approval_user_input
  | WhitelistDocTool whitelist_doc_input
  | AuthorizeEmailTool authorize_email_input
  | ListApprovals list_approvals_input
  | CreateNote create_note_input
  | ListNotes list_notes_input
  | ListDocuments list_documents_input
  | GetDocument get_document_input
  | GetMetadata get_document_input

fun tool_name :: "tool_call \<Rightarrow> string" where
  "tool_name ListGrantees = ''list_grantees''"
| "tool_name (ListEmails i) = ''list_emails_for_grantee''"
| "tool_name (GetEmail i) = ''get_email''"
| "tool_name (ListThreads i) = ''list_threads_for_grantee''"
| "tool_name (GetThread i) = ''get_thread''"
| "tool_name (SearchEmails i) = ''search_emails''"
| "tool_name (ListAttachments i) = ''list_attachments''"
| "tool_name (AddGranteeTool i) = ''add_grantee''"
| "tool_name (AddApprovalUserTool i) = ''add_approval_user''"
| "tool_name (WhitelistDocTool i) = ''whitelist_doc''"
| "tool_name (AuthorizeEmailTool i) = ''authorize_grantee_email''"
| "tool_name (ListApprovals i) = ''list_approvals''"
| "tool_name (CreateNote i) = ''create_note''"
| "tool_name (ListNotes i) = ''list_notes''"
| "tool_name (ListDocuments i) = ''list_documents_for_grantee''"
| "tool_name (GetDocument i) = ''get_document_for_grantee''"
| "tool_name (GetMetadata i) = ''get_document_metadata''"

text \<open>The handler \<open>buildServer\<close> registers for each tool.\<close>

fun call_tool :: "world \<Rightarrow> int \<Rightarrow> (string \<Rightarrow> err + drive_file) option \<Rightarrow> tool_call \<Rightarrow> tool_result dbm" where
  "call_tool w now drv ListGrantees = mcp_list_grantees w"
| "call_tool w now drv (ListEmails i) = mcp_list_emails i"
| "call_tool w now drv (GetEmail i) = mcp_get_email w i"
| "call_tool w now drv (ListThreads i) = mcp_list_threads i"
| "call_tool w now drv (GetThread i) = mcp_get_thread i"
| "call_tool w now drv (SearchEmails i) = mcp_search_emails w i"
| "call_tool w now drv (ListAttachments i) = mcp_list_attachments i"
| "call_tool w now drv (AddGranteeTool i) = mcp_add_grantee w now i"
| "call_tool w now drv (AddApprovalUserTool i) = mcp_add_approval_user w now i"
| "call_tool w now drv (WhitelistDocTool i) = mcp_whitelist_doc w now drv i"
| "call_tool w now drv (AuthorizeEmailTool i) = mcp_authorize_email w now i"
| "call_tool w now drv (ListApprovals i) = mcp_list_approvals i"
| "call_tool w now drv (CreateNote i) = mcp_create_note now i"
| "call_tool w now drv (ListNotes i) = mcp_list_notes i"
| "call_tool w now drv (ListDocuments i) = mcp_list_documents w i"
| "call_tool w now drv (GetDocument i) = mcp_get_document i"
| "call_tool w now drv (GetMetadata i) = mcp_get_metadata i"

text \<open>A tool call satisfies every \<open>evolution\<close> that queueing an action and creating a note satisfy.\<close>

context evolution begin

lemma ev_with_bounds: "(\<And>a b. evolves R (k a b)) \<Longrightarrow> evolves R (with_bounds since until k)"
  unfolding with_bounds_def by (intro ev_case_sum ev_fail)

lemma ev_check_grantee: "evolves R (check_grantee gid)"
  unfolding check_grantee_def get_grantee_def by (intro ev_tryE ev_case_sum ev_if ev_fail ev_ret ev_wrapE ev_pg_row)

lemma ev_check_superseded: "evolves R (check_superseded grantee i)"
  unfolding check_superseded_def get_note_def by (intro ev_tryE ev_case_sum ev_if ev_fail ev_ret ev_wrapE ev_pg_row)

lemma ev_get_message: "evolves R (get_message w q)"
  unfolding get_message_def message_row_query_def list_attachments_by_message_def list_recipients_def
  by (intro ev_tryE ev_case_sum ev_if ev_fail ev_ret ev_bindE ev_pg_row ev_pg_read ev_case_option)

lemma ev_thread_messages: "evolves R (get_thread_messages i)"
  unfolding get_thread_messages_def get_thread_def
  by (intro ev_tryE ev_case_sum ev_if ev_fail ev_ret ev_bindE ev_pg_row ev_pg_read)

lemma ev_document: "evolves R (document_for_grantee inp)"
  unfolding document_for_grantee_def get_doc_for_grantee_def
  by (intro ev_tryE ev_case_sum ev_if ev_fail ev_ret ev_wrapE ev_pg_row)

lemmas ev_reads = ev_with_bounds ev_check_grantee ev_check_superseded ev_get_message ev_thread_messages ev_document
  ev_bindE ev_case_prod ev_case_sum ev_case_option ev_if ev_fail ev_ret ev_pg_read ev_pg_row

lemma ev_call_tool:
  assumes enqueue: "\<And>action args meta by. evolves R (enqueue_action w now action args meta by)"
    and noted: "\<And>inp. evolves R (mcp_create_note now inp)"
  shows "evolves R (call_tool w now drv c)"
proof -
  have "evolves R (queue_action w now action args signal by)" for action args signal "by"
    unfolding queue_action_def by (intro ev_bindE enqueue ev_ret)
  note q = this
  show ?thesis
  proof (cases c)
    case ListGrantees
    show ?thesis unfolding ListGrantees call_tool.simps mcp_list_grantees_def grantee_summaries_def by (intro ev_reads)
  next
    case (ListEmails i)
    show ?thesis unfolding ListEmails call_tool.simps mcp_list_emails_def list_messages_by_grantee_def by (intro ev_reads)
  next
    case (GetEmail i)
    show ?thesis unfolding GetEmail call_tool.simps mcp_get_email_def by (intro ev_reads)
  next
    case (ListThreads i)
    show ?thesis unfolding ListThreads call_tool.simps mcp_list_threads_def list_threads_by_grantee_def by (intro ev_reads)
  next
    case (GetThread i)
    show ?thesis unfolding GetThread call_tool.simps mcp_get_thread_def by (intro ev_reads)
  next
    case (SearchEmails i)
    show ?thesis unfolding SearchEmails call_tool.simps mcp_search_emails_def search_messages_def by (intro ev_reads)
  next
    case (ListAttachments i)
    show ?thesis unfolding ListAttachments call_tool.simps mcp_list_attachments_def list_attachments_by_message_def by (intro ev_reads)
  next
    case (AddGranteeTool i)
    show ?thesis unfolding AddGranteeTool call_tool.simps mcp_add_grantee_def Let_def by (intro q ev_reads)
  next
    case (AddApprovalUserTool i)
    show ?thesis unfolding AddApprovalUserTool call_tool.simps mcp_add_approval_user_def Let_def by (intro q ev_reads)
  next
    case (WhitelistDocTool i)
    show ?thesis unfolding WhitelistDocTool call_tool.simps mcp_whitelist_doc_def Let_def by (intro q ev_reads)
  next
    case (AuthorizeEmailTool i)
    show ?thesis unfolding AuthorizeEmailTool call_tool.simps mcp_authorize_email_def Let_def by (intro q ev_reads)
  next
    case (ListApprovals i)
    show ?thesis unfolding ListApprovals call_tool.simps mcp_list_approvals_def list_actions_def Let_def by (intro ev_reads)
  next
    case (CreateNote i)
    show ?thesis unfolding CreateNote call_tool.simps by (rule noted)
  next
    case (ListNotes i)
    show ?thesis unfolding ListNotes call_tool.simps mcp_list_notes_def list_notes_def Let_def by (intro ev_reads)
  next
    case (ListDocuments i)
    show ?thesis unfolding ListDocuments call_tool.simps mcp_list_documents_def list_docs_for_grantee_def by (intro ev_reads)
  next
    case (GetDocument i)
    show ?thesis unfolding GetDocument call_tool.simps mcp_get_document_def by (intro ev_reads)
  next
    case (GetMetadata i)
    show ?thesis unfolding GetMetadata call_tool.simps mcp_get_metadata_def by (intro ev_reads)
  qed
qed

end

section \<open>What tools can change\<close>

text \<open>Everything but the approval queue and the notes.\<close>

definition corpus :: "tables \<Rightarrow> tables" where
  "corpus t = t\<lparr>t_actions := [], t_notes := []\<rparr>"

definition undecided :: "action_row \<Rightarrow> bool" where
  "undecided r \<longleftrightarrow> ac_status r = approval_pending \<and> ac_approved_by r = None \<and> ac_approved_at r = None \<and> ac_executed_at r = None"

definition queues :: "snapshot \<Rightarrow> snapshot \<Rightarrow> bool" where
  "queues p p' \<longleftrightarrow> corpus (fst p') = corpus (fst p) \<and>
     (\<exists>as. t_actions (fst p') = t_actions (fst p) @ as \<and> list_all undecided as) \<and>
     (\<exists>ns. t_notes (fst p') = t_notes (fst p) @ ns)"

interpretation queues: evolution queues
  by unfold_locales (auto simp: queues_def)

lemma enqueue_queues: "evolves queues (enqueue_action w now action args meta by)"
  unfolding enqueue_action_def
  by (intro queues.ev_if queues.ev_fail queues.ev_pg)
    (auto simp: enqueue_sql_def queues_def corpus_def undecided_def split: option.splits)

lemma create_note_queues: "evolves queues (create_note now n)"
  unfolding create_note_def Let_def
  by (intro queues.ev_if queues.ev_fail queues.ev_bindE queues.ev_ret queues.ev_pg)
    (auto simp: note_insert_sql_def queues_def corpus_def Let_def split: if_splits)

lemma mcp_create_note_queues: "evolves queues (mcp_create_note now inp)"
  unfolding mcp_create_note_def Let_def by (intro create_note_queues queues.ev_reads)

lemma call_tool_queues: "evolves queues (call_tool w now drv c)"
  by (intro queues.ev_call_tool enqueue_queues mcp_create_note_queues)

text \<open>C9: no tool acts on its own: whatever the agent calls and whatever fails on the way, grantees, addresses, sources, mail,
  documents and approval operators stay as they were; the approval queue only gets undecided rows appended, and so do the notes.\<close>

theorem tools_only_queue:
  "let before = db_tabs s; after = db_tabs (snd (call_tool w now drv c s))
   in corpus after = corpus before \<and>
      (\<exists>as. t_actions after = t_actions before @ as \<and> list_all undecided as) \<and> (\<exists>ns. t_notes after = t_notes before @ ns)"
  using call_tool_queues[of w now drv c] by (simp add: evolves_def queues_def snap_def Let_def)

lemma tryE_E:
  assumes "tryE m k s = p"
  obtains (failed) e s' where "m s = (Inl e, s')" "k (Inl e) s' = p" | (ok) x s' where "m s = (Inr x, s')" "k (Inr x) s' = p"
  using assms by (cases "m s"; cases "fst (m s)") (auto simp: tryE_eq)

text \<open>Superseding stays within a grantee.\<close>

definition notes_within :: "tables \<Rightarrow> bool" where
  "notes_within t \<longleftrightarrow> (\<forall>r \<in> set (t_notes t). \<forall>i \<in> set_option (no_supersedes r).
     \<exists>p \<in> set (t_notes t). no_id p = i \<and> no_grantee p = no_grantee r)"

lemma notes_within_insert:
  assumes "note_insert_sql row t q = (Inr i, t', q')" and "notes_within t"
    and "\<forall>j \<in> set_option (no_supersedes row). \<exists>p \<in> set (t_notes t). no_id p = j \<and> no_grantee p = no_grantee row"
  shows "notes_within t'"
  using note_insert_Inr(2)[OF assms(1)] assms(2,3) by (auto simp: notes_within_def)

lemma get_note_Inr:
  assumes "get_note i s = (Inr n, s')"
  shows "db_tabs s' = db_tabs s" "\<exists>r \<in> set (t_notes (db_tabs s)). no_id r = i \<and> no_grantee r = n_grantee n"
proof -
  from assms have p: "pg_row [] (\<lambda>t. map_option (note_of_row (t_notes t)) (lookup_by no_id i (t_notes t))) s = (Inr n, s')"
    by (auto simp: get_note_def wrapE_eq split: prod.splits sum.splits)
  show "db_tabs s' = db_tabs s" by (rule pg_row_Inr(2)[OF p])
  show "\<exists>r \<in> set (t_notes (db_tabs s)). no_id r = i \<and> no_grantee r = n_grantee n"
    using pg_row_Inr(1)[OF p] by (auto simp: note_of_row_def dest!: lookup_by_Some)
qed

lemma evolves_stay: "evolves (same id) m \<Longrightarrow> m s = (r, s') \<Longrightarrow> db_tabs s' = db_tabs s"
  using evolvesD by (fastforce simp: same_def snap_def)

lemma create_note_within:
  assumes "notes_within (db_tabs s)" and "trim_space g = g"
    and "\<forall>j \<in> set_option (n_supersedes n). \<exists>p \<in> set (t_notes (db_tabs s)). no_id p = j \<and> no_grantee p = n_grantee n"
    and "n_grantee n = g"
  shows "notes_within (db_tabs (snd (create_note now n s)))"
proof (cases "create_note now n s")
  case (Pair r s')
  show ?thesis
  proof (cases r)
    case (Inl e)
    then have "db_tabs s' = db_tabs s" using Pair unfolding create_note_def Let_def
      by (auto simp: bindE_eq fail_def split: if_splits prod.splits sum.splits dest!: pg_Inl_tabs)
    then show ?thesis using Pair assms(1) by simp
  next
    case (Inr m)
    show ?thesis
      by (rule create_note_ok[OF Pair[unfolded Inr]]) (use Pair assms in \<open>auto elim!: notes_within_insert\<close>)
  qed
qed

lemma check_grantee_tabs: "check_grantee gid s = (r, s') \<Longrightarrow> db_tabs s' = db_tabs s"
  by (rule evolves_stay[OF same.ev_check_grantee])

lemma check_superseded_Inr:
  assumes "check_superseded grantee i s = (Inr prev_id, s')"
  shows "db_tabs s' = db_tabs s"
    "\<forall>j \<in> set_option prev_id. \<exists>p \<in> set (t_notes (db_tabs s)). no_id p = j \<and> no_grantee p = grantee"
proof -
  show "db_tabs s' = db_tabs s" by (rule evolves_stay[OF same.ev_check_superseded assms])
  show "\<forall>j \<in> set_option prev_id. \<exists>p \<in> set (t_notes (db_tabs s)). no_id p = j \<and> no_grantee p = grantee"
  proof (cases "i = 0")
    case True
    then show ?thesis using assms by (simp add: check_superseded_def)
  next
    case False
    with assms[unfolded check_superseded_def] obtain n s1 where "get_note i s = (Inr n, s1)" "n_grantee n = grantee" "prev_id = Some i"
      by (auto elim!: tryE_E split: if_splits)
    then show ?thesis using get_note_Inr(2) by simp metis
  qed
qed

lemma mcp_create_note_within:
  assumes "notes_within (db_tabs s)"
  shows "notes_within (db_tabs (snd (mcp_create_note now inp s)))"
proof -
  let ?g = "trim_space (ic_grantee inp)"
  let ?note = "\<lambda>prev_id. \<lparr> n_id = 0, n_grantee = ?g, n_kind = trim_space (ic_kind inp), n_content = ic_content inp, n_signal = ic_signal inp,
                   n_supersedes = prev_id, n_superseded_by = None, n_created = zero_time \<rparr>"
  obtain r1 s1 where c: "check_grantee ?g s = (r1, s1)" by fastforce
  obtain r2 s2 where d: "check_superseded ?g (ic_supersedes inp) s1 = (r2, s2)" by fastforce
  have s1: "db_tabs s1 = db_tabs s" by (rule check_grantee_tabs[OF c])
  have s2: "db_tabs s2 = db_tabs s" using evolves_stay[OF same.ev_check_superseded d] s1 by simp
  have "notes_within (db_tabs (snd (create_note now (?note prev_id) s2)))" if "r2 = Inr prev_id" for prev_id
    using check_superseded_Inr(2)[OF d[unfolded that]] assms s1 s2 by (intro create_note_within[of s2 ?g]) simp_all
  then show ?thesis using c d s1 s2 assms
    by (auto simp: mcp_create_note_def Let_def bindE_eq split: sum.splits prod.splits)
qed

lemma call_tool_within: "evolves (keeping notes_within) (call_tool w now drv c)"
proof (rule keeping.ev_call_tool)
  show "evolves (keeping notes_within) (enqueue_action w now action args meta by)" for action args meta "by"
    unfolding enqueue_action_def
    by (intro keeping.ev_if keeping.ev_fail keeping.ev_pg)
      (auto simp: enqueue_sql_def keeping_def notes_within_def split: option.splits)
  show "evolves (keeping notes_within) (mcp_create_note now inp)" for inp
    using mcp_create_note_within by (simp add: evolves_def keeping_def snap_def)
qed

text \<open>notes never supersede across grantees: when every superseded note belongs to the grantee of the note that replaces it,
  this is still so after any tool call.\<close>

theorem supersede_within_grantee:
  assumes "notes_within (db_tabs s)"
  shows "notes_within (db_tabs (snd (call_tool w now drv c s)))"
  using call_tool_within[of w now drv c] assms by (simp add: evolves_def keeping_def snap_def)

section \<open>What a mutating tool asks for\<close>

fun tool_request :: "(string \<Rightarrow> err + drive_file) option \<Rightarrow> tool_call \<Rightarrow> request option" where
  "tool_request drv (AddGranteeTool i) = Some (AddGrantee (trim_space (ig_slug i)) (ig_name i))"
| "tool_request drv (AddApprovalUserTool i) = Some (AddApprovalUser (trim_space (iu_email i)) (trim_space (iu_key i)))"
| "tool_request drv (AuthorizeEmailTool i) = Some (AuthorizeEmail (trim_space (ia_grantee i)) (trim_space (ia_email i)))"
| "tool_request drv (WhitelistDocTool i) =
     (case drv of None \<Rightarrow> None
      | Some get_file \<Rightarrow>
         (case get_file (trim_space (iw_drive i)) of Inl e \<Rightarrow> None
          | Inr f \<Rightarrow>
             (case source_type_of (trim_space (iw_drive i)) f of Inl e \<Rightarrow> None
              | Inr ty \<Rightarrow> Some (WhitelistDoc (trim_space (iw_grantee i)) (trim_space (iw_drive i)) ty))))"
| "tool_request drv c = None"

text \<open>Reads leave the whole snapshot alone.\<close>

interpretation still: evolution "(=)"
  by unfold_locales auto

lemma queue_action_ok:
  assumes "queue_action w now action args signal by s = (Inr (OutEnqueued res), s')"
  shows "enqueue_action w now action args (action_metadata signal) by s = (Inr (er_id res), s')"
    "er_action res = action" "er_status res = ''pending''"
  using assms by (auto simp: queue_action_def bindE_Inr_iff approval_status_defs)

lemma check_grantee_snap: "check_grantee gid s = (r, s') \<Longrightarrow> snap s' = snap s"
  using evolvesD[OF still.ev_check_grantee] by metis

lemma queue_action_shape: "queue_action w now action args signal by s = (Inr out, s') \<Longrightarrow> \<exists>res. out = OutEnqueued res"
  by (auto simp: queue_action_def bindE_Inr_iff)

lemma tool_enqueued:
  assumes "call_tool w now drv c s = (Inr (OutEnqueued res), s')"
  obtains r meta "by" s1 where "tool_request drv c = Some r" "snap s1 = snap s"
    "enqueue_action w now (request_action r) (request_args r) meta by s1 = (Inr (er_id res), s')"
    "er_action res = request_action r" "er_status res = ''pending''"
proof (cases c)
  case (AddGranteeTool i)
  with assms have "queue_action w now action_add_grantee (add_grantee_args (trim_space (ig_slug i)) (ig_name i))
      (ig_signal i) (ig_requested_by i) s = (Inr (OutEnqueued res), s')"
    by (auto simp: mcp_add_grantee_def Let_def split: if_splits)
  from queue_action_ok[OF this] show ?thesis by (intro that[of _ s]) (auto simp: AddGranteeTool)
next
  case (AddApprovalUserTool i)
  with assms have "queue_action w now action_add_approval_user (add_approval_user_args (trim_space (iu_email i)) (trim_space (iu_key i)))
      (iu_signal i) (iu_requested_by i) s = (Inr (OutEnqueued res), s')"
    by (auto simp: mcp_add_approval_user_def Let_def split: if_splits sum.splits)
  from queue_action_ok[OF this] show ?thesis by (intro that[of _ s]) (auto simp: AddApprovalUserTool)
next
  case (AuthorizeEmailTool i)
  with assms obtain s1 where s1: "check_grantee (trim_space (ia_grantee i)) s = (Inr (), s1)"
    and "queue_action w now action_authorize_grantee_email
      (authorize_grantee_email_args (trim_space (ia_grantee i)) (trim_space (ia_email i))) (ia_signal i) (ia_requested_by i) s1 =
      (Inr (OutEnqueued res), s')"
    by (auto simp: mcp_authorize_email_def Let_def bindE_Inr_iff split: if_splits)
  from queue_action_ok[OF this(2)] check_grantee_snap[OF s1] show ?thesis
    by (intro that[of _ s1]) (auto simp: AuthorizeEmailTool)
next
  case (WhitelistDocTool i)
  with assms obtain s1 get_file f ty where s1: "check_grantee (trim_space (iw_grantee i)) s = (Inr (), s1)"
    and drv: "drv = Some get_file" "get_file (trim_space (iw_drive i)) = Inr f" "source_type_of (trim_space (iw_drive i)) f = Inr ty"
    and "queue_action w now action_whitelist_doc (whitelist_doc_args (trim_space (iw_grantee i)) (trim_space (iw_drive i)) ty)
      (iw_signal i) (iw_requested_by i) s1 = (Inr (OutEnqueued res), s')"
    by (auto simp: mcp_whitelist_doc_def Let_def bindE_Inr_iff split: if_splits option.splits sum.splits)
  from queue_action_ok[OF this(5)] check_grantee_snap[OF s1] drv show ?thesis
    by (intro that[of _ s1]) (auto simp: WhitelistDocTool)
next
  case (CreateNote i)
  then show ?thesis using assms by (auto simp: mcp_create_note_def Let_def bindE_Inr_iff split: if_splits)
next
  case (ListApprovals i)
  then show ?thesis using assms by (auto simp: mcp_list_approvals_def Let_def bindE_Inr_iff split: if_splits sum.splits) (metis sum.exhaust)+
next
  case (GetThread i)
  then show ?thesis using assms by (auto simp: mcp_get_thread_def bindE_Inr_iff split: if_splits option.splits)
next
  case (GetEmail i)
  then show ?thesis using assms by (auto simp: mcp_get_email_def bindE_Inr_iff split: if_splits option.splits)
qed (use assms in \<open>auto simp: mcp_list_grantees_def mcp_list_emails_def mcp_list_threads_def mcp_search_emails_def
      mcp_list_attachments_def mcp_list_notes_def mcp_list_documents_def mcp_get_document_def mcp_get_metadata_def with_bounds_def Let_def
      bindE_Inr_iff split: if_splits sum.splits\<close>)

section \<open>Who sees a document\<close>

lemma document_for_grantee_Inr:
  assumes "document_for_grantee inp s = (Inr x, s')"
  obtains r where "r \<in> set (t_docs (db_tabs s))" "dc_id r = gd_doc inp" "dc_grantee r = gd_grantee inp" "x = doc_of_row r"
proof -
  from assms obtain s1 where "get_doc_for_grantee (gd_grantee inp) (gd_doc inp) s = (Inr x, s1)"
    by (auto simp: document_for_grantee_def elim!: tryE_E split: if_splits)
  then have "pg_row [gd_doc inp, gd_grantee inp]
      (\<lambda>t. map_option doc_of_row (lookup_by dc_id (gd_doc inp) (filter (\<lambda>r. dc_grantee r = gd_grantee inp) (t_docs t)))) s = (Inr x, s1)"
    by (auto simp: get_doc_for_grantee_def wrapE_eq split: prod.splits sum.splits)
  from pg_row_Inr(1)[OF this] show ?thesis by (auto dest!: lookup_by_Some intro: that)
qed

lemma list_docs_of:
  assumes "list_docs_for_grantee w gid limit cursor s = (Inr (out, next), s')"
  shows "set out \<subseteq> summary_of_doc ` {r \<in> set (t_docs (db_tabs s)). dc_grantee r = gid}"
proof -
  have "(out, next) = docs_page w (db_tabs s) gid limit cursor"
    by (rule pg_read_Inr(1)[OF assms[unfolded list_docs_for_grantee_def]])
  then show ?thesis
    by (auto simp: docs_page_def cut_page_def Let_def split: if_splits dest!: in_set_takeD)
qed

text \<open>Only the three document tools answer with documents.\<close>

fun document_result :: "tool_result \<Rightarrow> bool" where
  "document_result (OutDocument d) = True"
| "document_result (OutMetadata d) = True"
| "document_result (OutDocuments ds n) = True"
| "document_result _ = False"

fun document_tool :: "tool_call \<Rightarrow> bool" where
  "document_tool (ListDocuments i) = True"
| "document_tool (GetDocument i) = True"
| "document_tool (GetMetadata i) = True"
| "document_tool _ = False"

text \<open>Every answer of an operation satisfies \<open>P\<close>.\<close>

definition answers :: "('a \<Rightarrow> bool) \<Rightarrow> 'a dbm \<Rightarrow> bool" where
  "answers P m \<longleftrightarrow> (\<forall>s x s'. m s = (Inr x, s') \<longrightarrow> P x)"

lemma answers_fail: "answers P (fail e)"
  by (simp add: answers_def)

lemma answers_ret: "P x \<Longrightarrow> answers P (ret x)"
  by (simp add: answers_def)

lemma answers_bindE: "(\<And>x. answers P (f x)) \<Longrightarrow> answers P (bindE m f)"
  by (auto simp: answers_def bindE_Inr_iff)

lemma answers_if: "answers P m \<Longrightarrow> answers P n \<Longrightarrow> answers P (if b then m else n)"
  by simp

lemma answers_case:
  "(\<And>e. answers P (f e)) \<Longrightarrow> (\<And>x. answers P (g x)) \<Longrightarrow> answers P (case r of Inl e \<Rightarrow> f e | Inr x \<Rightarrow> g x)"
  "answers P n \<Longrightarrow> (\<And>x. answers P (h x)) \<Longrightarrow> answers P (case q of None \<Rightarrow> n | Some x \<Rightarrow> h x)"
  "(\<And>x y. answers P (k x y)) \<Longrightarrow> answers P (case p of (x, y) \<Rightarrow> k x y)"
  by (auto split: sum.split option.split prod.split)

lemmas answers_rules = answers_bindE answers_if answers_case answers_fail

lemma other_tools_no_documents:
  assumes "call_tool w now drv c s = (Inr out, s')" and "\<not> document_tool c"
  shows "\<not> document_result out"
proof -
  have "answers (\<lambda>x. \<not> document_result x) (call_tool w now drv c)" using assms(2)
    by (cases c)
      (auto simp: mcp_list_grantees_def mcp_list_emails_def mcp_get_email_def mcp_list_threads_def mcp_get_thread_def
        mcp_search_emails_def mcp_list_attachments_def mcp_add_grantee_def mcp_add_approval_user_def mcp_whitelist_doc_def
        mcp_authorize_email_def mcp_list_approvals_def mcp_create_note_def mcp_list_notes_def queue_action_def with_bounds_def Let_def
        intro!: answers_rules answers_ret)
  then show ?thesis using assms(1) unfolding answers_def by blast
qed

text \<open>C32: documents are shown only under their own grantee: whatever tool the agent calls, an answer with a document's content or
  metadata comes from a call that names the document and the grantee of its stored row, and a document listing contains
  only summaries of stored documents of the grantee the call names. No other tool answers with documents.\<close>

theorem documents_by_grantee:
  assumes "call_tool w now drv c s = (Inr out, s')"
  shows "case out of
      OutDocument d \<Rightarrow> \<exists>inp. c = GetDocument inp \<and> (\<exists>r \<in> set (t_docs (db_tabs s)).
        dc_id r = gd_doc inp \<and> dc_grantee r = gd_grantee inp \<and> dd_id d = dc_id r \<and> dd_grantee d = dc_grantee r \<and> dd_content d = dc_content r)
    | OutMetadata d \<Rightarrow> \<exists>inp. c = GetMetadata inp \<and> (\<exists>r \<in> set (t_docs (db_tabs s)).
        dc_id r = gd_doc inp \<and> dc_grantee r = gd_grantee inp \<and> dm_id d = dc_id r \<and> dm_grantee d = dc_grantee r \<and> dm_title d = dc_title r)
    | OutDocuments ds n \<Rightarrow> \<exists>inp. c = ListDocuments inp \<and>
        set ds \<subseteq> summary_of_doc ` {r \<in> set (t_docs (db_tabs s)). dc_grantee r = ld_grantee inp}
    | _ \<Rightarrow> True"
proof (cases "document_tool c")
  case False
  then show ?thesis using other_tools_no_documents[OF assms] by (cases out) simp_all
next
  case True
  then show ?thesis
  proof (cases c rule: document_tool.cases)
    case (1 i)
    then obtain s1 s2 docs nx where g: "check_grantee (ld_grantee i) s = (Inr (), s1)"
      and l: "list_docs_for_grantee w (ld_grantee i) (ld_limit i) (ld_cursor i) s1 = (Inr (docs, nx), s2)" and out: "out = OutDocuments docs nx"
      using assms by (auto simp: mcp_list_documents_def bindE_Inr_iff split: if_splits)
    have "db_tabs s1 = db_tabs s" using check_grantee_snap[OF g] by (simp add: snap_def)
    then show ?thesis using list_docs_of[OF l] 1 out by simp
  next
    case (2 i)
    then obtain x s1 where x: "document_for_grantee i s = (Inr x, s1)"
      and d: "\<exists>d. out = OutDocument d \<and> dd_id d = d_id x \<and> dd_grantee d = d_grantee x \<and> dd_content d = d_content x"
      using assms by (auto simp: mcp_get_document_def bindE_Inr_iff)
    obtain r where "r \<in> set (t_docs (db_tabs s))" "dc_id r = gd_doc i" "dc_grantee r = gd_grantee i" "x = doc_of_row r"
      by (rule document_for_grantee_Inr[OF x])
    with d show ?thesis using 2 by (auto simp: doc_of_row_def intro!: bexI[of _ r])
  next
    case (3 i)
    then obtain x s1 where x: "document_for_grantee i s = (Inr x, s1)"
      and d: "\<exists>d. out = OutMetadata d \<and> dm_id d = d_id x \<and> dm_grantee d = d_grantee x \<and> dm_title d = d_title x"
      using assms by (auto simp: mcp_get_metadata_def bindE_Inr_iff)
    obtain r where "r \<in> set (t_docs (db_tabs s))" "dc_id r = gd_doc i" "dc_grantee r = gd_grantee i" "x = doc_of_row r"
      by (rule document_for_grantee_Inr[OF x])
    with d show ?thesis using 3 by (auto simp: doc_of_row_def intro!: bexI[of _ r])
  qed simp_all
qed

section \<open>Access\<close>

text \<open>what the bearer token protects: a started server answers an MCP request exactly when the Authorization header is the
  configured token, with or without the \<open>Bearer\<close> scheme in front; every other path than the health check answers 401
  otherwise.\<close>

theorem bearer_token_needed:
  assumes "run_mcp cfg stream = Inr srv" and "path \<noteq> ''/healthz''" and "\<not> starts_with (mc_token cfg) ''Bearer ''"
  shows "srv path header = (if header = mc_token cfg \<or> header = ''Bearer '' @ mc_token cfg then mcp_mux stream path else HttpText 401 ''unauthorized'')"
proof -
  have token: "mc_token cfg \<noteq> []" and srv: "srv = bearer_auth (mc_token cfg) (mcp_mux stream)"
    using assms(1) by (auto simp: run_mcp_def split: if_splits)
  have "trim_prefix header ''Bearer '' = mc_token cfg \<longleftrightarrow> header = mc_token cfg \<or> header = ''Bearer '' @ mc_token cfg"
  proof (cases "starts_with header ''Bearer ''")
    case True
    then obtain t where "header = ''Bearer '' @ t" by (metis starts_with_def append_take_drop_id)
    moreover have "header \<noteq> mc_token cfg" using True assms(3) by auto
    ultimately show ?thesis by (simp add: trim_prefix_def starts_with_def)
  next
    case False
    then show ?thesis by (auto simp: trim_prefix_def starts_with_def)
  qed
  then show ?thesis using token assms(2) by (auto simp: srv bearer_auth_def Let_def)
qed

text \<open>Logged arguments are bounded.\<close>

lemma truncate_args_bound: "length (truncate_args raw) \<le> 259"
  by (simp add: truncate_args_def max_logged_args_def ellipsis_def)

section \<open>Examples\<close>

theorem bearer_token_needed_witness:
  "\<exists>srv. run_mcp \<lparr> mc_bind = '':80'', mc_token = ''t0ken'' \<rparr> (\<lambda>p. p) = Inr srv \<and>
     srv ''/mcp'' ''Bearer t0ken'' = McpReply ''/mcp'' \<and> srv ''/mcp'' ''Bearer nope'' = HttpText 401 ''unauthorized''"
proof -
  let ?cfg = "\<lparr> mc_bind = '':80'', mc_token = ''t0ken'' \<rparr>"
  let ?srv = "bearer_auth ''t0ken'' (mcp_mux (\<lambda>p. p))"
  have r: "run_mcp ?cfg (\<lambda>p. p) = Inr ?srv" by (simp add: run_mcp_def)
  have "\<not> starts_with (mc_token ?cfg) ''Bearer ''" by code_simp
  note * = bearer_token_needed[OF r _ this]
  show ?thesis using r *[of "''/mcp''" "''Bearer t0ken''"] *[of "''/mcp''" "''Bearer nope''"] by (auto simp: mcp_mux_def)
qed

definition demo_supersede :: create_note_input where
  "demo_supersede = \<lparr> ic_grantee = ''ann'', ic_content = ''moved'', ic_kind = ''fact'', ic_supersedes = 1, ic_signal = [] \<rparr>"

theorem supersede_within_grantee_witness:
  "map no_supersedes (t_notes (db_tabs (snd (call_tool demo_world 8 None (CreateNote demo_supersede) demo_noted)))) = [None, Some 1] \<and>
   notes_within (db_tabs (snd (call_tool demo_world 8 None (CreateNote demo_supersede) demo_noted)))"
proof
  show "map no_supersedes (t_notes (db_tabs (snd (call_tool demo_world 8 None (CreateNote demo_supersede) demo_noted)))) = [None, Some 1]"
    by code_simp
  have "list_all (\<lambda>r. no_supersedes r = None) (t_notes (db_tabs demo_noted))" by code_simp
  then have "notes_within (db_tabs demo_noted)" by (simp add: notes_within_def list_all_iff)
  then show "notes_within (db_tabs (snd (call_tool demo_world 8 None (CreateNote demo_supersede) demo_noted)))"
    by (rule supersede_within_grantee)
qed

theorem documents_by_grantee_witness:
  "\<exists>d s'. call_tool demo_world 8 None (GetDocument \<lparr> gd_grantee = ''ann'', gd_doc = ''a'' \<rparr>) (demo_db\<lparr>db_tabs := demo_docs\<rparr>) =
     (Inr (OutDocument d), s') \<and> dd_grantee d = ''ann''"
proof -
  let ?run = "call_tool demo_world 8 None (GetDocument \<lparr> gd_grantee = ''ann'', gd_doc = ''a'' \<rparr>) (demo_db\<lparr>db_tabs := demo_docs\<rparr>)"
  have "(case fst ?run of Inr (OutDocument d) \<Rightarrow> True | _ \<Rightarrow> False)" by code_simp
  then obtain d where d: "fst ?run = Inr (OutDocument d)" by (auto split: sum.splits tool_result.splits)
  from documents_by_grantee[OF pair_of_fst[OF d]] have "dd_grantee d = ''ann''" by auto
  with pair_of_fst[OF d] show ?thesis by blast
qed

end
