(* ===== verification/AdminCli.thy ===== *)
theory AdminCli
  imports Config StoreQueries DriveClient McpServer
begin

text \<open>
  \<open>cmd/api/main.go\<close>: the subcommands of the backend. The machine it runs on is the record \<open>host\<close>: environment, files, the
  opening of the database, the parser of the service-account key, the HTTP exchange with Drive and the migrations of the
  goose library. An administration command is a \<open>dbm\<close> that returns the lines it prints; the long-running commands are given
  by what they start: \<open>serve_setup\<close> and \<open>approve_serve_setup\<close> for the two servers, \<open>poll_loop\<close> for the Drive sync.

  Main results: \<open>authorize_whitelists\<close>, \<open>bootstrap_registers\<close> and \<open>sync_gdocs_delays\<close> (the delays between cycles are those of a
  reference definition).
\<close>

section \<open>The host\<close>

record host =
  ho_env :: env
  ho_float :: "nat \<Rightarrow> nat \<Rightarrow> nat \<Rightarrow> nat"
  ho_file :: "string \<Rightarrow> err + string"
  ho_sql_open :: "string \<Rightarrow> err option"
  ho_ping :: "string \<Rightarrow> err option"
  ho_dialect :: "err option"
  ho_goose_up :: "unit dbm"
  ho_goose_down :: "unit dbm"
  ho_goose_status :: "unit dbm"
  ho_creds :: "string \<Rightarrow> err + (nat \<Rightarrow> err + string)"
  ho_http :: "nat \<Rightarrow> string \<Rightarrow> string \<Rightarrow> err + nat \<times> (err + string)"
  ho_mkdir :: "string \<Rightarrow> err option"

definition host_config :: "world \<Rightarrow> host \<Rightarrow> err + config" where
  "host_config w h = from_env w (ho_float h) (ho_env h)"

text \<open>\<open>db.Open\<close>: the driver's \<open>Open\<close> and a ping.\<close>

definition db_open :: "host \<Rightarrow> string \<Rightarrow> err option" where
  "db_open h dsn =
     (if dsn = [] then Some (ErrNew ''db: DSN is required'')
      else (case ho_sql_open h dsn of
          Some e \<Rightarrow> Some (ErrWrap ''db: open: '' e [])
        | None \<Rightarrow> map_option (\<lambda>e. ErrWrap ''db: ping: '' e []) (ho_ping h dsn)))"

text \<open>\<open>openStore\<close>, and the \<open>open\<close> of \<open>migrate\<close>: everything that follows runs on the opened database.\<close>

definition with_store :: "world \<Rightarrow> host \<Rightarrow> (config \<Rightarrow> 'a dbm) \<Rightarrow> 'a dbm" where
  "with_store w h m =
     (case host_config w h of
        Inl e \<Rightarrow> fail e
      | Inr cfg \<Rightarrow>
          (case require_db cfg of
             Some e \<Rightarrow> fail e
           | None \<Rightarrow> (case db_open h (cg_database cfg) of Some e \<Rightarrow> fail e | None \<Rightarrow> m cfg)))"

section \<open>Migrations and the bootstrap operator\<close>

definition bootstrap_approval_user :: "world \<Rightarrow> host \<Rightarrow> int \<Rightarrow> string list dbm" where
  "bootstrap_approval_user w h now =
     (case host_config w h of
        Inl e \<Rightarrow> fail e
      | Inr cfg \<Rightarrow>
          (let email = cg_boot_email cfg; key = cg_boot_key cfg in
           if email = [] \<and> key = [] then ret []
           else if email = [] \<or> key = []
           then fail (ErrNew ''APPROVAL_BOOTSTRAP_EMAIL and APPROVAL_BOOTSTRAP_PUBKEY must be set together'')
           else (case fingerprint w key of
               Inl e \<Rightarrow> fail (ErrWrap ''bootstrap pubkey: '' e [])
             | Inr fp \<Rightarrow>
                 bindE (wrapE (\<lambda>e. ErrWrap ''bootstrap approval user: '' e []) (upsert_approval_user w now email key fp)) (\<lambda>_.
                   ret [''ok: bootstrapped approval user '' @ email @ '' ('' @ fp @ '')'']))))"

text \<open>\<open>MigrateUp\<close>, \<open>MigrateDown\<close> and \<open>MigrateStatus\<close>: \<open>gooseProvider\<close> first, then the library.\<close>

definition goose_run :: "host \<Rightarrow> unit dbm \<Rightarrow> unit dbm" where
  "goose_run h m = (case ho_dialect h of Some e \<Rightarrow> fail e | None \<Rightarrow> m)"

definition migrate_down :: "world \<Rightarrow> host \<Rightarrow> unit dbm" where
  "migrate_down w h = with_store w h (\<lambda>_. goose_run h (ho_goose_down h))"

definition migrate_status :: "world \<Rightarrow> host \<Rightarrow> unit dbm" where
  "migrate_status w h = with_store w h (\<lambda>_. goose_run h (ho_goose_status h))"

definition migrate_up :: "world \<Rightarrow> host \<Rightarrow> int \<Rightarrow> string list dbm" where
  "migrate_up w h now = with_store w h (\<lambda>_. bindE (goose_run h (ho_goose_up h)) (\<lambda>_. bootstrap_approval_user w h now))"

section \<open>Operators\<close>

definition approve_user_add :: "world \<Rightarrow> host \<Rightarrow> int \<Rightarrow> string \<Rightarrow> string \<Rightarrow> string list dbm" where
  "approve_user_add w h now arg key_file =
     (let email = trim_space arg in
      if email = [] then fail (ErrNew ''email required'')
      else if key_file = [] then fail (ErrNew ''--key-file is required (path to an SSH public key)'')
      else (case ho_file h key_file of
          Inl e \<Rightarrow> fail (ErrWrap ''read key file: '' e [])
        | Inr raw \<Rightarrow>
            (let key = trim_space raw in
             case fingerprint w key of
               Inl e \<Rightarrow> fail e
             | Inr fp \<Rightarrow> with_store w h (\<lambda>_.
                 bindE (upsert_approval_user w now email key fp) (\<lambda>_. ret [''ok: '' @ email @ '' authorized ('' @ fp @ '')''])))))"

definition approve_user_list :: "world \<Rightarrow> host \<Rightarrow> string list list dbm" where
  "approve_user_list w h = with_store w h (\<lambda>_.
     bindE (list_approval_users w) (\<lambda>us. ret ([''EMAIL'', ''FINGERPRINT''] # map (\<lambda>u. [u_email u, u_fingerprint u]) us)))"

definition approve_user_remove :: "world \<Rightarrow> host \<Rightarrow> string \<Rightarrow> string list dbm" where
  "approve_user_remove w h arg =
     (let email = trim_space arg in
      if email = [] then fail (ErrNew ''email required'')
      else with_store w h (\<lambda>_. bindE (remove_approval_user w email) (\<lambda>_. ret [''ok: '' @ email @ '' revoked''])))"

section \<open>Grantees and their sources\<close>

definition new_grantee :: "string \<Rightarrow> string \<Rightarrow> grantee" where
  "new_grantee slug name = \<lparr> g_id = slug, g_name = name, g_status = status_active, g_emails = [], g_created = zero_time \<rparr>"

definition grantee_create :: "world \<Rightarrow> host \<Rightarrow> int \<Rightarrow> string \<Rightarrow> string \<Rightarrow> string list dbm" where
  "grantee_create w h now arg name =
     (let slug = trim_space arg in
      if slug = [] then fail (ErrNew ''grantee slug required'')
      else with_store w h (\<lambda>_.
        bindE (ensure_grantee now (new_grantee slug name)) (\<lambda>_. ret [''ok: grantee '' @ slug @ '' ready''])))"

definition or_dash :: "string \<Rightarrow> string" where
  "or_dash s = (if s = [] then ''-'' else s)"

fun grantee_rows :: "grantee list \<Rightarrow> string list list dbm" where
  "grantee_rows [] = ret []"
| "grantee_rows (g # gs) =
     bindE (list_sources_for_grantee (g_id g)) (\<lambda>srcs.
     bindE (grantee_rows gs) (\<lambda>rows.
       ret ([g_id g, g_status g, g_name g, or_dash (join_with '','' (g_emails g)),
             or_dash (join_with '','' (map (\<lambda>s. s_type s @ '':'' @ s_drive s) srcs))] # rows)))"

definition grantee_list :: "world \<Rightarrow> host \<Rightarrow> string list list dbm" where
  "grantee_list w h = with_store w h (\<lambda>_.
     bindE (list_grantees w) (\<lambda>gs.
     bindE (grantee_rows gs) (\<lambda>rows. ret ([''GRANTEE'', ''STATUS'', ''NAME'', ''EMAILS'', ''SOURCES''] # rows))))"

definition grantee_status :: "world \<Rightarrow> host \<Rightarrow> string \<Rightarrow> string \<Rightarrow> string list dbm" where
  "grantee_status w h status arg =
     (let slug = trim_space arg in
      if slug = [] then fail (ErrNew ''grantee slug required'')
      else with_store w h (\<lambda>_.
        bindE (wrapE (\<lambda>e. ErrWrap ''set status: '' e []) (set_grantee_status slug status)) (\<lambda>_.
          ret [''ok: grantee '' @ slug @ '' is now '' @ status])))"

definition grantee_email :: "world \<Rightarrow> host \<Rightarrow> int \<Rightarrow> bool \<Rightarrow> string \<Rightarrow> string \<Rightarrow> string list dbm" where
  "grantee_email w h now adding arg1 arg2 =
     (let slug = trim_space arg1; email = trim_space arg2 in
      if slug = [] \<or> email = [] then fail (ErrNew ''grantee slug and email required'')
      else with_store w h (\<lambda>_.
        if adding then
          bindE (wrapE (\<lambda>e. ErrWrap (''ensure grantee '' @ slug @ '': '') e []) (ensure_grantee now (new_grantee slug []))) (\<lambda>_.
          bindE (add_grantee_email w slug email) (\<lambda>_.
            ret [''ok: '' @ email @ '' mapped to grantee '' @ slug]))
        else bindE (remove_grantee_email w slug email) (\<lambda>_. ret [''ok: '' @ email @ '' unmapped from grantee '' @ slug])))"

definition authorize_source :: "world \<Rightarrow> host \<Rightarrow> int \<Rightarrow> string \<Rightarrow> string \<Rightarrow> string \<Rightarrow> string \<Rightarrow> string list dbm" where
  "authorize_source w h now src_type slug name arg =
     (let drive_id = trim_space arg in
      if drive_id = [] then fail (ErrNew ''drive-id cannot be empty'')
      else with_store w h (\<lambda>_.
        bindE (wrapE (\<lambda>e. ErrWrap (''ensure grantee '' @ slug @ '': '') e []) (ensure_grantee now (new_grantee slug name))) (\<lambda>_.
        bindE (wrapE (\<lambda>e. ErrWrap (''authorize '' @ src_type @ '' '' @ drive_id @ '': '') e [])
            (upsert_source now \<lparr> s_id = 0, s_grantee = slug, s_type = src_type, s_drive = drive_id, s_added = zero_time \<rparr>)) (\<lambda>_.
          ret [''ok: '' @ src_type @ '' '' @ drive_id @ '' authorized for grantee '' @ slug]))))"

definition revoke_source :: "world \<Rightarrow> host \<Rightarrow> string \<Rightarrow> string \<Rightarrow> string \<Rightarrow> string list dbm" where
  "revoke_source w h src_type slug arg =
     (let drive_id = trim_space arg in
      if drive_id = [] then fail (ErrNew ''drive-id cannot be empty'')
      else with_store w h (\<lambda>_.
        bindE (wrapE (\<lambda>e. ErrWrap (''revoke '' @ src_type @ '' '' @ drive_id @ '' from '' @ slug @ '': '') e [])
            (delete_source slug drive_id)) (\<lambda>_.
          ret [''ok: '' @ src_type @ '' '' @ drive_id @ '' revoked from grantee '' @ slug])))"

section \<open>The servers\<close>

definition new_drive_client :: "host \<Rightarrow> config \<Rightarrow> err + drive_http" where
  "new_drive_client h cfg =
     (if cg_sa_key cfg = [] then Inl (ErrNew ''GOOGLE_APPLICATION_CREDENTIALS not set'')
      else (case ho_file h (cg_sa_key cfg) of
          Inl e \<Rightarrow> Inl (ErrWrap ''read service-account key: '' e [])
        | Inr json \<Rightarrow>
            (case ho_creds h json of
               Inl e \<Rightarrow> Inl (ErrWrap ''parse service-account key: '' e [])
             | Inr tokens \<Rightarrow> new_client (cg_drive_base cfg) (Some tokens) (ho_http h))))"

text \<open>What \<open>serve\<close> starts: the MCP configuration and the Drive lookup, which may be missing.\<close>

definition serve_setup :: "world \<Rightarrow> host \<Rightarrow> err + mcp_config \<times> (nat \<Rightarrow> string \<Rightarrow> err + drive_file) option" where
  "serve_setup w h =
     (case host_config w h of
        Inl e \<Rightarrow> Inl e
      | Inr cfg \<Rightarrow>
          (case require_mcp cfg of
             Some e \<Rightarrow> Inl e
           | None \<Rightarrow>
               (case db_open h (cg_database cfg) of
                  Some e \<Rightarrow> Inl e
                | None \<Rightarrow> Inr (\<lparr> mc_bind = cg_mcp_bind cfg, mc_token = cg_mcp_token cfg \<rparr>,
                    (case new_drive_client h cfg of Inl e \<Rightarrow> None | Inr c \<Rightarrow> Some (\<lambda>n i. get_file c n i []))))))"

text \<open>What \<open>approve-serve\<close> starts: its address and the registry of handlers.\<close>

definition approve_serve_setup :: "world \<Rightarrow> host \<Rightarrow> int \<Rightarrow> err + string \<times> registry" where
  "approve_serve_setup w h now =
     (case host_config w h of
        Inl e \<Rightarrow> Inl e
      | Inr cfg \<Rightarrow>
          (case require_approval cfg of
             Some e \<Rightarrow> Inl e
           | None \<Rightarrow>
               (case db_open h (cg_database cfg) of
                  Some e \<Rightarrow> Inl e
                | None \<Rightarrow> Inr (cg_approval_bind cfg, register_actions w now new_registry))))"

text \<open>What \<open>sync-gdocs\<close> starts: the poll interval and the Drive client.\<close>

definition sync_setup :: "world \<Rightarrow> host \<Rightarrow> err + int \<times> drive_http" where
  "sync_setup w h =
     (case host_config w h of
        Inl e \<Rightarrow> Inl e
      | Inr cfg \<Rightarrow>
          (case require_gdocs cfg of
             Some e \<Rightarrow> Inl e
           | None \<Rightarrow>
               (case db_open h (cg_database cfg) of
                  Some e \<Rightarrow> Inl e
                | None \<Rightarrow> (case new_drive_client h cfg of Inl e \<Rightarrow> Inl e | Inr c \<Rightarrow> Inr (cg_poll cfg, c)))))"

section \<open>The mail indexer's workers\<close>

text \<open>\<open>cas.New\<close>.\<close>

definition cas_new :: "host \<Rightarrow> string \<Rightarrow> err option" where
  "cas_new h root =
     (if root = [] then Some (ErrNew ''cas: root path is required'')
      else map_option (\<lambda>e. ErrWrap ''cas: create root: '' e []) (ho_mkdir h (root @ ''/.tmp'')))"

text \<open>What \<open>index-mail\<close> starts: one worker per folder.\<close>

definition index_mail_setup :: "world \<Rightarrow> host \<Rightarrow> err + string list" where
  "index_mail_setup w h =
     (case host_config w h of
        Inl e \<Rightarrow> Inl e
      | Inr cfg \<Rightarrow>
          (case require_mail cfg of
             Some e \<Rightarrow> Inl e
           | None \<Rightarrow>
               (case db_open h (cg_database cfg) of
                  Some e \<Rightarrow> Inl e
                | None \<Rightarrow> (case cas_new h (cg_attachments cfg) of Some e \<Rightarrow> Inl e | None \<Rightarrow> Inr (cg_folders cfg)))))"

text \<open>What it ends with, from the workers' results in the order they finish and \<open>ctx.Err()\<close>.\<close>

fun index_mail_result :: "err option list \<Rightarrow> err option \<Rightarrow> err option" where
  "index_mail_result [] ctx = ctx"
| "index_mail_result (None # rs) ctx = index_mail_result rs ctx"
| "index_mail_result (Some e # rs) ctx = (if err_is e ErrCanceled then index_mail_result rs ctx else Some e)"

text \<open>\<open>main\<close>: the exit status of the process.\<close>

fun exit_status :: "err option \<Rightarrow> nat" where
  "exit_status None = 0"
| "exit_status (Some e) = (if err_is e ErrCanceled then 0 else 1)"

section \<open>The poll loop\<close>

definition next_poll_backoff :: "int \<Rightarrow> int" where
  "next_poll_backoff b = (if b * 2 > 60 * second then 60 * second else b * 2)"

text \<open>
  \<open>runPollLoop\<close>: cycle \<open>k\<close> is \<open>cycle k\<close>; \<open>stop k\<close> and \<open>brk k\<close> tell whether the context is done before it and during the wait
  after it. The result is the error the loop ends with (\<open>None\<close> when the fuel of the loop or of a cycle ran out) and the
  waits, each with whether the cycle before it succeeded.
\<close>

fun poll_loop ::
  "(nat \<Rightarrow> bool) \<Rightarrow> (nat \<Rightarrow> bool) \<Rightarrow> int \<Rightarrow> (nat \<Rightarrow> 'a option dbm) \<Rightarrow> nat \<Rightarrow> nat \<Rightarrow> int \<Rightarrow> db \<Rightarrow> (err option \<times> (bool \<times> int) list) \<times> db" where
  "poll_loop stop brk interval cycle 0 k b s = ((None, []), s)"
| "poll_loop stop brk interval cycle (Suc n) k b s =
     (if stop k then ((Some ErrCanceled, []), s)
      else (case cycle k s of
          (Inl e, s') \<Rightarrow>
            if err_is e ErrCanceled then ((Some e, []), s')
            else if brk k then ((Some ErrCanceled, [(False, b)]), s')
            else (case poll_loop stop brk interval cycle n (k + 1) (next_poll_backoff b) s' of
                ((r, ws), s'') \<Rightarrow> ((r, (False, b) # ws), s''))
        | (Inr None, s') \<Rightarrow> ((None, []), s')
        | (Inr (Some _), s') \<Rightarrow>
            if brk k then ((Some ErrCanceled, [(True, interval)]), s')
            else (case poll_loop stop brk interval cycle n (k + 1) second s' of
                ((r, ws), s'') \<Rightarrow> ((r, (True, interval) # ws), s''))))"

text \<open>
  \<open>sync-gdocs\<close>: cycle \<open>k\<close> runs at \<open>now k\<close> and ends at \<open>finish k\<close>; \<open>done k\<close> is the state of the context at each of its Drive calls.
\<close>

definition sync_gdocs ::
  "world \<Rightarrow> host \<Rightarrow> (nat \<Rightarrow> int) \<Rightarrow> (nat \<Rightarrow> gotime) \<Rightarrow> (nat \<Rightarrow> nat \<Rightarrow> bool) \<Rightarrow> (nat \<Rightarrow> bool) \<Rightarrow> (nat \<Rightarrow> bool) \<Rightarrow> nat \<Rightarrow> nat \<Rightarrow> db \<Rightarrow>
   (err option \<times> (bool \<times> int) list) \<times> db" where
  "sync_gdocs w h now finish dn stop brk fuel n s =
     (case sync_setup w h of
        Inl e \<Rightarrow> ((Some e, []), s)
      | Inr (interval, c) \<Rightarrow>
          poll_loop stop brk interval (\<lambda>k. run_sync w (now k) (finish k) (http_drive c (dn k)) fuel) n 0 second s)"

section \<open>The delays of the poll loop\<close>

text \<open>The reference: after a success the interval, after the \<open>j\<close>-th failure in a row \<open>2\<^sup>j\<close> seconds, at most 60.\<close>

fun reference_delays :: "int \<Rightarrow> nat \<Rightarrow> bool list \<Rightarrow> int list" where
  "reference_delays interval j [] = []"
| "reference_delays interval j (True # oks) = interval # reference_delays interval 0 oks"
| "reference_delays interval j (False # oks) = min 60 (2 ^ j) * second # reference_delays interval (Suc j) oks"

lemma next_poll_backoff_power: "next_poll_backoff (min 60 (2 ^ j) * second) = min 60 (2 ^ Suc j) * second"
  by (auto simp: next_poll_backoff_def second_def min_def)

lemma poll_loop_reference:
  "b = min 60 (2 ^ j) * second \<Longrightarrow>
   map snd (snd (fst (poll_loop stop brk interval cycle n k b s))) =
     reference_delays interval j (map fst (snd (fst (poll_loop stop brk interval cycle n k b s))))"
proof (induction n arbitrary: k b j s)
  case (Suc n)
  obtain r s' where c: "cycle k s = (r, s')" by fastforce
  have f: "map snd (snd (fst (poll_loop stop brk interval cycle n (k + 1) (next_poll_backoff b) s'))) =
      reference_delays interval (Suc j) (map fst (snd (fst (poll_loop stop brk interval cycle n (k + 1) (next_poll_backoff b) s'))))"
    by (rule Suc.IH) (simp add: Suc.prems next_poll_backoff_power del: power_Suc)
  have t: "map snd (snd (fst (poll_loop stop brk interval cycle n (k + 1) second s'))) =
      reference_delays interval 0 (map fst (snd (fst (poll_loop stop brk interval cycle n (k + 1) second s'))))"
    by (rule Suc.IH) simp
  show ?case using c f t Suc.prems
    by (auto split: sum.split option.split prod.split)
qed simp

lemma reference_delays_bounds:
  "d \<in> set (reference_delays interval j oks) \<Longrightarrow> d = interval \<or> second \<le> d \<and> d \<le> 60 * second"
proof (induction interval j oks rule: reference_delays.induct)
  case (3 interval j oks)
  have "1 \<le> min 60 (2 ^ j :: int)" by simp
  then show ?case using 3 by (auto simp: second_def min_def)
qed auto

text \<open>C19: the poll loop of \<open>sync-gdocs\<close> waits as its reference says: the configured interval after a successful cycle, 1, 2, 4, ...
  and at most 60 seconds after consecutive failures, starting over after a success. Since the configuration was accepted no
  wait is shorter than a second.\<close>

theorem sync_gdocs_delays:
  assumes "sync_setup w h = Inr (interval, c)" and "sync_gdocs w h now finish dn stop brk fuel n s = ((r, ws), s')"
  shows "map snd ws = reference_delays interval 0 (map fst ws) \<and> (\<forall>d \<in> set (map snd ws). second \<le> d)"
proof -
  have ws: "map snd ws = reference_delays interval 0 (map fst ws)"
    using assms poll_loop_reference[of second 0 stop brk interval
        "\<lambda>k. run_sync w (now k) (finish k) (http_drive c (dn k)) fuel" n 0 s]
    by (simp add: sync_gdocs_def)
  have "second \<le> interval"
    using assms(1) by (auto simp: sync_setup_def require_ok split: sum.splits option.splits)
  with ws reference_delays_bounds show ?thesis by metis
qed

section \<open>What the administration commands do\<close>

lemma with_store_Inr:
  assumes "with_store w h m s = (Inr x, s')"
  obtains cfg where "host_config w h = Inr cfg" "m cfg s = (Inr x, s')"
  using assms by (auto simp: with_store_def split: sum.splits option.splits)

lemma upsert_by_hits: "\<exists>x \<in> set (upsert_by key upd r rs). key x = key r" if "\<And>x. key (upd x) = key x"
  using keys_upsert_by[of key upd r rs] that by (metis image_iff insertI1)

text \<open>C17: \<open>grantee authorize\<close> whitelists the source: after it succeeded the source is registered for the grantee with the given
  type, and the sync may export it exactly when the grantee is active, which it is when the command created it; a paused
  grantee stays paused. No grantee is lost or changed.\<close>

theorem authorize_whitelists:
  assumes "authorize_source w h now ty slug name arg s = (Inr out, s')" and inv: "schema w (db_tabs s) (db_seqs s)"
  shows "(\<exists>x \<in> set (t_sources (db_tabs s')). so_grantee x = slug \<and> so_drive x = trim_space arg \<and> so_type x = ty) \<and>
    (whitelisted (db_tabs s') slug (trim_space arg) \<longleftrightarrow>
       (case lookup_by gr_id slug (t_grantees (db_tabs s)) of None \<Rightarrow> True | Some g \<Rightarrow> gr_status g = ''active'')) \<and>
    (\<forall>g \<in> set (t_grantees (db_tabs s)). g \<in> set (t_grantees (db_tabs s')))"
proof -
  let ?g = "new_grantee_row now (new_grantee slug name)"
  let ?src = "\<lparr> s_id = 0, s_grantee = slug, s_type = ty, s_drive = trim_space arg, s_added = zero_time \<rparr>"
  obtain s1 i where g: "ensure_grantee now (new_grantee slug name) s = (Inr (), s1)"
    and u: "upsert_source now ?src s1 = (Inr i, s')"
    using assms unfolding authorize_source_def
    by (auto simp: Let_def bindE_Inr_iff split: if_splits elim!: with_store_Inr)
  have id: "gr_id ?g = slug" "gr_status ?g = ''active''"
    by (simp_all add: new_grantee_row_def new_grantee_def status_active_def)
  obtain r where r: "so_grantee r = slug" "so_drive r = trim_space arg" "so_type r = ty"
    and t': "db_tabs s' = (db_tabs s1)\<lparr>t_sources := upsert_by source_key (\<lambda>x. x\<lparr>so_type := so_type r\<rparr>) r (t_sources (db_tabs s1))\<rparr>"
    using upsert_source_ok[OF u] by auto
  have gs: "t_grantees (db_tabs s') = upsert_by gr_id (\<lambda>r. r) ?g (t_grantees (db_tabs s))"
    by (simp add: t' ensure_grantee_ok[OF g])
  have src: "\<exists>x \<in> set (t_sources (db_tabs s')). so_grantee x = slug \<and> so_drive x = trim_space arg \<and> so_type x = ty"
  proof -
    have ty: "\<forall>x \<in> set (t_sources (db_tabs s')). source_key x = source_key r \<longrightarrow> so_type x = so_type r"
      by (auto simp: t' upsert_by_def update_where_def source_key_def)
    have "\<exists>x \<in> set (t_sources (db_tabs s')). source_key x = source_key r"
      using upsert_by_hits[of source_key "\<lambda>x. x\<lparr>so_type := so_type r\<rparr>"] by (simp add: t' source_key_def)
    then show ?thesis using ty r by (fastforce simp: source_key_def)
  qed
  have old: "distinct (map gr_id (t_grantees (db_tabs s)))" using inv by (simp add: schema_def ok_grantees_def)
  then have d: "distinct (map gr_id (t_grantees (db_tabs s')))" unfolding gs by (intro distinct_upsert_by) simp_all
  have l: "lookup_by gr_id slug (t_grantees (db_tabs s')) =
      (case lookup_by gr_id slug (t_grantees (db_tabs s)) of None \<Rightarrow> Some ?g | Some g \<Rightarrow> Some g)"
    using lookup_by_upsert_same[of gr_id "\<lambda>r. r" ?g] by (simp add: gs id)
  have "(\<exists>g \<in> set (t_grantees (db_tabs s')). gr_id g = slug \<and> gr_status g = ''active'') \<longleftrightarrow>
      (\<exists>g. lookup_by gr_id slug (t_grantees (db_tabs s')) = Some g \<and> gr_status g = ''active'')"
    using d lookup_by_unique lookup_by_Some by metis
  then have "whitelisted (db_tabs s') slug (trim_space arg) \<longleftrightarrow>
      (case lookup_by gr_id slug (t_grantees (db_tabs s)) of None \<Rightarrow> True | Some g \<Rightarrow> gr_status g = ''active'')"
    using src id(2) unfolding whitelisted_def l by (auto split: option.splits)
  moreover have "g \<in> set (t_grantees (db_tabs s'))" if "g \<in> set (t_grantees (db_tabs s))" for g
    using that unfolding gs by (auto simp: upsert_by_def update_where_def)
  ultimately show ?thesis using src by blast
qed

lemma then_print_tabs: "db_tabs (snd (bindE (wrapE f m) (\<lambda>_. ret out) s)) = db_tabs (snd (m s))"
  by (auto simp: bindE_eq wrapE_eq split: prod.split sum.split)

text \<open>\<open>migrate up\<close> leaves the bootstrap operator able to approve: when it seeded one, every spelling of the configured email finds
  the configured key and its fingerprint, and running it again changes no table.\<close>

theorem bootstrap_registers:
  assumes cfg: "host_config w h = Inr cfg" "cg_boot_email cfg \<noteq> []"
    and run: "bootstrap_approval_user w h now s = (Inr out, s')" and clean: "db_faults s' = []"
    and spell: "citext_key w e = citext_key w (cg_boot_email cfg)" "pg_text_ok e"
  shows "(\<exists>u. get_approval_user w e s' = (Inr u, s') \<and> u_key u = cg_boot_key cfg \<and> Inr (u_fingerprint u) = fingerprint w (cg_boot_key cfg)) \<and>
    db_tabs (snd (bootstrap_approval_user w h now2 s')) = db_tabs s'"
proof -
  let ?e = "cg_boot_email cfg" and ?k = "cg_boot_key cfg"
  obtain fp where k: "?k \<noteq> []" and fp: "fingerprint w ?k = Inr fp" and up: "upsert_approval_user w now ?e ?k fp s = (Inr (), s')"
    using run cfg unfolding bootstrap_approval_user_def
    by (auto simp: Let_def bindE_Inr_iff split: if_splits sum.splits)
  let ?u = "\<lambda>r. r\<lparr>us_key := ?k, us_fingerprint := fp\<rparr>"
  let ?r = "\<lambda>now. \<lparr> us_email = ?e, us_key = ?k, us_fingerprint = fp, us_created = now \<rparr>"
  have t': "db_tabs s' = (db_tabs s)\<lparr>t_users := upsert_by (user_key w) ?u (?r now) (t_users (db_tabs s))\<rparr>"
    using up by (auto simp: upsert_approval_user_def split: if_splits dest!: pg_modify_Inr(2))
  have key: "user_key w (?u x) = user_key w x" for x by (simp add: user_key_def)
  have same_key: "user_key w (?r n) = citext_key w e" for n by (simp add: user_key_def spell)
  have "\<exists>x. lookup_by (user_key w) (citext_key w e) (t_users (db_tabs s')) = Some x \<and> us_key x = ?k \<and> us_fingerprint x = fp"
    using lookup_by_upsert_same[of "user_key w" ?u "?r now", OF key]
    by (auto simp: t' same_key split: option.splits)
  then have get: "\<exists>u. get_approval_user w e s' = (Inr u, s') \<and> u_key u = ?k \<and> Inr (u_fingerprint u) = fingerprint w ?k"
    using clean spell(2) fp by (auto simp: get_approval_user_clean user_of_row_def)
  have "upsert_by (user_key w) ?u (?r now2) (upsert_by (user_key w) ?u (?r now) (t_users (db_tabs s))) =
      upsert_by (user_key w) ?u (?r now) (t_users (db_tabs s))"
    by (rule upsert_by_idem) (simp_all add: user_key_def)
  then have again: "db_tabs (snd (upsert_approval_user w now2 ?e ?k fp s')) = db_tabs s'"
    using clean by (simp add: upsert_approval_user_def clean_simps t')
  have "\<exists>f out'. bootstrap_approval_user w h now2 = bindE (wrapE f (upsert_approval_user w now2 ?e ?k fp)) (\<lambda>_. ret out')"
    unfolding bootstrap_approval_user_def using cfg k fp by (simp add: Let_def) blast
  then have "db_tabs (snd (bootstrap_approval_user w h now2 s')) = db_tabs s'"
    using then_print_tabs again by metis
  with get show ?thesis by blast
qed

lemma trim_prefix_cases: "trim_prefix h p = t \<Longrightarrow> h = t \<or> h = p @ t"
  unfolding trim_prefix_def starts_with_def by (metis append_take_drop_id)

text \<open>C18: \<open>serve\<close> never runs an open server: when its setup succeeds, the server it configures starts, its token is the one of the
  environment and is not empty, a request gets past the check only with exactly this token, with or without the \<open>Bearer\<close>
  scheme in front, and with \<open>Bearer\<close> and the token every path is served.\<close>

theorem serve_asks_for_token:
  assumes "serve_setup w h = Inr (mc, d)"
  shows "ho_env h ''MCP_BEARER_TOKEN'' \<noteq> [] \<and>
    (\<exists>srv. run_mcp mc stream = Inr srv \<and>
      (\<forall>path header. path = ''/healthz'' \<or> srv path header = HttpText 401 ''unauthorized'' \<or>
         header = ho_env h ''MCP_BEARER_TOKEN'' \<or> header = ''Bearer '' @ ho_env h ''MCP_BEARER_TOKEN'') \<and>
      (\<forall>path. srv path (''Bearer '' @ ho_env h ''MCP_BEARER_TOKEN'') = mcp_mux stream path))"
proof -
  obtain cfg where cfg: "host_config w h = Inr cfg" "require_mcp cfg = None"
    and mc: "mc_bind mc = cg_mcp_bind cfg" "mc_token mc = cg_mcp_token cfg"
    using assms by (auto simp: serve_setup_def split: sum.splits option.splits)
  have tok: "cg_mcp_token cfg = ho_env h ''MCP_BEARER_TOKEN''"
    using cfg(1) by (auto simp: host_config_def from_env_def split: sum.splits)
  define t where "t = ho_env h ''MCP_BEARER_TOKEN''"
  have t: "t \<noteq> []" "mc_token mc = t" "mc_bind mc \<noteq> []" using cfg(2) mc tok by (simp_all add: require_ok t_def)
  have "run_mcp mc stream = Inr (bearer_auth t (mcp_mux stream))" using t by (simp add: run_mcp_def)
  moreover have "path = ''/healthz'' \<or> bearer_auth t (mcp_mux stream) path header = HttpText 401 ''unauthorized'' \<or>
      header = t \<or> header = ''Bearer '' @ t" for path header
    using trim_prefix_cases[of header "''Bearer ''" t] by (auto simp: bearer_auth_def Let_def)
  moreover have "bearer_auth t (mcp_mux stream) path (''Bearer '' @ t) = mcp_mux stream path" for path
    using t(1) by (simp add: bearer_auth_def trim_prefix_def starts_with_def)
  ultimately show ?thesis using t(1) unfolding t_def by blast
qed

section \<open>A concrete host\<close>

definition demo_host :: host where
  "demo_host = \<lparr> ho_env = (\<lambda>n. if n = ''DATABASE_URL'' then ''db'' else if n = ''GOOGLE_APPLICATION_CREDENTIALS'' then ''/sa''
       else if n = ''APPROVAL_BOOTSTRAP_EMAIL'' then '' Op@x.org'' else if n = ''APPROVAL_BOOTSTRAP_PUBKEY'' then ''key''
       else if n = ''MCP_BEARER_TOKEN'' then ''t0k'' else []),
     ho_float = (\<lambda>a b c. 0), ho_file = (\<lambda>n. Inr ''{}''), ho_sql_open = (\<lambda>_. None), ho_ping = (\<lambda>_. None), ho_dialect = None,
     ho_goose_up = ret (), ho_goose_down = ret (), ho_goose_status = ret (), ho_creds = (\<lambda>_. Inr (\<lambda>_. Inr ''tok'')),
     ho_http = (\<lambda>_ _ _. Inr (500, Inr [])), ho_mkdir = (\<lambda>_. None) \<rparr>"

lemma demo_config:
  "case host_config demo_world demo_host of Inl e \<Rightarrow> False | Inr c \<Rightarrow> cg_boot_email c = ''Op@x.org'' \<and> cg_boot_key c = ''key'' \<and>
     cg_database c = ''db'' \<and> cg_sa_key c = ''/sa'' \<and> cg_poll c = 300 * second \<and>
     cg_mcp_token c = ''t0k'' \<and> cg_mcp_bind c = '':8080''"
  by code_simp

lemma demo_setup: "\<exists>c. sync_setup demo_world demo_host = Inr (300 * second, c)"
proof -
  obtain c where c: "host_config demo_world demo_host = Inr c" "cg_database c \<noteq> []" "cg_sa_key c \<noteq> []" "cg_poll c = 300 * second"
    using demo_config by (auto split: sum.splits)
  then have "require_gdocs c = None" by (simp add: require_ok second_def)
  moreover have "db_open demo_host (cg_database c) = None" using c(2) by (simp add: db_open_def demo_host_def)
  moreover have "\<exists>d. new_drive_client demo_host c = Inr d"
    using c(3) by (simp add: new_drive_client_def demo_host_def new_client_def)
  ultimately show ?thesis using c by (auto simp: sync_setup_def)
qed

lemma demo_polling:
  "snd (fst (poll_loop (\<lambda>_. False) (\<lambda>k. k = 2) (300 * second)
     (\<lambda>k. run_sync demo_world 9 9 \<lparr> dv_list = l, dv_get = g, dv_export = e, dv_done = (\<lambda>_. False) \<rparr> 5) 4 0 second
     (demo_db\<lparr>db_faults := [Some (DriverFault ''x''), Some (DriverFault ''x'')]\<rparr>))) =
   [(False, second), (False, 2 * second), (True, 300 * second)]"
  by code_simp

theorem serve_asks_for_token_witness:
  "\<exists>mc d srv. serve_setup demo_world demo_host = Inr (mc, d) \<and> run_mcp mc (\<lambda>p. p) = Inr srv \<and>
     srv ''/mcp'' ''nope'' = HttpText 401 ''unauthorized'' \<and> srv ''/mcp'' ''Bearer t0k'' = mcp_mux (\<lambda>p. p) ''/mcp''"
proof -
  obtain c where c: "host_config demo_world demo_host = Inr c" "cg_database c \<noteq> []" "cg_mcp_token c \<noteq> []" "cg_mcp_bind c \<noteq> []"
    using demo_config by (auto split: sum.splits)
  then have "require_mcp c = None" by (simp add: require_ok)
  moreover have "db_open demo_host (cg_database c) = None" using c(2) by (simp add: db_open_def demo_host_def)
  ultimately obtain mc d where s: "serve_setup demo_world demo_host = Inr (mc, d)" using c by (auto simp: serve_setup_def)
  have t: "ho_env demo_host ''MCP_BEARER_TOKEN'' = ''t0k''" by code_simp
  from serve_asks_for_token[OF s, of "\<lambda>p. p", unfolded t] obtain srv where r: "run_mcp mc (\<lambda>p. p) = Inr srv"
    and no: "\<forall>path header. path = ''/healthz'' \<or> srv path header = HttpText 401 ''unauthorized'' \<or> header = ''t0k'' \<or> header = ''Bearer '' @ ''t0k''"
    and yes: "\<forall>path. srv path (''Bearer '' @ ''t0k'') = mcp_mux (\<lambda>p. p) path" by blast
  have "srv ''/mcp'' ''nope'' = HttpText 401 ''unauthorized''" using no[rule_format, of "''/mcp''" "''nope''"] by simp
  moreover have "srv ''/mcp'' ''Bearer t0k'' = mcp_mux (\<lambda>p. p) ''/mcp''" using yes by simp
  ultimately show ?thesis using s r by blast
qed

text \<open>Two cycles fail, the third succeeds, and the wait after it is interrupted.\<close>

definition demo_polled :: "db \<Rightarrow> (err option \<times> (bool \<times> int) list) \<times> db" where
  "demo_polled = sync_gdocs demo_world demo_host (\<lambda>k. 9) (\<lambda>k. 9) (\<lambda>_ _. False) (\<lambda>_. False) (\<lambda>k. k = 2) 5 4"

theorem sync_gdocs_delays_witness:
  "snd (fst (demo_polled (demo_db\<lparr>db_faults := [Some (DriverFault ''x''), Some (DriverFault ''x'')]\<rparr>))) =
     [(False, second), (False, 2 * second), (True, 300 * second)] \<and>
   [second, 2 * second, 300 * second] = reference_delays (300 * second) 0 [False, False, True]"
proof -
  let ?s = "demo_db\<lparr>db_faults := [Some (DriverFault ''x''), Some (DriverFault ''x'')]\<rparr>"
  obtain c where c: "sync_setup demo_world demo_host = Inr (300 * second, c)" using demo_setup by blast
  have ws: "snd (fst (demo_polled ?s)) = [(False, second), (False, 2 * second), (True, 300 * second)]"
    using demo_polling by (simp add: demo_polled_def sync_gdocs_def c http_drive_def)
  obtain r s' where r: "demo_polled ?s = ((r, [(False, second), (False, 2 * second), (True, 300 * second)]), s')"
    using ws by (metis prod.collapse)
  from sync_gdocs_delays[OF c r[unfolded demo_polled_def]] ws show ?thesis by simp
qed

theorem authorize_whitelists_witness:
  "whitelisted (db_tabs (snd (authorize_source demo_world demo_host 9 ''folder'' ''ann'' [] '' F '' demo_db))) ''ann'' ''F''"
proof -
  let ?m = "authorize_source demo_world demo_host 9 ''folder'' ''ann'' [] '' F '' demo_db"
  have "case fst ?m of Inl e \<Rightarrow> False | Inr _ \<Rightarrow> True" by code_simp
  then obtain out where "fst ?m = Inr out" by (auto split: sum.splits)
  moreover have "trim_space '' F '' = ''F''" by code_simp
  moreover have "lookup_by gr_id ''ann'' (t_grantees (db_tabs demo_db)) = Some (demo_grantee ''ann'')" by code_simp
  moreover have "gr_status (demo_grantee ''ann'') = ''active''" by code_simp
  ultimately show ?thesis using authorize_whitelists[OF pair_of_fst demo_db_schema] by fastforce
qed

theorem bootstrap_registers_witness:
  "\<exists>u. fst (get_approval_user demo_world ''op@X.ORG'' (snd (bootstrap_approval_user demo_world demo_host 9 demo_db))) = Inr u \<and> u_key u = ''key''"
proof -
  let ?m = "bootstrap_approval_user demo_world demo_host 9 demo_db"
  obtain c where c: "host_config demo_world demo_host = Inr c" "cg_boot_email c = ''Op@x.org''" "cg_boot_key c = ''key''"
    using demo_config by (auto split: sum.splits)
  then have e: "cg_boot_email c \<noteq> []" by simp
  have "case fst ?m of Inl e \<Rightarrow> False | Inr _ \<Rightarrow> True" by code_simp
  then obtain out where m: "fst ?m = Inr out" by (auto split: sum.splits)
  have f: "db_faults (snd ?m) = []" by code_simp
  have "citext_key demo_world ''op@X.ORG'' = citext_key demo_world ''Op@x.org''" by code_simp
  then have k: "citext_key demo_world ''op@X.ORG'' = citext_key demo_world (cg_boot_email c)" using c(2) by simp
  have t: "pg_text_ok ''op@X.ORG''" by code_simp
  from bootstrap_registers[OF c(1) e pair_of_fst[OF m] f k t, THEN conjunct1] c(3) show ?thesis by (metis fst_conv)
qed

end
