(* ===== verification/Revocation.thy ===== *)
theory Revocation
  imports AdminCli
begin

text \<open>
  What becomes of the documents of a source after \<open>grantee revoke\<close>: nothing. The sync cycle marks an unseen document stale only
  while its source is registered, so the documents of a revoked source keep their status and are still served. The lemmas
  follow one document row through the cycle with the evolution \<open>keeping (row_stays T i r)\<close>.

  Main result: \<open>revoke_leaves_documents\<close>.
\<close>

section \<open>Revoked sources\<close>

text \<open>Document \<open>i\<close> is offered only inside the folder \<open>drive\<close> or, when \<open>drive\<close> is the document, as itself.\<close>

definition offered_only_by :: "drive \<Rightarrow> string \<Rightarrow> string \<Rightarrow> bool" where
  "offered_only_by d drive i \<longleftrightarrow>
     (\<forall>n folder token page f. dv_list d n folder token = Inr page \<longrightarrow> folder \<noteq> drive \<longrightarrow> f \<in> set (fl_files page) \<longrightarrow>
        f_id f \<noteq> i \<and> f_id f \<noteq> drive) \<and>
     (\<forall>n j f. dv_get d n j = Inr f \<longrightarrow> j \<noteq> drive \<longrightarrow> f_id f \<noteq> i)"

definition row_stays :: "tables \<Rightarrow> string \<Rightarrow> doc_row \<Rightarrow> tables \<Rightarrow> bool" where
  "row_stays T i r t \<longleftrightarrow> but_docs t = but_docs T \<and> lookup_by dc_id i (t_docs t) = Some r"

lemma row_stays_update:
  assumes "row_stays T i r t" and "\<not> P r" and "\<And>x. dc_id (f x) = dc_id x"
  shows "row_stays T i r (t\<lparr>t_docs := update_where P f (t_docs t)\<rparr>)"
  using assms by (simp add: row_stays_def but_docs_def lookup_by_update_where)

lemma row_stays_id: "row_stays T i r t \<Longrightarrow> dc_id r = i"
  by (auto simp: row_stays_def dest: lookup_by_Some)

lemma keeps_row:
  assumes "j \<noteq> i"
  shows "evolves (keeping (row_stays T i r)) (touch_doc_seen now j cycle)"
    "evolves (keeping (row_stays T i r)) (mark_doc_stale j msg)"
    "evolves (keeping (row_stays T i r)) (mark_doc_error j msg)"
  unfolding touch_doc_seen_def mark_doc_stale_def mark_doc_error_def require_one_row_def update_docs_def
  by (intro keeping.ev_if keeping.ev_fail keeping.ev_ret keeping.ev_bindE keeping.ev_pg_modify;
      use assms in \<open>auto simp: keeping_def dest: row_stays_id intro!: row_stays_update\<close>)+

lemma keeps_row_upsert:
  assumes "d_id d \<noteq> i"
  shows "evolves (keeping (row_stays T i r)) (upsert_doc w now d cycle)"
  unfolding upsert_doc_def Let_def
proof (intro keeping.ev_if keeping.ev_fail keeping.ev_pg_modify)
  fix t :: tables and q :: seqs and x t'
  let ?r = "row_of_doc w now d cycle"
  assume "put_doc ?r t = Inr (x, t')"
  then have t': "t' = t\<lparr>t_docs := upsert_by dc_id (\<lambda>x. ?r\<lparr>dc_id := dc_id x\<rparr>) ?r (t_docs t)\<rparr>"
    by (auto simp: put_doc_def split: if_splits)
  have "lookup_by dc_id i (t_docs t') = lookup_by dc_id i (t_docs t)"
    using lookup_by_upsert_other[of dc_id "\<lambda>x. ?r\<lparr>dc_id := dc_id x\<rparr>" i ?r "t_docs t"] assms
    by (simp add: t' row_of_doc_def)
  then show "keeping (row_stays T i r) (t, q) (t', q)" by (simp add: keeping_def row_stays_def t' but_docs_def)
qed

lemma keeps_row_unseen:
  assumes "\<forall>x \<in> set (t_sources T). so_drive x \<noteq> dc_source_drive r"
  shows "evolves (keeping (row_stays T i r)) (mark_unseen_stale cycle)"
proof -
  have "\<not> unseen t cycle r" if "row_stays T i r t" for t
  proof -
    have "t_sources t = t_sources T" using that by (metis but_docs_fields(3) row_stays_def)
    then show ?thesis using assms by (auto simp: unseen_def list_ex_iff)
  qed
  then show ?thesis unfolding mark_unseen_stale_def update_docs_def
    by (intro keeping.ev_pg_modify) (auto simp: keeping_def intro!: row_stays_update)
qed

lemma keeps_row_state:
  "evolves (keeping (row_stays T i r)) next_cycle_id" "evolves (keeping (row_stays T i r)) (set_last_successful_sync tm)"
  unfolding next_cycle_id_def set_last_successful_sync_def Let_def
  by (intro keeping.ev_in_tx keeping.ev_tryE keeping.ev_case_sum keeping.ev_fail keeping.ev_ret keeping.ev_bindE
      keeping.ev_pg_row keeping.ev_pg_modify;
      auto simp: keeping_def row_stays_def but_docs_def dest!: put_sync_Inr)+

section \<open>The cycle\<close>

lemma keeps_row_process:
  assumes "f_id f \<noteq> i"
  shows "evolves (keeping (row_stays T i r)) (process_doc w now d gid src cycle f p)"
  unfolding process_doc_def export_failed_def using assms
  by (intro keeping.ev_if keeping.ev_ret keeping.ev_case_sum keeping.ev_tryE keeping.ev_get_doc keeps_row keeps_row_upsert)
    (simp_all add: new_doc_def)

lemma keeps_row_files:
  "(\<And>f p. f \<in> set fs \<Longrightarrow> evolves (keeping I) (h f p)) \<Longrightarrow> evolves (keeping I) (walk_files h fs p)"
  by (induction fs arbitrary: p) (auto intro!: keeping.ev_ret keeping.ev_bindE keeping.ev_if)

lemma keeps_row_folder:
  assumes "offered_only_by d drive i"
  shows "folder \<noteq> drive \<Longrightarrow> evolves (keeping (row_stays T i r)) (walk_folder w now d gid src cycle n folder token p)"
proof (induction n arbitrary: folder token p)
  case 0
  show ?case unfolding walk_folder.simps by (rule keeping.ev_ret)
next
  case (Suc n)
  have off: "f_id f \<noteq> i \<and> f_id f \<noteq> drive" if "dv_list d k folder token = Inr page" "f \<in> set (fl_files page)" for k page f
    using that assms Suc.prems unfolding offered_only_by_def by blast
  have page: "evolves (keeping (row_stays T i r)) (walk_files (\<lambda>f p.
      if f_mime f = mime_folder then bindE (walk_folder w now d gid src cycle n (f_id f) [] p) (\<lambda>(r, p'). ret (r \<noteq> None, p'))
      else if f_mime f = mime_doc then bindE (process_doc w now d gid src cycle f p) (\<lambda>p'. ret (True, p'))
      else ret (True, p)) (fl_files page) p')" if "dv_list d k folder token = Inr page" for k page p'
    using off[OF that]
    by (intro keeps_row_files keeping.ev_if keeping.ev_bindE keeping.ev_case_prod keeping.ev_ret Suc.IH keeps_row_process) blast+
  show ?case
  proof (cases "dv_list d (pr_calls p) folder token")
    case (Inl e)
    then show ?thesis by (auto intro!: keeping.ev_ret keeping.ev_if)
  next
    case (Inr page)
    then show ?thesis unfolding walk_folder.simps
      by (simp only: sum.case) (intro keeping.ev_if keeping.ev_ret keeping.ev_bindE keeping.ev_case_prod page Suc.IH Suc.prems)
  qed
qed

lemma keeps_row_sources:
  assumes "offered_only_by d drive i" and "\<forall>x \<in> set srcs. s_drive x \<noteq> drive"
  shows "evolves (keeping (row_stays T i r)) (sync_sources w now d fuel gid cycle srcs p)"
  using assms(2)
proof (induction srcs arbitrary: p)
  case Nil
  show ?case unfolding sync_sources.simps by (rule keeping.ev_ret)
next
  case (Cons src srcs)
  have src: "s_drive src \<noteq> drive" and rest: "\<And>p. evolves (keeping (row_stays T i r)) (sync_sources w now d fuel gid cycle srcs p)"
    using Cons by auto
  have got: "f_id f \<noteq> i" if "dv_get d k (s_drive src) = Inr f" for k f
    using that assms(1) src unfolding offered_only_by_def by blast
  show ?case
  proof (cases "dv_get d (pr_calls p) (s_drive src)")
    case (Inl e)
    then show ?thesis unfolding sync_sources.simps
      by (simp only: sum.case) (intro keeping.ev_if keeping.ev_ret keeping.ev_bindE keeping.ev_case_prod rest
          keeps_row_folder[OF assms(1) src])
  next
    case (Inr f)
    then show ?thesis unfolding sync_sources.simps
      by (simp only: sum.case) (intro keeping.ev_if keeping.ev_ret keeping.ev_bindE keeping.ev_case_prod rest
          keeps_row_folder[OF assms(1) src] keeps_row_process got[OF Inr])
  qed
qed

lemma keeps_row_grantee:
  assumes "offered_only_by d drive i" and none: "\<forall>x \<in> set (t_sources T). so_drive x \<noteq> drive"
  shows "evolves (keeping (row_stays T i r)) (sync_grantee w now d fuel cycle g p)"
proof -
  have "row_stays T i r (db_tabs (snd (sync_grantee w now d fuel cycle g p s)))" if I: "row_stays T i r (db_tabs s)" for s
  proof -
    obtain x s1 where l: "list_sources_for_grantee (g_id g) s = (x, s1)" by fastforce
    have s1: "db_tabs s1 = db_tabs s" using l by (metis list_sources_for_grantee_def pg_read_tabs snd_conv)
    show ?thesis
    proof (cases x)
      case (Inl e)
      then show ?thesis using l s1 I by (simp add: sync_grantee_def tryE_eq)
    next
      case (Inr srcs)
      have src: "srcs = map source_of_row (sort_key so_id (filter (\<lambda>x. so_grantee x = g_id g) (t_sources (db_tabs s))))"
        by (rule pg_read_Inr(1)[OF l[unfolded list_sources_for_grantee_def Inr]])
      have "t_sources (db_tabs s) = t_sources T" using I by (metis but_docs_fields(3) row_stays_def)
      then have "\<forall>x \<in> set srcs. s_drive x \<noteq> drive" using none by (auto simp: src source_of_row_def)
      from evolves_keeping[OF keeps_row_sources[OF assms(1) this], of T r s1] show ?thesis
        using l Inr s1 I by (simp add: sync_grantee_def tryE_eq)
    qed
  qed
  then show ?thesis by (simp add: evolves_def keeping_def snap_def)
qed

lemma keeps_row_sync:
  assumes "offered_only_by d (dc_source_drive r) i" and none: "\<forall>x \<in> set (t_sources T). so_drive x \<noteq> dc_source_drive r"
  shows "evolves (keeping (row_stays T i r)) (run_sync w now finish d fuel)"
  unfolding run_sync_def list_active_grantees_def
  by (intro keeping.ev_bindE keeping.ev_wrapE keeping.ev_case_prod keeping.ev_case_option keeping.ev_case_sum keeping.ev_ret
      keeping.ev_fail keeping.ev_pg_read keeping.ev_sync_grantees keeps_row_grantee[OF assms] keeps_row_state
      keeps_row_unseen[OF none])

section \<open>Revoking\<close>

text \<open>C16: revoking a source does not retire its documents: after \<open>grantee revoke\<close> succeeded, a document that only this source
  offers has its row as before, and it keeps it through the next sync cycle, however that one ends: an active document
  stays active and is never marked stale. The same holds when the command named the wrong type, which it ignores.\<close>

theorem revoke_leaves_documents:
  assumes "revoke_source w h ty slug arg s = (Inr out, s')"
    and sole: "\<forall>x \<in> set (t_sources (db_tabs s)). so_drive x = trim_space arg \<longrightarrow> so_grantee x = slug"
    and row: "lookup_by dc_id i (t_docs (db_tabs s)) = Some r" "dc_source_drive r = trim_space arg"
    and off: "offered_only_by d (trim_space arg) i"
  shows "(\<forall>x \<in> set (t_sources (db_tabs s')). so_drive x \<noteq> trim_space arg) \<and>
    lookup_by dc_id i (t_docs (db_tabs s')) = Some r \<and>
    lookup_by dc_id i (t_docs (db_tabs (snd (run_sync w now finish d fuel s')))) = Some r"
proof -
  let ?hit = "\<lambda>r. so_grantee r = slug \<and> so_drive r = trim_space arg"
  have "delete_source slug (trim_space arg) s = (Inr (), s')"
    using assms(1) unfolding revoke_source_def by (auto simp: Let_def bindE_Inr_iff split: if_splits elim!: with_store_Inr)
  then have t': "db_tabs s' = (db_tabs s)\<lparr>t_sources := delete_where ?hit (t_sources (db_tabs s))\<rparr>"
    by (auto simp: delete_source_def Let_def bindE_Inr_iff require_one_row_def split: if_splits dest!: pg_modify_Inr(2))
  have none: "\<forall>x \<in> set (t_sources (db_tabs s')). so_drive x \<noteq> trim_space arg" using sole by (auto simp: t' row_simps)
  have l: "lookup_by dc_id i (t_docs (db_tabs s')) = Some r" using row by (simp add: t')
  then have "row_stays (db_tabs s') i r (db_tabs s')" by (simp add: row_stays_def)
  from evolves_keeping[OF keeps_row_sync this] off none row(2)
  have "row_stays (db_tabs s') i r (db_tabs (snd (run_sync w now finish d fuel s')))" by simp
  then show ?thesis using none l by (simp add: row_stays_def)
qed

text \<open>The document was synced from the folder \<open>F\<close>; it stays active although the folder was revoked.\<close>

theorem revoke_leaves_documents_witness:
  "\<exists>r. dc_status r = ''active'' \<and> lookup_by dc_id ''D'' (t_docs (db_tabs (snd (demo_synced
     (snd (revoke_source demo_world demo_host ''folder'' ''ann'' ''F'' (snd (demo_synced demo_sources)))))))) = Some r"
proof -
  let ?s = "snd (demo_synced demo_sources)"
  let ?m = "revoke_source demo_world demo_host ''folder'' ''ann'' ''F'' ?s"
  have "case fst ?m of Inl e \<Rightarrow> False | Inr _ \<Rightarrow> True" by code_simp
  then obtain out where m: "fst ?m = Inr out" by (auto split: sum.splits)
  have tr: "trim_space ''F'' = ''F''" by code_simp
  have sole: "list_all (\<lambda>x. so_grantee x = ''ann'') (t_sources (db_tabs ?s))" by code_simp
  have "case lookup_by dc_id ''D'' (t_docs (db_tabs ?s)) of None \<Rightarrow> False | Some r \<Rightarrow> dc_status r = ''active'' \<and> dc_source_drive r = ''F''"
    by code_simp
  then obtain r where r: "lookup_by dc_id ''D'' (t_docs (db_tabs ?s)) = Some r" "dc_status r = ''active''" "dc_source_drive r = ''F''"
    by (auto split: option.splits)
  have off: "offered_only_by demo_drive (trim_space ''F'') ''D''"
    unfolding tr by (simp add: offered_only_by_def demo_drive_def)
  have so: "\<forall>x \<in> set (t_sources (db_tabs ?s)). so_drive x = trim_space ''F'' \<longrightarrow> so_grantee x = ''ann''"
    using sole by (simp add: list_all_iff)
  have d: "dc_source_drive r = trim_space ''F''" using r(3) tr by simp
  from revoke_leaves_documents[where now = 9 and finish = 9000000000 and fuel = 3, OF pair_of_fst[OF m] so r(1) d off] r(2)
  show ?thesis by (auto simp: demo_synced_def)
qed

end
