(* ===== verification/Threading.thy ===== *)
theory Threading
  imports World
begin

text \<open>
  \<open>internal/parse/threading.go\<close>: Message-IDs in mail headers, normalized subjects, and the ordered list of
  Message-IDs that may identify the thread of a message.

  The regular expressions are written out as scans. \<open>[^>]+\<close> and \<open>\<s>\<close> of RE2 work on runes, but their
  delimiters are ASCII, so bytes give the same matches. A \<open>nil\<close> slice and an empty one are both \<open>[]\<close>.
\<close>

section \<open>Message-IDs\<close>

text \<open>The group of every match of \<open><([^>]+)>\<close>, from left to right.\<close>

function angle_matches :: "string \<Rightarrow> string list" where
  "angle_matches [] = []"
| "angle_matches (c # r) =
     (if c \<noteq> CHR ''<'' then angle_matches r
      else (let g = takeWhile (\<lambda>x. x \<noteq> CHR ''>'') r; rest = dropWhile (\<lambda>x. x \<noteq> CHR ''>'') r
            in if g \<noteq> [] \<and> rest \<noteq> [] then g # angle_matches (tl rest) else angle_matches r))"
  by pat_completeness auto
termination
proof (relation "measure length")
  fix c r and g rest :: string
  assume "rest = dropWhile (\<lambda>x. x \<noteq> CHR ''>'') r"
  then show "(tl rest, c # r) \<in> measure length"
    using length_dropWhile_le[of "\<lambda>x. x \<noteq> CHR ''>''" r] by simp
qed auto

definition bare_ids :: "string \<Rightarrow> string list" where
  "bare_ids s = filter (\<lambda>t. t \<noteq> [] \<and> contains t ''@'') (map (trim_cutset ''<>'') (GoText.fields s))"

definition extract_ids :: "string \<Rightarrow> string list" where
  "extract_ids s =
     (if s = [] then []
      else (let out = filter (\<lambda>v. v \<noteq> []) (map trim_space (angle_matches s))
            in if out = [] then bare_ids s else out))"

section \<open>Subjects\<close>

text \<open>\<open>\<s>\<close> of RE2; the tags of \<open>(?i)(re|fwd?|aw|sv|tr)\<close>, where \<open>(?i)s\<close> also matches the long s.\<close>

definition is_re_space :: "char \<Rightarrow> bool" where
  "is_re_space c \<longleftrightarrow> byte c \<in> {9, 10, 12, 13, 32}"

definition subject_tags :: "string list" where
  "subject_tags = [''re'', ''fwd'', ''fw'', ''aw'', ''sv'', [CHR 0xC5, CHR 0xBF, CHR ''v''], ''tr'']"

definition colon_next :: "string \<Rightarrow> bool" where
  "colon_next s = (case dropWhile is_re_space s of [] \<Rightarrow> False | c # _ \<Rightarrow> c = CHR '':'')"

definition strip_prefix :: "string \<Rightarrow> string" where
  "strip_prefix s =
     (case find (\<lambda>t. ascii_lower (take (length t) s) = t \<and> colon_next (drop (length t) s)) subject_tags of
        None \<Rightarrow> s
      | Some t \<Rightarrow> dropWhile is_re_space (tl (dropWhile is_re_space (drop (length t) s))))"

lemma length_strip_prefix: "length (strip_prefix s) \<le> length s"
proof (cases "find (\<lambda>t. ascii_lower (take (length t) s) = t \<and> colon_next (drop (length t) s)) subject_tags")
  case (Some t)
  let ?r = "tl (dropWhile is_re_space (drop (length t) s))"
  have "length (dropWhile is_re_space ?r) \<le> length ?r" by (rule length_dropWhile_le)
  also have "\<dots> \<le> length s"
    using length_dropWhile_le[of is_re_space "drop (length t) s"] by simp
  finally show ?thesis by (simp add: strip_prefix_def Some)
qed (simp add: strip_prefix_def)

lemma strip_prefix_shorter: "strip_prefix s \<noteq> s \<Longrightarrow> length (strip_prefix s) < length s"
proof (cases "find (\<lambda>t. ascii_lower (take (length t) s) = t \<and> colon_next (drop (length t) s)) subject_tags")
  case (Some t)
  then have "colon_next (drop (length t) s)" by (auto simp: find_Some_iff)
  then have r: "dropWhile is_re_space (drop (length t) s) \<noteq> []" by (auto simp: colon_next_def simp del: dropWhile_eq_Nil_conv)
  have "length (dropWhile is_re_space (tl (dropWhile is_re_space (drop (length t) s))))
      \<le> length (dropWhile is_re_space (drop (length t) s)) - 1"
    using length_dropWhile_le[of is_re_space "tl (dropWhile is_re_space (drop (length t) s))"] by simp
  also have "\<dots> < length s"
    using r length_dropWhile_le[of is_re_space "drop (length t) s"]
    by (cases "dropWhile is_re_space (drop (length t) s)") simp_all
  finally show ?thesis by (simp add: strip_prefix_def Some)
qed (simp add: strip_prefix_def)

function strip_prefixes :: "string \<Rightarrow> string" where
  "strip_prefixes s = (let n = strip_prefix s in if n = s then s else strip_prefixes n)"
  by pat_completeness auto
termination
  by (relation "measure length") (auto intro: strip_prefix_shorter)

declare strip_prefixes.simps [simp del]

function collapse_space :: "string \<Rightarrow> string" where
  "collapse_space [] = []"
| "collapse_space (c # r) =
     (if is_re_space c then CHR '' '' # collapse_space (dropWhile is_re_space r) else c # collapse_space r)"
  by pat_completeness auto
termination
  by (relation "measure length") (auto simp: le_imp_less_Suc length_dropWhile_le)

definition normalize_subject :: "world \<Rightarrow> string \<Rightarrow> string" where
  "normalize_subject w s = to_lower w (trim_space (collapse_space (strip_prefixes (trim_space s))))"

section \<open>Thread candidates\<close>

text \<open>The loop that keeps the first occurrence of every non-empty candidate.\<close>

fun uniq_from :: "string list \<Rightarrow> string list \<Rightarrow> string list" where
  "uniq_from seen [] = []"
| "uniq_from seen (c # cs) =
     (if c = [] \<or> c \<in> set seen then uniq_from seen cs else c # uniq_from (c # seen) cs)"

definition thread_candidates :: "string \<Rightarrow> string \<Rightarrow> string \<Rightarrow> string list" where
  "thread_candidates message_id in_reply_to references =
     (let refs = extract_ids references; irt = extract_ids in_reply_to
      in uniq_from [] (take 1 refs @ take 1 irt @ refs @ irt @
           (if message_id \<noteq> [] then [trim_cutset ''<> '' message_id] else [])))"

lemma set_uniq_from: "set (uniq_from seen cs) = set cs - set seen - {[]}"
  by (induction seen cs rule: uniq_from.induct) auto

lemma distinct_uniq_from [simp]: "distinct (uniq_from seen cs)"
  by (induction seen cs rule: uniq_from.induct) (auto simp: set_uniq_from)

lemma uniq_from_head: "c \<noteq> [] \<Longrightarrow> c \<notin> set seen \<Longrightarrow> uniq_from seen (c # cs) = c # uniq_from (c # seen) cs"
  by simp

lemma extract_ids_nonempty: "v \<in> set (extract_ids s) \<Longrightarrow> v \<noteq> []"
  by (auto simp: extract_ids_def bare_ids_def Let_def split: if_splits)

lemma extract_ids_Nil [simp]: "extract_ids [] = []"
  by (simp add: extract_ids_def)

lemma set_thread_candidates:
  "set (thread_candidates m irt refs) =
     set (extract_ids refs) \<union> set (extract_ids irt) \<union> (if m = [] then {} else {trim_cutset ''<> '' m} - {[]})"
  using extract_ids_nonempty[of "[]"]
  by (auto simp: thread_candidates_def Let_def set_uniq_from dest: in_set_takeD)

text \<open>The root the indexer gives a new thread: the first reference, else the first In-Reply-To id, else the message itself.\<close>

definition thread_root :: "string \<Rightarrow> string list \<Rightarrow> string \<Rightarrow> string" where
  "thread_root message_id refs in_reply_to =
     (case refs of r # _ \<Rightarrow> r
      | [] \<Rightarrow> (case extract_ids in_reply_to of i # _ \<Rightarrow> i | [] \<Rightarrow> message_id))"

text \<open>the candidates are distinct and non-empty, they are exactly the ids of References, In-Reply-To and the message, and
  the first one is the root a new thread would get: a message and the thread it opens are found under the same id.\<close>

theorem candidates_lead_with_root:
  assumes "m \<noteq> []" and "trim_cutset ''<> '' m = m"
  shows "distinct (thread_candidates m irt refs) \<and>
    set (thread_candidates m irt refs) = insert m (set (extract_ids refs) \<union> set (extract_ids irt)) \<and>
    (\<exists>cs. thread_candidates m irt refs = thread_root m (extract_ids refs) irt # cs)"
proof (intro conjI)
  show "distinct (thread_candidates m irt refs)" by (simp add: thread_candidates_def Let_def)
  show "set (thread_candidates m irt refs) = insert m (set (extract_ids refs) \<union> set (extract_ids irt))"
    using assms by (simp add: set_thread_candidates)
  have ne: "[] \<notin> set (extract_ids s)" for s using extract_ids_nonempty by blast
  show "\<exists>cs. thread_candidates m irt refs = thread_root m (extract_ids refs) irt # cs"
    using assms ne[of refs] ne[of irt]
    by (cases "extract_ids refs"; cases "extract_ids irt")
      (auto simp: thread_candidates_def thread_root_def Let_def uniq_from_head simp del: uniq_from.simps(2))
qed

theorem candidates_lead_with_root_witness:
  "\<exists>cs. thread_candidates ''s@x'' ''<p@y>'' ''<r@z> <p@y>'' = ''r@z'' # cs"
proof -
  have r: "thread_root ''s@x'' (extract_ids ''<r@z> <p@y>'') ''<p@y>'' = ''r@z''" by code_simp
  show ?thesis
    using candidates_lead_with_root[of "''s@x''" "''<p@y>''" "''<r@z> <p@y>''"] unfolding r
    by (simp add: trim_cutset_def)
qed

text \<open>A header that lists ids in angle brackets is read back id by id.\<close>

definition id_ok :: "string \<Rightarrow> bool" where
  "id_ok i \<longleftrightarrow> i \<noteq> [] \<and> CHR ''>'' \<notin> set i \<and> trim_space i = i"

definition id_header :: "string list \<Rightarrow> string" where
  "id_header is = join_with '' '' (map (\<lambda>i. ''<'' @ i @ ''>'') is)"

lemma takeWhile_bracket: "CHR ''>'' \<notin> set i \<Longrightarrow> takeWhile (\<lambda>x. x \<noteq> CHR ''>'') (i @ ''>'' @ r) = i"
  by (induction i) auto

lemma dropWhile_bracket: "CHR ''>'' \<notin> set i \<Longrightarrow> dropWhile (\<lambda>x. x \<noteq> CHR ''>'') (i @ ''>'' @ r) = CHR ''>'' # r"
  by (induction i) auto

lemma angle_matches_bracket: "id_ok i \<Longrightarrow> angle_matches (''<'' @ i @ ''>'' @ r) = i # angle_matches r"
  using takeWhile_bracket[of i r] dropWhile_bracket[of i r] by (simp add: id_ok_def)

lemma angle_matches_space: "angle_matches (CHR '' '' # r) = angle_matches r"
  by simp

lemma angle_matches_more:
  "list_all id_ok is \<Longrightarrow> angle_matches (concat (map (\<lambda>i. CHR '' '' # ''<'' @ i @ ''>'') is)) = is"
proof (induction "is")
  case (Cons i "is")
  let ?r = "concat (map (\<lambda>i. CHR '' '' # ''<'' @ i @ ''>'') is)"
  have "angle_matches (concat (map (\<lambda>i. CHR '' '' # ''<'' @ i @ ''>'') (i # is))) = angle_matches (''<'' @ i @ ''>'' @ ?r)"
    using angle_matches_space[of "''<'' @ i @ ''>'' @ ?r"] by simp
  also have "\<dots> = i # angle_matches ?r" using Cons.prems by (simp add: angle_matches_bracket del: append_Cons append.simps)
  finally show ?case using Cons by simp
qed simp

text \<open>\<open>ExtractIDs\<close> reads a well-formed References header back: ids without \<open>>\<close> and without white space at their ends,
  written in angle brackets and separated by blanks, are returned in order.\<close>

theorem extract_ids_roundtrip:
  assumes "list_all id_ok is"
  shows "extract_ids (id_header is) = is"
proof (cases "is")
  case Nil
  then show ?thesis by (simp add: id_header_def join_with_def)
next
  case (Cons i js)
  then have i: "id_ok i" and js: "list_all id_ok js" using assms by simp_all
  have "angle_matches (id_header is) = is"
    proof -
    have "id_header is = ''<'' @ i @ ''>'' @ concat (map (\<lambda>i. CHR '' '' # ''<'' @ i @ ''>'') js)"
      by (simp add: id_header_def join_with_def Cons comp_def)
    then show ?thesis using angle_matches_bracket[OF i] angle_matches_more[OF js] by (simp add: Cons del: append_Cons)
  qed
  moreover have "map trim_space is = is" using assms by (simp add: list_all_iff id_ok_def map_idI)
  moreover have "filter (\<lambda>v. v \<noteq> []) is = is" using assms by (simp add: list_all_iff id_ok_def filter_id_conv)
  moreover have "id_header is \<noteq> []" by (simp add: id_header_def join_with_def Cons)
  ultimately show ?thesis by (simp add: extract_ids_def Cons)
qed

theorem extract_ids_roundtrip_witness: "extract_ids ''<a@x> <b@y>'' = [''a@x'', ''b@y'']"
proof -
  have "list_all id_ok [''a@x'', ''b@y'']" by code_simp
  from extract_ids_roundtrip[OF this] show ?thesis by (simp add: id_header_def join_with_def)
qed

text \<open>The loop over the subject ends with a subject that has no tag left; lower-casing and trimming come after.\<close>

lemma strip_prefixes_fixed: "strip_prefix (strip_prefixes s) = strip_prefixes s"
proof (induction s rule: strip_prefixes.induct)
  case (1 s)
  then show ?case by (cases "strip_prefix s = s") (simp_all add: strip_prefixes.simps[of s] Let_def)
qed

lemma tag_chars:
  assumes "t \<in> set subject_tags"
  shows "length t = 2 \<or> length t = 3" "CHR '':'' \<notin> set t" "c \<in> set t \<Longrightarrow> lower_char d = c \<Longrightarrow> \<not> is_re_space d \<and> d \<noteq> CHR '':''"
proof -
  have "list_all (\<lambda>t. (length t = 2 \<or> length t = 3) \<and> CHR '':'' \<notin> set t \<and> list_all (\<lambda>c. \<not> is_re_space c) t) subject_tags"
    by code_simp
  then have *: "length t = 2 \<or> length t = 3" "CHR '':'' \<notin> set t" "\<And>c. c \<in> set t \<Longrightarrow> \<not> is_re_space c"
    using assms by (auto simp: list_all_iff)
  then show "length t = 2 \<or> length t = 3" "CHR '':'' \<notin> set t" by auto
  have "lower_char d = d" if "is_re_space d \<or> d = CHR '':''" using that by (auto simp: is_re_space_def lower_char_def)
  then show "\<not> is_re_space d \<and> d \<noteq> CHR '':''" if "c \<in> set t" "lower_char d = c" using that * by metis
qed

lemma tag_found:
  assumes p: "ascii_lower p \<in> set subject_tags" and u: "u \<in> set subject_tags"
    and take: "ascii_lower (take (length u) (p @ '': '' @ s)) = u" and colon: "colon_next (drop (length u) (p @ '': '' @ s))"
  shows "u = ascii_lower p"
proof -
  have len: "length p = 2 \<or> length p = 3" using tag_chars(1)[OF p] by (simp add: ascii_lower_def)
  consider "length u = length p" | "length u = 3" "length p = 2" | "length u = 2" "length p = 3"
    using len tag_chars(1)[OF u] by auto
  then show ?thesis
  proof cases
    case 1
    then show ?thesis using take by simp
  next
    case 2
    then have "take (length u) (p @ '': '' @ s) = p @ '':''" by simp
    then have "lower_char (CHR '':'') \<in> set u" using take by (auto simp: ascii_lower_def)
    moreover have "lower_char (CHR '':'') = CHR '':''" by code_simp
    ultimately show ?thesis using tag_chars(2)[OF u] by simp
  next
    case 3
    then obtain a b c where abc: "p = [a, b, c]" by (auto simp: length_Suc_conv numeral_3_eq_3 numeral_2_eq_2)
    then have "\<not> is_re_space c \<and> c \<noteq> CHR '':''" using tag_chars(3)[OF p, of "lower_char c" c] by (simp add: ascii_lower_def)
    moreover have "drop (length u) (p @ '': '' @ s) = c # '': '' @ s" by (simp add: abc 3)
    ultimately show ?thesis using colon by (simp add: colon_next_def)
  qed
qed

lemma strip_prefix_tagged:
  assumes "ascii_lower p \<in> set subject_tags" and "dropWhile is_re_space s = s"
  shows "strip_prefix (p @ '': '' @ s) = s"
proof -
  have colon: "\<not> is_re_space (CHR '':'')" "is_re_space (CHR '' '')" by code_simp+
  let ?P = "\<lambda>t. ascii_lower (take (length t) (p @ '': '' @ s)) = t \<and> colon_next (drop (length t) (p @ '': '' @ s))"
  have len: "length (ascii_lower p) = length p" by (simp add: ascii_lower_def)
  have "?P (ascii_lower p)" using colon by (simp add: len colon_next_def)
  then obtain u where u: "find ?P subject_tags = Some u"
    using assms(1) by (cases "find ?P subject_tags") (auto simp: find_None_iff)
  then have "?P u" "u \<in> set subject_tags" by (auto simp: find_Some_iff)
  then have "u = ascii_lower p" using tag_found[OF assms(1)] by blast
  then show ?thesis using u assms(2) colon by (simp add: strip_prefix_def len)
qed

text \<open>Trimming leaves a tagged subject alone.\<close>

lemma trim_space_edges: "trim_space s = s \<longleftrightarrow> trim_left s = s \<and> trim_right s = s"
proof
  assume t: "trim_space s = s"
  obtain p where p: "trim_left s = trim_right (trim_left s) @ p" using trim_right_prefix by blast
  obtain q where q: "s = q @ trim_left s" using strip_suffix[of s ws_runes] by (auto simp: trim_left_def)
  have "length s \<le> length (trim_left s)" using p t unfolding trim_space_def by (metis le_add1 length_append)
  then have "q = []" using arg_cong[OF q, of length] by simp
  then have "trim_left s = s" using q by simp
  with t show "trim_left s = s \<and> trim_right s = s" by (simp add: trim_space_def)
qed (simp add: trim_space_def)

lemma strip_fixed: "[] \<notin> set ws \<Longrightarrow> strip ws s = s \<longleftrightarrow> (\<forall>w \<in> set ws. \<not> starts_with s w)"
proof -
  assume ne: "[] \<notin> set ws"
  have nil: "\<forall>w \<in> set ws. \<not> starts_with [] w" using ne by (auto simp: starts_with_def)
  show ?thesis
  proof
    assume "strip ws s = s"
    then have "s = [] \<or> match_len ws s = 0" using strip_stuck[of ws s] by simp
    then show "\<forall>w \<in> set ws. \<not> starts_with s w" using match_len_pos_iff[OF ne, of s] nil by auto
  next
    assume "\<forall>w \<in> set ws. \<not> starts_with s w"
    then have "match_len ws s = 0" using match_len_pos_iff[OF ne, of s] by auto
    then show "strip ws s = s" by (simp add: strip_done)
  qed
qed

lemma trim_left_fixed: "trim_left s = s \<longleftrightarrow> (\<forall>w \<in> set ws_runes. \<not> starts_with s w)"
  by (simp add: trim_left_def strip_fixed ws_runes_nonempty)

lemma trim_right_fixed: "trim_right s = s \<longleftrightarrow> (\<forall>w \<in> set ws_runes. \<not> starts_with (rev s) (rev w))"
  using strip_fixed[of "map rev ws_runes" "rev s"] ws_runes_nonempty
  by (auto simp: trim_right_def rev_swap)

lemma tagged_trimmed:
  assumes p: "ascii_lower p \<in> set subject_tags" and s: "trim_space s = s" "s \<noteq> []"
  shows "trim_space (p @ '': '' @ s) = p @ '': '' @ s"
proof -
  have ws: "list_all (\<lambda>w. w \<noteq> [] \<and> lower_char (hd w) = hd w \<and> (length w = 1 \<or> CHR '' '' \<notin> set w) \<and>
      list_all (\<lambda>t. hd t \<noteq> hd w) subject_tags) ws_runes" by code_simp
  have "p \<noteq> []" using tag_chars(1)[OF p] by (auto simp: ascii_lower_def)
  then have hd: "lower_char (hd p) = hd (ascii_lower p)" by (simp add: ascii_lower_def hd_map)
  have "\<not> starts_with (p @ '': '' @ s) w" if "w \<in> set ws_runes" for w
  proof
    assume "starts_with (p @ '': '' @ s) w"
    moreover have w: "w \<noteq> []" "lower_char (hd w) = hd w" "hd (ascii_lower p) \<noteq> hd w"
      using ws that p by (auto simp: list_all_iff)
    ultimately have "hd p = hd w" using \<open>p \<noteq> []\<close> by (cases p; cases w) (auto simp: starts_with_def)
    then show False using w hd by simp
  qed
  then have left: "trim_left (p @ '': '' @ s) = p @ '': '' @ s" by (simp add: trim_left_fixed)
  have right: "\<not> starts_with (rev s @ '' :'' @ rev p) (rev w)" if w: "w \<in> set ws_runes" for w
  proof
    assume st: "starts_with (rev s @ '' :'' @ rev p) (rev w)"
    have "\<not> starts_with (rev s) (rev w)" using s w trim_space_edges[of s] by (simp add: trim_right_fixed)
    then have len: "length s < length w"
      using st by (rule_tac ccontr) (simp add: starts_with_def)
    then have "rev w ! length s = CHR '' ''"
      using st nth_take[of "length s" "length w" "rev s @ '' :'' @ rev p"] by (simp add: starts_with_def nth_append)
    then have "CHR '' '' \<in> set w" using len by (metis length_rev nth_mem set_rev)
    moreover have "1 < length w" using len s(2) by (cases s) auto
    ultimately show False using ws w by (auto simp: list_all_iff)
  qed
  then have "trim_right (p @ '': '' @ s) = p @ '': '' @ s" by (simp add: trim_right_fixed)
  with left show ?thesis by (simp add: trim_space_edges)
qed

text \<open>a reply has the normalized subject of what it answers: a reply or forward tag in any letter case, with its colon, in
  front of a trimmed non-empty subject changes nothing.\<close>

theorem reply_subject_same:
  assumes "ascii_lower p \<in> set subject_tags" and "trim_space s = s" and "s \<noteq> []"
  shows "normalize_subject w (p @ '': '' @ s) = normalize_subject w s"
proof -
  have sp: "list_all (\<lambda>c. [c] \<in> set ws_runes) (map char_of [9, 10, 12, 13, 32 :: nat])" by code_simp
  have "\<not> is_re_space (hd s)"
  proof
    assume "is_re_space (hd s)"
    then have "hd s = char_of (byte (hd s)) \<and> byte (hd s) \<in> set [9, 10, 12, 13, 32]" by (auto simp: is_re_space_def)
    then have "\<exists>n \<in> set [9, 10, 12, 13, 32 :: nat]. hd s = char_of n" by blast
    then have "[hd s] \<in> set ws_runes" using sp by (auto simp: list_all_iff)
    moreover have "starts_with s [hd s]" using assms(3) by (cases s) (auto simp: starts_with_def)
    ultimately show False using assms(2) by (auto simp: trim_space_edges trim_left_fixed)
  qed
  then have "dropWhile is_re_space s = s" using assms(3) by (cases s) auto
  from strip_prefix_tagged[OF assms(1) this] have "strip_prefix (p @ '': '' @ s) = s" .
  moreover have "s \<noteq> p @ '': '' @ s" by (metis append_assoc append_is_Nil_conv append_self_conv2 list.distinct(1))
  ultimately have tags: "strip_prefixes (p @ '': '' @ s) = strip_prefixes s" by (subst strip_prefixes.simps) (simp add: Let_def)
  show ?thesis unfolding normalize_subject_def tagged_trimmed[OF assms] tags assms(2) ..
qed

theorem reply_subject_same_witness:
  "normalize_subject demo_world ''FWD: Hello'' = normalize_subject demo_world ''Hello''"
proof -
  have "ascii_lower ''FWD'' \<in> set subject_tags" "trim_space ''Hello'' = ''Hello''" by code_simp+
  from reply_subject_same[OF this] show ?thesis by simp
qed

end
