(* ===== verification/MailParse.thy ===== *)
theory MailParse
  imports StoreMail Threading
begin

text \<open>
  \<open>internal/cas/store.go\<close> and \<open>internal/parse/message.go\<close>: the content-addressed attachment store, and the
  decomposition of a raw message.

  The MIME reader (go-message), \<open>net/mail\<close>'s address parser and SHA-256 are the parameters in \<open>mail_lib\<close>; the digest is
  its hexadecimal text. The attachment store is the map from relative paths to contents and a list of pending faults, one
  per system call; its temporary files are removed or renamed on every path and are not part of the state.
\<close>

section \<open>Content-addressed storage\<close>

record cas =
  cs_files :: "(string \<times> string) list"
  cs_faults :: "string option list"

text \<open>One system call: it fails with the next pending fault.\<close>

definition syscall :: "cas \<Rightarrow> err option \<times> cas" where
  "syscall c = (case cs_faults c of [] \<Rightarrow> (None, c) | f # fs \<Rightarrow> (map_option ErrDriver f, c\<lparr>cs_faults := fs\<rparr>))"

definition cas_step :: "string \<Rightarrow> (cas \<Rightarrow> (err + 'a) \<times> cas) \<Rightarrow> cas \<Rightarrow> (err + 'a) \<times> cas" where
  "cas_step what k c = (case syscall c of
     (Some e, c') \<Rightarrow> (Inl (ErrWrap (''cas: '' @ what @ '': '') e []), c')
   | (None, c') \<Rightarrow> k c')"

definition rel_path :: "string \<Rightarrow> string" where
  "rel_path digest = take 2 digest @ ''/'' @ take 2 (drop 2 digest) @ ''/'' @ digest"

definition stored :: "cas \<Rightarrow> string \<Rightarrow> string option" where
  "stored c p = map_of (cs_files c) p"

text \<open>\<open>Put\<close>: create and fill the temporary file, close it, look for the destination, create its directory, rename.\<close>

definition cas_put :: "(string \<Rightarrow> string) \<Rightarrow> err + string \<Rightarrow> cas \<Rightarrow> (err + string \<times> string \<times> int) \<times> cas" where
  "cas_put sha body =
     cas_step ''create temp'' (cas_step ''copy'' (\<lambda>c. case body of
         Inl e \<Rightarrow> (Inl (ErrWrap ''cas: copy: '' e []), c)
       | Inr data \<Rightarrow>
           cas_step ''close temp'' (cas_step ''stat dest'' (\<lambda>c.
             let digest = sha data; rel = rel_path digest; out = Inr (digest, rel, int (length data)) in
             if stored c rel \<noteq> None then (out, c)
             else cas_step ''mkdir'' (cas_step ''rename'' (\<lambda>c. (out, c\<lparr>cs_files := (rel, data) # cs_files c\<rparr>))) c)) c))"

definition cas_ok :: "(string \<Rightarrow> string) \<Rightarrow> cas \<Rightarrow> bool" where
  "cas_ok sha c \<longleftrightarrow> list_all (\<lambda>(p, data). p = rel_path (sha data)) (cs_files c)"

text \<open>Files are only added, and never replaced.\<close>

definition cas_grows :: "cas \<Rightarrow> cas \<Rightarrow> bool" where
  "cas_grows c c' \<longleftrightarrow> stored c \<subseteq>\<^sub>m stored c'"

lemma cas_grows_refl [simp]: "cas_grows c c"
  by (simp add: cas_grows_def)

lemma cas_grows_trans: "cas_grows c c' \<Longrightarrow> cas_grows c' c'' \<Longrightarrow> cas_grows c c''"
  by (auto simp: cas_grows_def intro: map_le_trans)

lemma syscall_files: "syscall c = (e, c') \<Longrightarrow> cs_files c' = cs_files c"
  by (auto simp: syscall_def split: list.splits)

lemma cas_step_elim:
  assumes "cas_step what k c = (r, c')"
  obtains e where "r = Inl e" "cs_files c' = cs_files c" | c1 where "cs_files c1 = cs_files c" "k c1 = (r, c')"
  using assms by (auto simp: cas_step_def split: prod.splits option.splits dest!: syscall_files)

lemma cas_put_files:
  assumes "cas_put sha body c = (r, c')"
  obtains "cs_files c' = cs_files c" "\<And>x. r = Inr x \<Longrightarrow> \<exists>data. body = Inr data \<and> x = (sha data, rel_path (sha data), int (length data)) \<and> stored c (rel_path (sha data)) \<noteq> None"
    | data where "body = Inr data" "r = Inr (sha data, rel_path (sha data), int (length data))"
      "stored c (rel_path (sha data)) = None" "cs_files c' = (rel_path (sha data), data) # cs_files c"
  using assms unfolding cas_put_def
  by (elim cas_step_elim)
    (auto simp: Let_def stored_def split: sum.splits if_splits elim!: cas_step_elim)

text \<open>C37: the attachment store is content-addressed, whatever fails: \<open>Put\<close> keeps every file where its digest says, replaces none,
  and when it succeeds the path it returns holds content with the digest it returns.\<close>

theorem cas_put_addresses:
  assumes ok: "cas_ok sha c" and put: "cas_put sha body c = (r, c')"
  shows "cas_ok sha c' \<and> cas_grows c c' \<and>
    (case r of Inl e \<Rightarrow> cs_files c' = cs_files c
     | Inr (digest, rel, n) \<Rightarrow> rel = rel_path digest \<and> (\<exists>data data'. body = Inr data \<and> digest = sha data \<and> n = int (length data) \<and>
         stored c' rel = Some data' \<and> rel_path (sha data') = rel_path digest))"
  using put
proof (cases rule: cas_put_files)
  case 1
  have addressed: "rel_path (sha d) = p" if "stored c' p = Some d" for p d
    using that ok 1(1) by (auto simp: cas_ok_def stored_def list_all_iff dest!: map_of_SomeD)
  have st: "stored c' = stored c" by (simp add: stored_def 1(1) fun_eq_iff)
  then have "cas_ok sha c'" "cas_grows c c'" using ok 1(1) by (simp_all add: cas_ok_def cas_grows_def)
  moreover note st
  ultimately show ?thesis using 1 addressed by (cases r) (fastforce split: prod.split)+
next
  case (2 data)
  have st: "stored c' p = (if p = rel_path (sha data) then Some data else stored c p)" for p by (simp add: stored_def 2(4))
  have "cas_ok sha c'" using ok 2(4) by (simp add: cas_ok_def)
  moreover have "cas_grows c c'" unfolding cas_grows_def map_le_def using 2(3) by (auto simp: st)
  ultimately show ?thesis using 2 st by auto
qed

theorem cas_put_addresses_witness:
  "stored (snd (cas_put (\<lambda>s. ''abcdef'') (Inr ''x'') \<lparr> cs_files = [], cs_faults = [] \<rparr>)) ''ab/cd/abcdef'' = Some ''x'' \<and>
   cas_ok (\<lambda>s. ''abcdef'') (snd (cas_put (\<lambda>s. ''abcdef'') (Inr ''x'') \<lparr> cs_files = [], cs_faults = [] \<rparr>))"
proof -
  let ?c = "\<lparr> cs_files = [], cs_faults = [] \<rparr>" and ?sha = "\<lambda>s :: string. ''abcdef''"
  have ok: "cas_ok ?sha ?c" by (simp add: cas_ok_def)
  have "stored (snd (cas_put ?sha (Inr ''x'') ?c)) ''ab/cd/abcdef'' = Some ''x''" by code_simp
  with cas_put_addresses[OF ok prod.collapse[symmetric], of "Inr ''x''"] show ?thesis by blast
qed

section \<open>Parsing a message\<close>

text \<open>An entry of an address list, with the nil pointer \<open>toAddress\<close> allows for as \<open>None\<close>; the parts of a message, each with what
  reading its body gives. A list of parts ends with the error \<open>mr_end\<close>, or at the end of the message.\<close>

type_synonym mail_address = "(string \<times> string) option"

datatype part =
    InlinePart string "err + string"
  | AttachmentPart string string "err + string"
  | OtherPart

record mail_reader =
  mr_message_id :: string
  mr_get :: "string \<Rightarrow> string"
  mr_subject :: "err + string"
  mr_date :: "err + gotime"
  mr_addresses :: "string \<Rightarrow> err + mail_address list"
  mr_parts :: "part list"
  mr_end :: "err option"

record mail_lib =
  ml_open :: "string \<Rightarrow> err + mail_reader"
  ml_parse_address :: "string \<Rightarrow> err + mail_address"
  ml_sha :: "string \<Rightarrow> string"

record parsed =
  p_message_id :: string
  p_in_reply_to :: string
  p_references :: string
  p_refs :: "string list"
  p_from :: address
  p_to :: "address list"
  p_cc :: "address list"
  p_bcc :: "address list"
  p_subject :: string
  p_date :: gotime
  p_body_text :: string
  p_body_html :: string
  p_attachments :: "attachment list"

definition no_address :: address where
  "no_address = \<lparr> a_name = [], a_email = [] \<rparr>"

definition to_address :: "world \<Rightarrow> mail_address \<Rightarrow> address" where
  "to_address w a = (case a of None \<Rightarrow> no_address | Some (name, email) \<Rightarrow> \<lparr> a_name = name, a_email = to_lower w email \<rparr>)"

definition to_addresses :: "world \<Rightarrow> mail_reader \<Rightarrow> string \<Rightarrow> address list" where
  "to_addresses w h field = (case mr_addresses h field of Inl e \<Rightarrow> [] | Inr as \<Rightarrow> map (to_address w) as)"

definition parse_addr_fallback :: "world \<Rightarrow> mail_lib \<Rightarrow> string \<Rightarrow> address" where
  "parse_addr_fallback w lib raw =
     (let s = trim_space raw in
      if s = [] then no_address
      else (case ml_parse_address lib s of
          Inl e \<Rightarrow> \<lparr> a_name = [], a_email = to_lower w s \<rparr>
        | Inr a \<Rightarrow> to_address w a))"

definition synthetic_message_id :: "mail_lib \<Rightarrow> string \<Rightarrow> string" where
  "synthetic_message_id lib raw = ''synthetic.'' @ take 32 (ml_sha lib raw) @ ''@mail-indexer.local''"

text \<open>The loop over the parts. Without an attachment store (\<open>None\<close>) attachments are skipped.\<close>

fun read_parts :: "world \<Rightarrow> mail_lib \<Rightarrow> err option \<Rightarrow> part list \<Rightarrow> parsed \<Rightarrow> cas option \<Rightarrow> (err + parsed) \<times> cas option" where
  "read_parts w lib fin [] p c =
     (case fin of None \<Rightarrow> (Inr p, c) | Some e \<Rightarrow> (Inl (ErrWrap ''read part: '' e []), c))"
| "read_parts w lib fin (InlinePart ct body # ps) p c =
     (case body of
        Inl e \<Rightarrow> (Inl (ErrWrap ''read inline body: '' e []), c)
      | Inr b \<Rightarrow>
          read_parts w lib fin ps
            (if to_lower w ct = ''text/html'' then (if p_body_html p = [] then p\<lparr>p_body_html := b\<rparr> else p)
             else (if p_body_text p = [] then p\<lparr>p_body_text := b\<rparr> else p)) c)"
| "read_parts w lib fin (AttachmentPart filename ct body # ps) p c =
     (case c of
        None \<Rightarrow> read_parts w lib fin ps p c
      | Some cs \<Rightarrow>
          (case cas_put (ml_sha lib) body cs of
             (Inl e, cs') \<Rightarrow> (Inl (ErrWrap ''store attachment: '' e []), Some cs')
           | (Inr (digest, rel, n), cs') \<Rightarrow>
               read_parts w lib fin ps
                 (p\<lparr>p_attachments := p_attachments p @ [\<lparr> an_id = 0, an_filename = filename, an_mime = ct, an_size = n,
                    an_sha = digest, an_path = rel \<rparr>]\<rparr>) (Some cs')))"
| "read_parts w lib fin (OtherPart # ps) p c = read_parts w lib fin ps p c"

definition header_fields :: "world \<Rightarrow> mail_lib \<Rightarrow> gotime \<Rightarrow> mail_reader \<Rightarrow> parsed" where
  "header_fields w lib clock h =
     (let refs = trim_space (mr_get h ''References'') in
      \<lparr> p_message_id = mr_message_id h, p_in_reply_to = trim_space (mr_get h ''In-Reply-To''), p_references = refs,
        p_refs = extract_ids refs,
        p_from = (case mr_addresses h ''From'' of Inr (a # _) \<Rightarrow> to_address w a | _ \<Rightarrow> parse_addr_fallback w lib (mr_get h ''From'')),
        p_to = to_addresses w h ''To'', p_cc = to_addresses w h ''Cc'', p_bcc = to_addresses w h ''Bcc'',
        p_subject = (case mr_subject h of Inl _ \<Rightarrow> [] | Inr x \<Rightarrow> x), p_date = (case mr_date h of Inl _ \<Rightarrow> clock | Inr d \<Rightarrow> d),
        p_body_text = [], p_body_html = [], p_attachments = [] \<rparr>)"

definition parse_rfc822 :: "world \<Rightarrow> mail_lib \<Rightarrow> gotime \<Rightarrow> string \<Rightarrow> cas option \<Rightarrow> (err + parsed) \<times> cas option" where
  "parse_rfc822 w lib clock raw c =
     (case ml_open lib raw of
        Inl e \<Rightarrow> (Inl (ErrWrap ''create mail reader: '' e []), c)
      | Inr h \<Rightarrow>
          (case read_parts w lib (mr_end h) (mr_parts h) (header_fields w lib clock h) c of
             (Inl e, c') \<Rightarrow> (Inl e, c')
           | (Inr p, c') \<Rightarrow>
               (Inr (if p_message_id p = [] then p\<lparr>p_message_id := synthetic_message_id lib raw\<rparr> else p), c')))"

section \<open>Attachments are where the message says\<close>

definition attachment_at :: "cas \<Rightarrow> attachment \<Rightarrow> bool" where
  "attachment_at c a \<longleftrightarrow> an_path a = rel_path (an_sha a) \<and> stored c (an_path a) \<noteq> None"

lemma attachment_at_grows: "cas_grows c c' \<Longrightarrow> attachment_at c a \<Longrightarrow> attachment_at c' a"
  by (auto simp: attachment_at_def cas_grows_def map_le_def dom_def)

lemma cas_put_result:
  assumes "cas_put sha body c = (r, c')" and "cas_ok sha c"
  shows "cas_ok sha c'" "cas_grows c c'" "r = Inr (digest, rel, n) \<Longrightarrow> rel = rel_path digest \<and> stored c' rel \<noteq> None"
proof -
  have "cas_ok sha c' \<and> cas_grows c c' \<and> (r = Inr (digest, rel, n) \<longrightarrow> rel = rel_path digest \<and> stored c' rel \<noteq> None)"
    using assms(1)
  proof (cases rule: cas_put_files)
    case 1
    have "stored c' = stored c" using 1(1) by (simp add: stored_def fun_eq_iff)
    then show ?thesis using assms(2) 1(1) 1(2)[of "(digest, rel, n)"] by (auto simp: cas_ok_def cas_grows_def)
  next
    case (2 data)
    then show ?thesis using assms(2) by (auto simp: cas_ok_def cas_grows_def stored_def map_le_def)
  qed
  then show "cas_ok sha c'" "cas_grows c c'" "r = Inr (digest, rel, n) \<Longrightarrow> rel = rel_path digest \<and> stored c' rel \<noteq> None" by auto
qed

text \<open>What \<open>read_parts\<close> guarantees, as one predicate.\<close>

definition parts_stored :: "(string \<Rightarrow> string) \<Rightarrow> cas \<Rightarrow> (err + parsed) \<times> cas option \<Rightarrow> bool" where
  "parts_stored sha c out \<longleftrightarrow> (case out of (r, c') \<Rightarrow> \<exists>c1. c' = Some c1 \<and> cas_ok sha c1 \<and> cas_grows c c1 \<and>
     (\<forall>x. r = Inr x \<longrightarrow> list_all (attachment_at c1) (p_attachments x)))"

lemma parts_stored_grows: "cas_grows c c1 \<Longrightarrow> parts_stored sha c1 out \<Longrightarrow> parts_stored sha c out"
  by (cases out) (auto simp: parts_stored_def intro: cas_grows_trans)

lemma read_parts_stored:
  "cas_ok (ml_sha lib) c \<Longrightarrow> list_all (attachment_at c) (p_attachments p) \<Longrightarrow>
   parts_stored (ml_sha lib) c (read_parts w lib fin ps p (Some c))"
proof (induction ps arbitrary: p c)
  case Nil
  then show ?case by (simp add: parts_stored_def split: option.split)
next
  case (Cons part ps)
  note rest = Cons.IH[OF Cons.prems(1)]
  show ?case
  proof (cases part)
    case (InlinePart ct body)
    then show ?thesis using Cons.prems rest by (cases body) (simp_all add: parts_stored_def)
  next
    case (AttachmentPart filename ct body)
    obtain x c1 where put: "cas_put (ml_sha lib) body c = (x, c1)" by fastforce
    note res = cas_put_result[OF put Cons.prems(1)]
    show ?thesis
    proof (cases x)
      case (Inl e)
      then show ?thesis using put res AttachmentPart by (simp add: parts_stored_def)
    next
      case (Inr y)
      obtain d rel n where y: "y = (d, rel, n)" by (cases y)
      let ?p = "p\<lparr>p_attachments := p_attachments p @ [\<lparr> an_id = 0, an_filename = filename, an_mime = ct, an_size = n,
                      an_sha = d, an_path = rel \<rparr>]\<rparr>"
      have "list_all (attachment_at c1) (p_attachments p)"
        using Cons.prems(2) attachment_at_grows[OF res(2)] by (auto simp: list_all_iff)
      then have "list_all (attachment_at c1) (p_attachments ?p)"
        using res(3)[OF Inr[unfolded y]] by (auto simp: attachment_at_def)
      from Cons.IH[OF res(1) this] have "parts_stored (ml_sha lib) c (read_parts w lib fin ps ?p (Some c1))"
        by (rule parts_stored_grows[OF res(2)])
      then show ?thesis using put AttachmentPart Inr y by simp
    qed
  next
    case OtherPart
    then show ?thesis using Cons.prems rest by simp
  qed
qed

text \<open>parsing stores before it reports: whatever happens, the attachment store stays content-addressed and loses nothing, and
  every attachment of a parsed message is in it, under the path and digest the message records. A parsed message always has
  a Message-ID.\<close>

theorem parse_stores_attachments:
  assumes "parse_rfc822 w lib clock raw (Some c) = (r, c')" and "cas_ok (ml_sha lib) c"
  shows "\<exists>c1. c' = Some c1 \<and> cas_ok (ml_sha lib) c1 \<and> cas_grows c c1 \<and>
    (case r of Inl e \<Rightarrow> True | Inr p \<Rightarrow> p_message_id p \<noteq> [] \<and> list_all (attachment_at c1) (p_attachments p))"
proof (cases "ml_open lib raw")
  case (Inl e)
  then show ?thesis using assms by (auto simp: parse_rfc822_def)
next
  case (Inr h)
  obtain r1 c2 where run: "read_parts w lib (mr_end h) (mr_parts h) (header_fields w lib clock h) (Some c) = (r1, c2)" by fastforce
  have "list_all (attachment_at c) (p_attachments (header_fields w lib clock h))" by (simp add: header_fields_def Let_def)
  from read_parts_stored[OF assms(2) this, of w "mr_end h" "mr_parts h"]
  obtain c1 where c1: "c2 = Some c1" "cas_ok (ml_sha lib) c1" "cas_grows c c1"
    "\<And>x. r1 = Inr x \<Longrightarrow> list_all (attachment_at c1) (p_attachments x)" by (auto simp: parts_stored_def run)
  show ?thesis
  proof (cases r1)
    case (Inl e)
    then have "r = Inl e" "c' = c2" using assms(1) run \<open>ml_open lib raw = Inr h\<close> by (auto simp: parse_rfc822_def)
    then show ?thesis using c1 by simp
  next
    case (Inr p)
    then have "r = Inr (if p_message_id p = [] then p\<lparr>p_message_id := synthetic_message_id lib raw\<rparr> else p)" "c' = c2"
      using assms(1) run \<open>ml_open lib raw = Inr h\<close> by (auto simp: parse_rfc822_def)
    then show ?thesis using c1 Inr by (simp add: synthetic_message_id_def)
  qed
qed

section \<open>Examples\<close>

text \<open>A mail library for one message, with an attachment.\<close>

definition demo_reader :: mail_reader where
  "demo_reader = \<lparr> mr_message_id = ''m@x'', mr_get = (\<lambda>k. if k = ''References'' then ''<r@x>'' else []),
     mr_subject = Inr ''Re: Hi'', mr_date = Inr 6000000000,
     mr_addresses = (\<lambda>k. if k = ''From'' then Inr [Some (''Bob'', ''Bob@x'')] else Inl (ErrNew ''none'')),
     mr_parts = [InlinePart ''text/plain'' (Inr ''yes''), AttachmentPart ''a.txt'' ''text/plain'' (Inr ''data'')], mr_end = None \<rparr>"

definition demo_lib :: mail_lib where
  "demo_lib = \<lparr> ml_open = (\<lambda>raw. Inr demo_reader), ml_parse_address = (\<lambda>s. Inl (ErrNew ''bad'')), ml_sha = (\<lambda>s. ''abcd'' @ s) \<rparr>"

definition empty_cas :: cas where
  "empty_cas = \<lparr> cs_files = [], cs_faults = [] \<rparr>"

theorem parse_stores_attachments_witness:
  "\<exists>c1. snd (parse_rfc822 demo_world demo_lib 0 ''raw'' (Some empty_cas)) = Some c1 \<and> cas_ok (ml_sha demo_lib) c1 \<and>
     cs_files c1 = [(''ab/cd/abcddata'', ''data'')]"
proof -
  have "cas_ok (ml_sha demo_lib) empty_cas" by (simp add: cas_ok_def empty_cas_def)
  from parse_stores_attachments[OF prod.collapse[symmetric] this, of demo_world 0 "''raw''"]
  obtain c1 where "snd (parse_rfc822 demo_world demo_lib 0 ''raw'' (Some empty_cas)) = Some c1" "cas_ok (ml_sha demo_lib) c1" by blast
  moreover have "map_option cs_files (snd (parse_rfc822 demo_world demo_lib 0 ''raw'' (Some empty_cas))) = Some [(''ab/cd/abcddata'', ''data'')]"
    by code_simp
  ultimately show ?thesis by auto
qed

end
