(* ===== verification/Mailbox.thy ===== *)
theory Mailbox
  imports MailParse
begin

text \<open>
  \<open>internal/grantee/resolver.go\<close> and \<open>internal/mailbox/indexer.go\<close>: who a message is attributed to, indexing one message,
  one sync of a folder, the IDLE loop and its reconnection.

  The IMAP server is the parameter \<open>fetch\<close>: the items it returns for the range of UIDs that starts at its argument, and how
  the command ends. UIDs are 32-bit words, so \<open>lastUID + 1\<close> wraps to 0. The state is the database with the attachment store.
\<close>

section \<open>Attribution\<close>

record resolution =
  rs_grantee :: "string option"
  rs_sender :: bool
  rs_thread :: bool

definition unresolved :: resolution where
  "unresolved = \<lparr> rs_grantee = None, rs_sender = False, rs_thread = False \<rparr>"

definition resolve :: "world \<Rightarrow> string \<Rightarrow> int \<Rightarrow> resolution dbm" where
  "resolve w from tid =
     bindE (if from \<noteq> [] then lookup_grantee_by_email w from else ret ([], False)) (\<lambda>(g, ok).
       if ok then ret \<lparr> rs_grantee = Some g, rs_sender = True, rs_thread = False \<rparr>
       else if tid \<noteq> 0 then
         bindE (get_thread tid) (\<lambda>t. case tr_grantee t of
             Some g \<Rightarrow> ret \<lparr> rs_grantee = Some g, rs_sender = False, rs_thread = True \<rparr>
           | None \<Rightarrow> ret unresolved)
       else ret unresolved)"

definition promote_thread :: "int \<Rightarrow> string \<Rightarrow> unit dbm" where
  "promote_thread tid gid = set_thread_grantee tid gid"

section \<open>One message\<close>

definition wrapped :: "string \<Rightarrow> 'a dbm \<Rightarrow> 'a dbm" where
  "wrapped what m = wrapE (\<lambda>e. ErrWrap (what @ '': '') e []) m"

text \<open>The thread of a message: found, or created, or created by somebody else in between.\<close>

definition ensure_thread :: "world \<Rightarrow> parsed \<Rightarrow> int dbm" where
  "ensure_thread w p =
     bindE (wrapped ''thread lookup'' (find_thread_by_refs w
         (thread_candidates (p_message_id p) (p_in_reply_to p) (p_references p)))) (\<lambda>tid.
       if tid \<noteq> 0 then ret tid
       else let root = thread_root (p_message_id p) (p_refs p) (p_in_reply_to p) in
         tryE (create_thread root (normalize_subject w (p_subject p)) None (p_date p)) (\<lambda>r. case r of
           Inr i \<Rightarrow> ret i
         | Inl e \<Rightarrow>
             if is_unique_violation e
             then tryE (find_thread_by_refs w [root]) (\<lambda>r2. case r2 of
                 Inl e2 \<Rightarrow> fail (ErrWrap ''thread create race: '' e2 [])
               | Inr i \<Rightarrow> if i = 0 then fail (ErrNew ''thread create race: %!w(<nil>)'') else ret i)
             else fail (ErrWrap ''create thread: '' e [])))"

definition message_of :: "string \<Rightarrow> 32 word \<Rightarrow> 32 word \<Rightarrow> int \<Rightarrow> parsed \<Rightarrow> int \<Rightarrow> resolution \<Rightarrow> message" where
  "message_of folder uid validity sz p tid res = \<lparr> m_id = 0, m_message_id = p_message_id p, m_thread = tid, m_grantee = rs_grantee res,
     m_folder = folder, m_uid = uid, m_uid_validity = validity, m_in_reply_to = p_in_reply_to p, m_references = p_refs p,
     m_from = p_from p, m_to = p_to p, m_cc = p_cc p, m_bcc = p_bcc p, m_subject = p_subject p, m_date = p_date p,
     m_body_text = p_body_text p, m_body_html = p_body_html p, m_size = sz, m_attachments = p_attachments p \<rparr>"

definition index_parsed :: "world \<Rightarrow> int \<Rightarrow> string \<Rightarrow> 32 word \<Rightarrow> 32 word \<Rightarrow> int \<Rightarrow> parsed \<Rightarrow> unit dbm" where
  "index_parsed w now folder uid validity sz p =
     bindE (ensure_thread w p) (\<lambda>tid.
     bindE (wrapped ''resolve grantee'' (resolve w (a_email (p_from p)) tid)) (\<lambda>res.
     bindE (wrapped ''insert'' (insert_message w now (message_of folder uid validity sz p tid res))) (\<lambda>_.
     bindE (case rs_grantee res of
         Some g \<Rightarrow> if rs_sender res then wrapped ''promote thread'' (promote_thread tid g) else ret ()
       | None \<Rightarrow> ret ()) (\<lambda>_.
     wrapped ''touch thread'' (touch_thread tid (p_date p))))))"

text \<open>A fetched message: its UID, the Message-ID of its envelope if it has one, the raw body and its size.\<close>

record buffer =
  bf_uid :: "32 word"
  bf_message_id :: "string option"
  bf_raw :: string
  bf_size :: int

type_synonym mail_state = "db \<times> cas option"

definition known_already :: "buffer \<Rightarrow> bool dbm" where
  "known_already b =
     (case bf_message_id b of
        None \<Rightarrow> ret False
      | Some mid \<Rightarrow> if mid \<noteq> [] then message_exists_by_id mid else ret False)"

definition handle_message ::
  "world \<Rightarrow> mail_lib \<Rightarrow> int \<Rightarrow> gotime \<Rightarrow> string \<Rightarrow> 32 word \<Rightarrow> buffer \<Rightarrow> mail_state \<Rightarrow> (err + unit) \<times> mail_state" where
  "handle_message w lib now clock folder validity b st =
     (if bf_raw b = [] then (Inl (ErrNew ''empty body section''), st)
      else (case known_already b (fst st) of
          (Inl e, s) \<Rightarrow> (Inl e, s, snd st)
        | (Inr True, s) \<Rightarrow> (Inr (), s, snd st)
        | (Inr False, s) \<Rightarrow>
            (case parse_rfc822 w lib clock (bf_raw b) (snd st) of
               (Inl e, c) \<Rightarrow> (Inl (ErrWrap ''parse: '' e []), s, c)
             | (Inr p, c) \<Rightarrow>
                 (case index_parsed w now folder (bf_uid b) validity (bf_size b) p s of (r, s') \<Rightarrow> (r, s', c)))))"

section \<open>One sync\<close>

datatype fetched = Collected buffer | Broken err

text \<open>The loop over the fetched messages: the highest UID indexed so far and their number.\<close>

fun sync_loop ::
  "(buffer \<Rightarrow> mail_state \<Rightarrow> (err + unit) \<times> mail_state) \<Rightarrow> fetched list \<Rightarrow> 32 word \<times> nat \<Rightarrow> mail_state \<Rightarrow>
   (err + 32 word \<times> nat) \<times> mail_state" where
  "sync_loop h [] acc st = (Inr acc, st)"
| "sync_loop h (Broken e # items) acc st = (Inl (ErrWrap ''collect message: '' e []), st)"
| "sync_loop h (Collected b # items) acc st =
     (if bf_uid b = 0 then sync_loop h items acc st
      else (case h b st of
          (Inl e, st') \<Rightarrow> sync_loop h items acc st'
        | (Inr _, st') \<Rightarrow> sync_loop h items (if bf_uid b > fst acc then bf_uid b else fst acc, snd acc + 1) st'))"

definition resume_after :: "mailbox_state option \<Rightarrow> 32 word \<Rightarrow> 32 word" where
  "resume_after st validity =
     (case st of None \<Rightarrow> 0 | Some x \<Rightarrow> if mx_uid_validity x \<noteq> validity then 0 else mx_last_uid x)"

definition must_save :: "mailbox_state option \<Rightarrow> 32 word \<Rightarrow> 32 word \<Rightarrow> 32 word \<Rightarrow> bool" where
  "must_save st validity seen highest \<longleftrightarrow>
     highest \<noteq> seen \<or> (case st of None \<Rightarrow> True | Some x \<Rightarrow> mx_uid_validity x \<noteq> validity)"

definition save_highest ::
  "int \<Rightarrow> string \<Rightarrow> mailbox_state option \<Rightarrow> 32 word \<Rightarrow> 32 word \<Rightarrow> 32 word \<Rightarrow> mail_state \<Rightarrow> (err + unit) \<times> mail_state" where
  "save_highest now folder mx validity seen highest st =
     (if must_save mx validity seen highest
      then (case wrapped ''save mailbox state''
                (save_mailbox_state now \<lparr> mx_folder = folder, mx_uid_validity = validity, mx_last_uid = highest \<rparr>) (fst st) of
              (r, s) \<Rightarrow> (r, s, snd st))
      else (Inr (), st))"

definition sync_folder ::
  "world \<Rightarrow> mail_lib \<Rightarrow> int \<Rightarrow> gotime \<Rightarrow> string \<Rightarrow> (32 word \<Rightarrow> fetched list \<times> err option) \<Rightarrow> 32 word \<Rightarrow> mail_state \<Rightarrow>
   (err + unit) \<times> mail_state" where
  "sync_folder w lib now clock folder fetch validity st =
     (case get_mailbox_state folder (fst st) of
        (Inl e, s) \<Rightarrow> (Inl e, s, snd st)
      | (Inr mx, s) \<Rightarrow>
          (let seen = resume_after mx validity; reply = fetch (seen + 1) in
           case sync_loop (handle_message w lib now clock folder validity) (fst reply) (seen, 0) (s, snd st) of
             (Inl e, st') \<Rightarrow> (Inl e, st')
           | (Inr (highest, n), st') \<Rightarrow>
               (case snd reply of
                  Some e \<Rightarrow>
                    if \<not> err_is e ErrCanceled then (Inl (ErrWrap ''fetch close: '' e []), st')
                    else save_highest now folder mx validity seen highest st'
                | None \<Rightarrow> save_highest now folder mx validity seen highest st')))"

section \<open>Sessions\<close>

text \<open>What ends the wait of \<open>idleUntilChange\<close>, and what closing the IDLE command and waiting for it then give.\<close>

datatype idle_event = CtxDone | Notified | RefreshDue | IdleEnded "err option"

definition stop_idle :: "err option \<Rightarrow> err option \<Rightarrow> err option" where
  "stop_idle close wait =
     (case close of
        Some e \<Rightarrow> Some (ErrWrap ''idle close: '' e [])
      | None \<Rightarrow> map_option (\<lambda>e. ErrWrap ''idle wait: '' e []) wait)"

definition idle_until_change :: "err option \<Rightarrow> err option \<Rightarrow> err option \<Rightarrow> idle_event \<Rightarrow> err + bool" where
  "idle_until_change start close wait ev =
     (case start of
        Some e \<Rightarrow> Inl (ErrWrap ''idle start: '' e [])
      | None \<Rightarrow>
          (case ev of
             CtxDone \<Rightarrow> Inl ErrCanceled
           | Notified \<Rightarrow> (case stop_idle close wait of Some e \<Rightarrow> Inl e | None \<Rightarrow> Inr True)
           | RefreshDue \<Rightarrow> (case stop_idle close wait of Some e \<Rightarrow> Inl e | None \<Rightarrow> Inr False)
           | IdleEnded (Some e) \<Rightarrow> Inl (ErrWrap ''idle wait: '' e [])
           | IdleEnded None \<Rightarrow> Inr True))"

text \<open>One IMAP session, as the answers it gives; \<open>k\<close> counts the rounds of the loop.\<close>

record session =
  se_dial :: "err option"
  se_login :: "err option"
  se_select :: "err + 32 word"
  se_fetch :: "nat \<Rightarrow> 32 word \<Rightarrow> fetched list \<times> err option"
  se_done :: "nat \<Rightarrow> bool"
  se_idle :: "nat \<Rightarrow> err + bool"

text \<open>The loop of \<open>runOnce\<close>; \<open>None\<close> when the fuel ran out.\<close>

fun session_loop :: "(nat \<Rightarrow> mail_state \<Rightarrow> (err + unit) \<times> mail_state) \<Rightarrow> session \<Rightarrow> nat \<Rightarrow> nat \<Rightarrow> mail_state \<Rightarrow> (err + unit) option \<times> mail_state" where
  "session_loop syn se 0 k st = (None, st)"
| "session_loop syn se (Suc n) k st =
     (if se_done se k then (Some (Inl ErrCanceled), st)
      else (case se_idle se k of
          Inl e \<Rightarrow> (Some (Inl e), st)
        | Inr False \<Rightarrow> session_loop syn se n (k + 1) st
        | Inr True \<Rightarrow>
            (case syn (k + 1) st of
               (Inl e, st') \<Rightarrow> (Some (Inl (ErrWrap ''incremental sync: '' e [])), st')
             | (Inr _, st') \<Rightarrow> session_loop syn se n (k + 1) st')))"

definition run_once ::
  "world \<Rightarrow> mail_lib \<Rightarrow> int \<Rightarrow> gotime \<Rightarrow> string \<Rightarrow> session \<Rightarrow> nat \<Rightarrow> mail_state \<Rightarrow> (err + unit) option \<times> mail_state" where
  "run_once w lib now clock folder se fuel st =
     (case se_dial se of
        Some e \<Rightarrow> (Some (Inl (ErrWrap ''dial: '' e [])), st)
      | None \<Rightarrow>
          (case se_login se of
             Some e \<Rightarrow> (Some (Inl (ErrWrap ''login: '' e [])), st)
           | None \<Rightarrow>
               (case se_select se of
                  Inl e \<Rightarrow> (Some (Inl (ErrWrap (''select '' @ folder @ '': '') e [])), st)
                | Inr validity \<Rightarrow>
                    (let syn = \<lambda>k. sync_folder w lib now clock folder (se_fetch se k) validity in
                     case syn 0 st of
                       (Inl e, st') \<Rightarrow> (Some (Inl (ErrWrap ''initial sync: '' e [])), st')
                     | (Inr _, st') \<Rightarrow> session_loop syn se fuel 0 st'))))"

text \<open>The delays of \<open>Run\<close> in seconds, given how its sessions ended (\<open>None\<close>: without an error).\<close>

definition next_backoff :: "int \<Rightarrow> int" where
  "next_backoff b = (if b * 2 > 60 then 60 else b * 2)"

fun retry_delays :: "int \<Rightarrow> err option list \<Rightarrow> int list" where
  "retry_delays b [] = []"
| "retry_delays b (Some e # ends) = b # retry_delays (next_backoff b) ends"
| "retry_delays b (None # ends) = retry_delays 1 ends"

text \<open>the delay before a reconnection is between one second and one minute, however the sessions end.\<close>

theorem backoff_bounds: "list_all (\<lambda>d. 1 \<le> d \<and> d \<le> 60) (retry_delays 1 ends)"
proof -
  have "1 \<le> b \<Longrightarrow> b \<le> 60 \<Longrightarrow> list_all (\<lambda>d. 1 \<le> d \<and> d \<le> 60) (retry_delays b ends)" for b
    by (induction b ends rule: retry_delays.induct) (auto simp: next_backoff_def)
  then show ?thesis by simp
qed

lemma session_loop_error: "fst (session_loop syn se n k st) \<noteq> Some (Inr ())"
  by (induction syn se n k st rule: session_loop.induct) (auto split: sum.split bool.split prod.split)

lemma run_once_error: "fst (run_once w lib now clock folder se fuel st) \<noteq> Some (Inr ())"
  using session_loop_error by (auto simp: run_once_def Let_def split: option.split sum.split prod.split)

lemma delays_of_failures: "i < n \<Longrightarrow> b = min 60 (2 ^ j) \<Longrightarrow> retry_delays b (replicate n (Some e)) ! i = min 60 (2 ^ (j + i))"
proof (induction n arbitrary: b i j)
  case (Suc n)
  show ?case
  proof (cases i)
    case 0
    then show ?thesis using Suc.prems by simp
  next
    case (Suc i')
    have "next_backoff b = min 60 (2 ^ Suc j)" using Suc.prems by (auto simp: next_backoff_def min_def)
    with Suc.IH[of i' "next_backoff b" "Suc j"] Suc.prems Suc show ?thesis by simp
  qed
qed simp

text \<open>the delay never recovers: a session ends only with an error, however long it worked, so the branch of \<open>Run\<close> that resets
  the delay is dead, and before the \<open>i\<close>-th reconnection the program waits \<open>2^i\<close> seconds up to a minute.\<close>

theorem backoff_never_resets:
  "(\<forall>fuel st. fst (run_once w lib now clock folder se fuel st) \<noteq> Some (Inr ())) \<and>
   map (\<lambda>i. retry_delays 1 (replicate n (Some e)) ! i) [0..<n] = map (\<lambda>i. min 60 (2 ^ i)) [0..<n]"
  using run_once_error delays_of_failures[of _ n 1 0 e] by simp

section \<open>What indexing can do to the database\<close>

text \<open>Handling messages satisfies every \<open>evolution\<close> that indexing one satisfies; a sync also saves the mailbox state.\<close>

locale indexing_evolution = evolution +
  assumes index: "evolves R (index_parsed w now folder uid validity sz p)"
begin

lemma ev_known_already: "evolves R (known_already b)"
  unfolding known_already_def message_exists_by_id_def
  by (intro ev_case_option ev_if ev_ret ev_tryE ev_case_sum ev_fail ev_pg_row)

lemma ev_get_mailbox_state: "evolves R (get_mailbox_state folder)"
  unfolding get_mailbox_state_def by (intro ev_if ev_ret ev_tryE ev_case_sum ev_fail ev_pg_row)

lemma ev_handle_message: "R (snap (fst st)) (snap (fst (snd (handle_message w lib now clock folder validity b st))))"
proof -
  obtain r s where k: "known_already b (fst st) = (r, s)" by fastforce
  note k' = evolvesD[OF ev_known_already k]
  show ?thesis
  proof (cases "\<exists>p c. r = Inr False \<and> parse_rfc822 w lib clock (bf_raw b) (snd st) = (Inr p, c)")
    case True
    then obtain p c where pc: "r = Inr False" "parse_rfc822 w lib clock (bf_raw b) (snd st) = (Inr p, c)" by auto
    obtain r' s' where i: "index_parsed w now folder (bf_uid b) validity (bf_size b) p s = (r', s')" by fastforce
    show ?thesis using trans[OF k' evolvesD[OF index i]] k pc i stay by (simp add: handle_message_def)
  next
    case False
    then show ?thesis using k k' stay
      by (auto simp: handle_message_def split: sum.split prod.split bool.split)
  qed
qed

lemma ev_sync_loop:
  assumes "\<And>b st. R (snap (fst st)) (snap (fst (snd (h b st))))"
  shows "R (snap (fst st)) (snap (fst (snd (sync_loop h items acc st))))"
  using assms
proof (induction h items acc st rule: sync_loop.induct)
  case (3 h b items acc st)
  obtain r st' where h: "h b st = (r, st')" by (cases "h b st")
  then have one: "R (snap (fst st)) (snap (fst st'))" using "3.prems"[of st b] by simp
  show ?case
  proof (cases "bf_uid b = 0")
    case True
    then show ?thesis using "3.IH"(1) "3.prems" by simp
  next
    case False
    then show ?thesis using "3.IH"(2,3)[OF False h[symmetric]] "3.prems" h trans[OF one] by (cases r) auto
  qed
qed (simp_all add: stay)

end

locale index_evolution = indexing_evolution +
  assumes save: "evolves R (save_mailbox_state now mx)"
begin

lemma ev_save_highest: "R (snap (fst st)) (snap (fst (snd (save_highest now folder mx validity seen highest st))))"
proof -
  let ?m = "wrapped ''save mailbox state''
      (save_mailbox_state now \<lparr> mx_folder = folder, mx_uid_validity = validity, mx_last_uid = highest \<rparr>)"
  have ev: "evolves R ?m" unfolding wrapped_def by (intro ev_wrapE save)
  obtain r s where m: "?m (fst st) = (r, s)" by (cases "?m (fst st)")
  from evolvesD[OF ev this] show ?thesis using stay by (simp add: save_highest_def m)
qed

lemma ev_sync_folder: "R (snap (fst st)) (snap (fst (snd (sync_folder w lib now clock folder fetch validity st))))"
proof -
  obtain r s where g: "get_mailbox_state folder (fst st) = (r, s)" by (cases "get_mailbox_state folder (fst st)")
  note g' = evolvesD[OF ev_get_mailbox_state g]
  show ?thesis
  proof (cases r)
    case (Inl e)
    then show ?thesis using g g' by (simp add: sync_folder_def)
  next
    case (Inr mx)
    let ?seen = "resume_after mx validity"
    let ?loop = "sync_loop (handle_message w lib now clock folder validity) (fst (fetch (?seen + 1))) (?seen, 0) (s, snd st)"
    have loop: "R (snap (fst st)) (snap (fst (snd ?loop)))"
      using trans[OF g'] ev_sync_loop[OF ev_handle_message, where st = "(s, snd st)"] by simp
    obtain q st' where l: "?loop = (q, st')" by (cases ?loop)
    have out: "snd (sync_folder w lib now clock folder fetch validity st) = st' \<or>
        (\<exists>highest. snd (sync_folder w lib now clock folder fetch validity st) = snd (save_highest now folder mx validity ?seen highest st'))"
      using g Inr l by (auto simp: sync_folder_def Let_def split: sum.split prod.split option.split)
    from loop l have loop': "R (snap (fst st)) (snap (fst st'))" by simp
    show ?thesis using out loop' trans[OF loop' ev_save_highest] by auto
  qed
qed

end

text \<open>Indexing satisfies every \<open>evolution\<close> its writing statements satisfy.\<close>

locale threading_evolution = evolution +
  assumes create: "evolves R (create_thread root subj g time)"
    and insert: "evolves R (insert_message w now m)"
    and promote: "evolves R (set_thread_grantee i gid)"
    and touch: "evolves R (touch_thread i time)"
begin

lemma ev_find_thread: "evolves R (find_thread_by_refs w refs)"
  unfolding find_thread_by_refs_def by (intro ev_if ev_ret ev_tryE ev_case_sum ev_fail ev_pg_row)

lemma ev_resolve: "evolves R (resolve w from tid)"
  unfolding resolve_def lookup_grantee_by_email_def get_thread_def
  by (intro ev_bindE ev_case_prod ev_case_option ev_if ev_ret ev_tryE ev_case_sum ev_fail ev_pg_row)

lemma ev_ensure_thread: "evolves R (ensure_thread w p)"
  unfolding ensure_thread_def wrapped_def Let_def
  by (intro ev_bindE ev_wrapE ev_if ev_ret ev_tryE ev_case_sum ev_fail ev_find_thread create)

lemma ev_index_parsed: "evolves R (index_parsed w now folder uid validity sz p)"
  unfolding index_parsed_def wrapped_def promote_thread_def
  by (intro ev_bindE ev_wrapE ev_if ev_ret ev_case_option ev_ensure_thread ev_resolve insert promote touch)

end

sublocale threading_evolution \<subseteq> indexing_evolution
  by unfold_locales (rule ev_index_parsed)

locale mail_evolution = threading_evolution +
  assumes save_state: "evolves R (save_mailbox_state now mx)"

sublocale mail_evolution \<subseteq> index_evolution
  by unfold_locales (rule save_state)

text \<open>Indexing leaves alone what does not depend on the five tables of mail.\<close>

lemma threading_frame:
  assumes threads: "\<And>t x. view (t\<lparr>t_threads := x\<rparr>) = view t" and messages: "\<And>t x. view (t\<lparr>t_messages := x\<rparr>) = view t"
    and refs: "\<And>t x. view (t\<lparr>t_references := x\<rparr>) = view t" and recipients: "\<And>t x. view (t\<lparr>t_recipients := x\<rparr>) = view t"
    and attachments: "\<And>t x. view (t\<lparr>t_attachments := x\<rparr>) = view t"
  shows "threading_evolution (same view)"
proof
  note frame = threads messages refs recipients attachments
  show "evolves (same view) (create_thread root subj g time)" for root subj g time
    unfolding create_thread_def by (rule same_pg) (auto simp: thread_insert_sql_def Let_def frame split: if_splits)
  show "evolves (same view) (set_thread_grantee i g)" for i g
    unfolding set_thread_grantee_def
    by (intro same.ev_in_tx same.ev_bindE same_pg_modify) (auto simp: frame claim_thread_def claim_messages_def dest!: with_grantee_Inr)
  show "evolves (same view) (touch_thread i time)" for i time
    unfolding touch_thread_def by (rule same_pg_modify) (auto simp: frame)
  have "evolves (same view) (insert_reference i ref)" for i ref
    unfolding insert_reference_def by (intro same.ev_if same.ev_ret same_pg_modify) (auto simp: frame with_message_def split: if_splits)
  moreover have "evolves (same view) (insert_recipient w i kind a)" for w i kind a
    unfolding insert_recipient_def Let_def
    by (intro same.ev_if same.ev_ret same_pg_modify) (auto simp: frame with_message_def split: if_splits)
  moreover have "evolves (same view) (insert_attachment i a)" for i a
    unfolding insert_attachment_def Let_def
    by (intro same.ev_wrapE same_pg) (auto simp: attachment_insert_sql_def Let_def frame with_message_def split: if_splits)
  ultimately show "evolves (same view) (insert_message w now m)" for w now m
    unfolding insert_message_def insert_children_def Let_def
    by (intro same.ev_in_tx same.ev_tryE same.ev_case_sum same.ev_if same.ev_bindE same.ev_pg_row same.ev_fail same.ev_ret
        same.ev_for_each same_pg) (auto simp: message_insert_sql_def Let_def frame split: if_splits)
qed

interpretation boxes: threading_evolution "same t_mailboxes"
  by (rule threading_frame) simp_all

interpretation identity: evolution "(=)"
  by unfold_locales auto

text \<open>Two of them: mail only grows, and the constraints of the schema are kept.\<close>

interpretation mail_index: mail_evolution mail_grows
proof
  show "evolves mail_grows (save_mailbox_state now mx)" for now mx
    unfolding save_mailbox_state_def Let_def by (rule mail_pg_modify) (auto intro!: mail_grows_same)
qed (rule evolve)+

interpretation schema_index: mail_evolution "schema_step w" for w
  by unfold_locales (rule evolve)+

text \<open>Whatever \<open>resolve\<close> answers, it only reads; and it leaves no message of an attributed thread unattributed.\<close>

lemma resolve_snap: "snap (snd (resolve w from tid s)) = snap s"
proof -
  have "evolves (=) (resolve w from tid)"
    unfolding resolve_def lookup_grantee_by_email_def get_thread_def
    by (intro identity.ev_bindE identity.ev_case_prod identity.ev_case_option identity.ev_if identity.ev_ret identity.ev_tryE
        identity.ev_case_sum identity.ev_fail identity.ev_pg_row)
  then show ?thesis by (simp add: evolves_def)
qed

lemma resolve_attributes:
  assumes "resolve w from tid s = (Inr res, s')" and "tid \<noteq> 0"
  shows "rs_grantee res \<noteq> None \<or> (\<exists>r. lookup_by th_id tid (t_threads (db_tabs s)) = Some r \<and> th_grantee r = None)"
proof -
  let ?look = "if from \<noteq> [] then lookup_grantee_by_email w from else ret ([], False)"
  obtain g ok s1 where look: "?look s = (Inr (g, ok), s1)" and
    k: "(if ok then ret \<lparr> rs_grantee = Some g, rs_sender = True, rs_thread = False \<rparr>
       else if tid \<noteq> 0 then
         bindE (get_thread tid) (\<lambda>t. case tr_grantee t of
             Some g \<Rightarrow> ret \<lparr> rs_grantee = Some g, rs_sender = False, rs_thread = True \<rparr>
           | None \<Rightarrow> ret unresolved)
       else ret unresolved) s1 = (Inr res, s')"
    using assms(1) by (auto simp: resolve_def bindE_Inr_iff)
  have "evolves (=) ?look"
    unfolding lookup_grantee_by_email_def
    by (intro identity.ev_if identity.ev_ret identity.ev_tryE identity.ev_case_sum identity.ev_fail identity.ev_pg_row)
  from evolvesD[OF this look] have tabs: "db_tabs s1 = db_tabs s" by (simp add: snap_def)
  show ?thesis
  proof (cases ok)
    case True
    then show ?thesis using k by auto
  next
    case False
    with k assms(2) obtain t s2 where t: "get_thread tid s1 = (Inr t, s2)" and
      r: "(case tr_grantee t of Some g \<Rightarrow> ret \<lparr> rs_grantee = Some g, rs_sender = False, rs_thread = True \<rparr> | None \<Rightarrow> ret unresolved) s2
        = (Inr res, s')" by (auto simp: bindE_Inr_iff)
    from pg_row_Inr(1)[OF t[unfolded get_thread_def]] obtain row where
      "lookup_by th_id tid (t_threads (db_tabs s)) = Some row" "t = thread_of_row row" using tabs by auto
    then show ?thesis using r by (cases "th_grantee row") (auto simp: thread_of_row_def)
  qed
qed

section \<open>No message of an attributed thread is left out\<close>

definition attributed :: "tables \<Rightarrow> bool" where
  "attributed t \<longleftrightarrow> (\<forall>r \<in> set (t_threads t). th_grantee r \<noteq> None \<longrightarrow>
     (\<forall>m \<in> set (t_messages t). ms_thread m = th_id r \<longrightarrow> ms_grantee m \<noteq> None))"

definition attr_step :: "world \<Rightarrow> snapshot \<Rightarrow> snapshot \<Rightarrow> bool" where
  "attr_step w p p' \<longleftrightarrow> schema_step w p p' \<and>
     (schema w (fst p) (snd p) \<and> attributed (fst p) \<longrightarrow> attributed (fst p'))"

interpretation attr: evolution "attr_step w"
proof
  show "attr_step w p p" for p by (simp add: attr_step_def schema.stay)
  show "attr_step w p p''" if "attr_step w p p'" "attr_step w p' p''" for p p' p''
    using that schema.trans by (auto simp: attr_step_def schema_step_def intro: seqs_le_trans)
  show "attr_step w (t, q) (t, q')" if "attr_step w (t, q) (t', q')" for t q t' q'
    using that schema.rollback by (fastforce simp: attr_step_def)
qed

lemma evolves_attr:
  assumes "evolves (schema_step w) m"
    and "\<And>s r s'. m s = (r, s') \<Longrightarrow> schema w (db_tabs s) (db_seqs s) \<Longrightarrow> attributed (db_tabs s) \<Longrightarrow> attributed (db_tabs s')"
  shows "evolves (attr_step w) m"
  using assms unfolding evolves_def attr_step_def by (metis fst_conv prod.collapse snap_def snd_conv)

lemma same_attr:
  assumes "evolves (schema_step w) m" and "evolves (keeping attributed) m"
  shows "evolves (attr_step w) m"
  by (rule evolves_attr[OF assms(1)]) (metis assms(2) evolves_keeping snd_conv)

lemma keeping_pg_modify:
  "(\<And>t x t'. f t = Inr (x, t') \<Longrightarrow> I t \<Longrightarrow> I t') \<Longrightarrow> evolves (keeping I) (pg_modify args f)"
  by (rule keeping.ev_pg_modify) (auto simp: keeping_def)

lemma create_thread_attr: "evolves (attr_step w) (create_thread root subj None time)"
proof (rule same_attr[OF create_thread_schema])
  show "evolves (keeping attributed) (create_thread root subj None time)"
    unfolding create_thread_def
    by (rule keeping.ev_pg) (auto simp: keeping_def thread_insert_sql_def Let_def attributed_def split: if_splits)
qed

lemma touch_thread_attr: "evolves (attr_step w) (touch_thread i time)"
proof (rule same_attr[OF touch_thread_schema])
  show "evolves (keeping attributed) (touch_thread i time)"
    unfolding touch_thread_def by (rule keeping_pg_modify) (auto simp: attributed_def row_simps)
qed

lemma save_mailbox_attr: "evolves (attr_step w) (save_mailbox_state now mx)"
proof (rule same_attr[OF save_mailbox_state_schema])
  show "evolves (keeping attributed) (save_mailbox_state now mx)"
    unfolding save_mailbox_state_def Let_def by (rule keeping_pg_modify) (auto simp: attributed_def)
qed

lemma claims_attributed: "attributed t \<Longrightarrow> attributed (claim_messages i g (claim_thread i g t))"
  by (auto simp: attributed_def claim_messages_def claim_thread_def row_simps)

lemma set_thread_grantee_ok:
  assumes "set_thread_grantee i g s = (Inr (), s')"
  shows "db_tabs s' = claim_messages i g (claim_thread i g (db_tabs s))"
proof -
  from assms[unfolded set_thread_grantee_def] obtain s1 s2 where s1: "db_tabs s1 = db_tabs s" and s2: "db_tabs s' = db_tabs s2" and
    run: "bindE (pg_modify [g] (with_grantee g (claim_thread i g))) (\<lambda>_. pg_modify [g] (with_grantee g (claim_messages i g))) s1 = (Inr (), s2)"
    by (elim in_tx_ok)
  from run obtain u where "pg_modify [g] (with_grantee g (claim_thread i g)) s1 = (Inr (), u)"
    "pg_modify [g] (with_grantee g (claim_messages i g)) u = (Inr (), s2)" by (auto simp: bindE_Inr_iff)
  from this(1)[THEN pg_modify_Inr(2), THEN with_grantee_Inr] this(2)[THEN pg_modify_Inr(2), THEN with_grantee_Inr]
  show ?thesis using s1 s2 by simp
qed

lemma set_thread_grantee_attr: "evolves (attr_step w) (set_thread_grantee i g)"
proof (rule evolves_attr[OF set_thread_grantee_schema])
  fix s r s' assume run: "set_thread_grantee i g s = (r, s')" and a: "attributed (db_tabs s)"
  show "attributed (db_tabs s')"
  proof (cases r)
    case (Inl e)
    then have "db_tabs s' = db_tabs s" using run by (simp add: set_thread_grantee_def in_tx_error)
    with a show ?thesis by simp
  next
    case (Inr x)
    then show ?thesis using set_thread_grantee_ok[of i g s s'] run claims_attributed[OF a] by simp
  qed
qed

lemma insert_message_tabs:
  assumes "insert_message w' now m s = (r, s')"
  shows "t_threads (db_tabs s') = t_threads (db_tabs s)"
    "t_messages (db_tabs s') = t_messages (db_tabs s) \<or>
     (\<exists>i. t_messages (db_tabs s') = t_messages (db_tabs s) @ [(message_row_of now m)\<lparr>ms_id := i\<rparr>])"
proof -
  have "t_threads (db_tabs s') = t_threads (db_tabs s) \<and> (t_messages (db_tabs s') = t_messages (db_tabs s) \<or>
     (\<exists>i. t_messages (db_tabs s') = t_messages (db_tabs s) @ [(message_row_of now m)\<lparr>ms_id := i\<rparr>]))"
  proof (cases r)
    case (Inl e)
    then have "db_tabs s' = db_tabs s" using assms by (auto simp: insert_message_def Let_def dest: in_tx_error)
    then show ?thesis by simp
  next
    case (Inr x)
    then obtain i new where x: "r = Inr (i, new)" by (cases x) auto
    show ?thesis
    proof (cases new)
      case True
      then show ?thesis using insert_message_new(1,2)[of w' now m s i s'] assms x by auto
    next
      case False
      have "db_tabs s' = db_tabs s" by (rule insert_message_cases[OF assms[unfolded x]]) (use False in simp_all)
      then show ?thesis by simp
    qed
  qed
  then show "t_threads (db_tabs s') = t_threads (db_tabs s)"
    "t_messages (db_tabs s') = t_messages (db_tabs s) \<or>
     (\<exists>i. t_messages (db_tabs s') = t_messages (db_tabs s) @ [(message_row_of now m)\<lparr>ms_id := i\<rparr>])" by auto
qed

text \<open>Inserting with the grantee \<open>resolve\<close> found in the same state.\<close>

lemma insert_resolved_attr:
  assumes run: "insert_message w' now m s = (r, s')"
    and res: "m_grantee m \<noteq> None \<or> m_thread m = 0 \<or> (\<exists>r. lookup_by th_id (m_thread m) (t_threads (db_tabs s)) = Some r \<and> th_grantee r = None)"
  shows "attr_step w (snap s) (snap s')"
proof -
  have "attributed (db_tabs s')" if sch: "schema w (db_tabs s) (db_seqs s)" and a: "attributed (db_tabs s)"
  proof -
    note ok = schema_parts(4)[OF sch, unfolded ok_threads_def]
    have new: "m_grantee m \<noteq> None" if "x \<in> set (t_threads (db_tabs s))" "th_grantee x \<noteq> None" "th_id x = m_thread m" for x
    proof -
      have "lookup_by th_id (m_thread m) (t_threads (db_tabs s)) = Some x"
        using ok that lookup_by_unique[of th_id "t_threads (db_tabs s)" x] by simp
      moreover have "m_thread m \<noteq> 0" using ok that by force
      ultimately show ?thesis using res that by auto
    qed
    show ?thesis using insert_message_tabs[OF run] a new by (auto simp: attributed_def message_row_of_def)
  qed
  moreover have "schema_step w (snap s) (snap s')" using evolvesD[OF insert_message_schema run] .
  ultimately show ?thesis by (simp add: attr_step_def snap_def)
qed

lemma ensure_thread_attr: "evolves (attr_step w') (ensure_thread w p)"
  unfolding ensure_thread_def find_thread_by_refs_def wrapped_def Let_def
  by (intro attr.ev_bindE attr.ev_wrapE attr.ev_if attr.ev_ret attr.ev_tryE attr.ev_case_sum attr.ev_fail attr.ev_pg_row
      create_thread_attr)

lemma index_parsed_attr: "evolves (attr_step w') (index_parsed w now folder uid validity sz p)"
  unfolding index_parsed_def
proof (rule attr.ev_bindE[OF ensure_thread_attr])
  fix tid
  let ?m = "message_of folder uid validity sz p tid"
  let ?rest = "\<lambda>res. bindE (case rs_grantee res of
         Some g \<Rightarrow> if rs_sender res then wrapped ''promote thread'' (promote_thread tid g) else ret ()
       | None \<Rightarrow> ret ()) (\<lambda>_. wrapped ''touch thread'' (touch_thread tid (p_date p)))"
  have rest: "evolves (attr_step w') (?rest res)" for res
    unfolding wrapped_def promote_thread_def
    by (intro attr.ev_bindE attr.ev_case_option attr.ev_if attr.ev_wrapE attr.ev_ret set_thread_grantee_attr touch_thread_attr)
  have step: "attr_step w' (snap s1) (snap (snd (bindE (wrapped ''insert'' (insert_message w now (?m res))) (\<lambda>_. ?rest res) s1)))"
    if res: "resolve w (a_email (p_from p)) tid s = (Inr res, s1)" for res s s1
  proof -
    have "db_tabs s1 = db_tabs s" using resolve_snap[of w "a_email (p_from p)" tid s] res by (simp add: snap_def)
    then have "m_grantee (?m res) \<noteq> None \<or> m_thread (?m res) = 0 \<or>
        (\<exists>r. lookup_by th_id (m_thread (?m res)) (t_threads (db_tabs s1)) = Some r \<and> th_grantee r = None)"
      using resolve_attributes[OF res] by (auto simp: message_of_def)
    note ins = insert_resolved_attr[OF _ this]
    obtain r s2 where i: "insert_message w now (?m res) s1 = (r, s2)" by (cases "insert_message w now (?m res) s1")
    show ?thesis
    proof (cases r)
      case (Inl e)
      then show ?thesis using ins[OF i] i by (simp add: wrapped_def bindE_eq wrapE_eq)
    next
      case (Inr x)
      have "attr_step w' (snap s2) (snap (snd (?rest res s2)))" using rest[of res] unfolding evolves_def by (rule spec)
      with attr.trans[OF ins[OF i]] show ?thesis using i Inr by (simp add: wrapped_def bindE_eq[of "wrapE _ _"] wrapE_eq)
    qed
  qed
  show "evolves (attr_step w') (bindE (wrapped ''resolve grantee'' (resolve w (a_email (p_from p)) tid)) (\<lambda>res.
      bindE (wrapped ''insert'' (insert_message w now (?m res))) (\<lambda>_. ?rest res)))"
    unfolding evolves_def
  proof
    fix s
    obtain r s1 where r: "resolve w (a_email (p_from p)) tid s = (r, s1)" by (cases "resolve w (a_email (p_from p)) tid s")
    then have same: "snap s1 = snap s" using resolve_snap[of w "a_email (p_from p)" tid s] by simp
    show "attr_step w' (snap s) (snap (snd (bindE (wrapped ''resolve grantee'' (resolve w (a_email (p_from p)) tid)) (\<lambda>res.
      bindE (wrapped ''insert'' (insert_message w now (?m res))) (\<lambda>_. ?rest res)) s)))"
    proof (cases r)
      case (Inl e)
      then show ?thesis using r same attr.stay by (simp add: wrapped_def bindE_eq[of "wrapE _ _"] wrapE_eq)
    next
      case (Inr res)
      then show ?thesis using r same step[of s res s1] by (simp add: wrapped_def bindE_eq[of "wrapE _ (resolve _ _ _)"] wrapE_eq)
    qed
  qed
qed

interpretation attr_index: index_evolution "attr_step w" for w
  by unfold_locales (rule index_parsed_attr save_mailbox_attr)+

text \<open>indexing only adds mail: whatever the server sends and whatever fails, one sync of a folder keeps every thread, message,
  recipient, reference and attachment, and never changes an attribution; it only fills in the missing ones.\<close>

theorem sync_only_adds_mail:
  "mail_grows (snap (fst st)) (snap (fst (snd (sync_folder w lib now clock folder fetch validity st))))"
  by (rule mail_index.ev_sync_folder)

text \<open>a sync of a folder, however it ends, keeps the constraints of the schema, and it leaves no message behind: if every message of
  an attributed thread was attributed before, that is so afterwards.\<close>

theorem sync_keeps_attribution:
  assumes "schema w (db_tabs (fst st)) (db_seqs (fst st))" and "attributed (db_tabs (fst st))"
  shows "case sync_folder w lib now clock folder fetch validity st of (r, s', c) \<Rightarrow>
    schema w (db_tabs s') (db_seqs s') \<and> attributed (db_tabs s')"
  using attr_index.ev_sync_folder[of w st w lib now clock folder fetch validity] assms
  by (auto simp: attr_step_def schema_step_def snap_def split: prod.split)

section \<open>Threads of replies, and the UID reached\<close>

text \<open>C23: a reply joins the thread of what it answers: if every thread and every message its headers name belong to one thread, and
  they name at least one, the message goes to that thread and nothing is created.\<close>

theorem reply_joins_thread:
  fixes p :: parsed
  defines "cands \<equiv> thread_candidates (p_message_id p) (p_in_reply_to p) (p_references p)"
  assumes clean: "db_faults s = []" and ok: "list_all pg_text_ok cands" and T: "T \<noteq> 0"
    and roots: "\<forall>r \<in> set (t_threads (db_tabs s)). th_root r \<in> set cands \<longrightarrow> th_id r = T"
    and mids: "\<forall>m \<in> set (t_messages (db_tabs s)). ms_message_id m \<in> set cands \<longrightarrow> ms_thread m = T"
    and some: "set cands \<inter> (th_root ` set (t_threads (db_tabs s)) \<union> ms_message_id ` set (t_messages (db_tabs s))) \<noteq> {}"
  shows "ensure_thread w p s = (Inr T, s)"
proof -
  let ?rs = "filter (\<lambda>r. th_root r \<in> set cands) (t_threads (db_tabs s))"
  let ?ms = "filter (\<lambda>m. ms_message_id m \<in> set cands) (t_messages (db_tabs s))"
  have ne: "cands \<noteq> []" using some by auto
  have "find_thread_by_refs w cands s = (Inr T, s)"
  proof (cases "pick_row w th_id ?rs")
    case (Some r)
    then have "th_id r = T" using roots pick_row_mem[OF Some] by simp
    then show ?thesis using Some ne clean ok by (simp add: find_thread_by_refs_def clean_simps)
  next
    case None
    then have "?rs = []" by simp
    then have "?ms \<noteq> []" using some by (auto simp: filter_empty_conv)
    then obtain m where m: "pick_row w ms_id ?ms = Some m" by (cases "pick_row w ms_id ?ms") auto
    then have "ms_thread m = T" using mids pick_row_mem[OF m] by simp
    then show ?thesis using \<open>?rs = []\<close> m ne clean ok by (simp add: find_thread_by_refs_def clean_simps)
  qed
  then show ?thesis using T by (simp add: ensure_thread_def wrapped_def bindE_eq wrapE_eq cands_def)
qed

definition demo_parsed :: parsed where
  "demo_parsed = \<lparr> p_message_id = ''n@x'', p_in_reply_to = ''<m@x>'', p_references = ''<r@x> <m@x>'', p_refs = [''r@x'', ''m@x''],
     p_from = \<lparr> a_name = [], a_email = ''ann@x'' \<rparr>, p_to = [], p_cc = [], p_bcc = [], p_subject = ''Re: Hi'', p_date = 7000000000,
     p_body_text = ''ok'', p_body_html = [], p_attachments = [] \<rparr>"

theorem reply_joins_thread_witness: "ensure_thread demo_world demo_parsed demo_inserted = (Inr 1, demo_inserted)"
proof -
  let ?c = "thread_candidates (p_message_id demo_parsed) (p_in_reply_to demo_parsed) (p_references demo_parsed)"
  have c: "?c = [''r@x'', ''m@x'', ''n@x'']" by code_simp
  have "db_faults demo_inserted = []" "list_all pg_text_ok ?c" by code_simp+
  moreover have "list_all (\<lambda>r. th_root r \<in> set ?c \<longrightarrow> th_id r = 1) (t_threads (db_tabs demo_inserted))" by code_simp
  moreover have "list_all (\<lambda>m. ms_message_id m \<in> set ?c \<longrightarrow> ms_thread m = 1) (t_messages (db_tabs demo_inserted))" by code_simp
  moreover have "map th_root (t_threads (db_tabs demo_inserted)) = [''r@x'']" by code_simp
  then have "''r@x'' \<in> th_root ` set (t_threads (db_tabs demo_inserted))" by (metis list.set_intros(1) list.set_map)
  then have "set ?c \<inter> (th_root ` set (t_threads (db_tabs demo_inserted)) \<union> ms_message_id ` set (t_messages (db_tabs demo_inserted))) \<noteq> {}"
    unfolding c by auto
  ultimately show ?thesis by (intro reply_joins_thread) (simp_all add: list_all_iff)
qed

section \<open>The UID a sync reaches\<close>

text \<open>The reference: which messages of a reply were handled, in order, and with what success.\<close>

fun sync_outcomes ::
  "(buffer \<Rightarrow> mail_state \<Rightarrow> (err + unit) \<times> mail_state) \<Rightarrow> fetched list \<Rightarrow> mail_state \<Rightarrow> (32 word \<times> bool) list" where
  "sync_outcomes h [] st = []"
| "sync_outcomes h (Broken e # items) st = []"
| "sync_outcomes h (Collected b # items) st =
     (if bf_uid b = 0 then sync_outcomes h items st
      else (case h b st of (r, st') \<Rightarrow> (bf_uid b, \<not> isl r) # sync_outcomes h items st'))"

definition indexed_uids :: "(32 word \<times> bool) list \<Rightarrow> 32 word list" where
  "indexed_uids outs = map fst (filter snd outs)"

lemma sync_loop_outcomes:
  "sync_loop h items acc st = (Inr acc', st') \<Longrightarrow>
     acc' = (Max (set (fst acc # indexed_uids (sync_outcomes h items st))), snd acc + length (indexed_uids (sync_outcomes h items st)))"
proof (induction h items acc st rule: sync_loop.induct)
  case (3 h b items acc st)
  show ?case
  proof (cases "bf_uid b = 0")
    case True
    then show ?thesis using 3 by simp
  next
    case False
    obtain r st1 where h: "h b st = (r, st1)" by (cases "h b st")
    show ?thesis
    proof (cases r)
      case (Inl e)
      then show ?thesis using "3.IH"(2)[OF False h[symmetric] Inl] "3.prems" False h by (simp add: indexed_uids_def)
    next
      case (Inr u)
      let ?new = "if bf_uid b > fst acc then bf_uid b else fst acc" and ?us = "indexed_uids (sync_outcomes h items st1)"
      have "acc' = (Max (set (?new # ?us)), snd acc + 1 + length ?us)"
        using "3.IH"(3)[OF False h[symmetric] Inr] "3.prems" False h Inr by simp
      moreover have "?new = max (bf_uid b) (fst acc)" by (auto simp: max_def)
      then have "Max (set (?new # ?us)) = Max (set (fst acc # bf_uid b # ?us))"
        by (cases "?us = []") (simp_all add: max.assoc[symmetric] max.commute)
      ultimately show ?thesis using False h Inr by (simp add: indexed_uids_def)
    qed
  qed
qed (simp_all add: indexed_uids_def)

lemma sync_outcomes_uids: "fst ` set (sync_outcomes h items st) \<subseteq> {bf_uid b | b. Collected b \<in> set items} - {0}"
proof (induction h items st rule: sync_outcomes.induct)
  case (3 h b items st)
  obtain r st' where h: "h b st = (r, st')" by (cases "h b st")
  show ?case
  proof (cases "bf_uid b = 0")
    case True
    then show ?thesis using "3.IH"(1) by auto
  next
    case False
    then show ?thesis using "3.IH"(2)[OF False h[symmetric]] False h by auto
  qed
qed simp_all

text \<open>The UID after which a folder is resumed, read off its row.\<close>

definition row_resume :: "tables \<Rightarrow> string \<Rightarrow> 32 word \<Rightarrow> 32 word" where
  "row_resume t folder validity =
     (case lookup_by mb_folder folder (t_mailboxes t) of
        None \<Rightarrow> 0
      | Some r \<Rightarrow> if mb_uid_validity r = uint validity then word_of_int (mb_last_uid r) else 0)"

lemma get_mailbox_state_tabs: "db_tabs (snd (get_mailbox_state folder s)) = db_tabs s"
proof -
  have "evolves (=) (get_mailbox_state folder)" unfolding get_mailbox_state_def
    by (intro identity.ev_if identity.ev_ret identity.ev_tryE identity.ev_case_sum identity.ev_fail identity.ev_pg_row)
  then show ?thesis by (simp add: evolves_def snap_def)
qed

lemma scan_u32_Inr: "scan_u32 n = Inr v \<Longrightarrow> v = word_of_int n \<and> uint v = n"
  by (auto simp: scan_u32_def uint_word_of_int mod_pos_pos_trivial split: if_splits)

lemma pg_row_no_rows:
  assumes "pg_row args f s = (Inl e, s')" and "err_is e ErrNoRows"
  shows "f (db_tabs s) = None"
proof -
  have faults: "\<not> err_is (fault_err x) ErrNoRows" for x by (cases x) simp_all
  show ?thesis using assms faults
    by (auto simp: pg_row_def pg_def pg_run_def split: list.splits option.splits if_splits)
qed

lemma get_mailbox_state_Inr:
  assumes "get_mailbox_state folder s = (Inr mx, s')"
  shows "(case lookup_by mb_folder folder (t_mailboxes (db_tabs s)) of None \<Rightarrow> mx = None
    | Some r \<Rightarrow> mx = Some \<lparr> mx_folder = folder, mx_uid_validity = word_of_int (mb_uid_validity r), mx_last_uid = word_of_int (mb_last_uid r) \<rparr> \<and>
        uint (word_of_int (mb_uid_validity r) :: 32 word) = mb_uid_validity r \<and> uint (word_of_int (mb_last_uid r) :: 32 word) = mb_last_uid r)"
proof -
  obtain r s1 where row: "pg_row [folder] (\<lambda>t. lookup_by mb_folder folder (t_mailboxes t)) s = (r, s1)" by fastforce
  show ?thesis
  proof (cases r)
    case (Inl e)
    then have "err_is e ErrNoRows" "mx = None" using assms row by (auto simp: get_mailbox_state_def tryE_eq split: if_splits)
    then show ?thesis using pg_row_no_rows[OF row[unfolded Inl]] by simp
  next
    case (Inr x)
    have l: "lookup_by mb_folder folder (t_mailboxes (db_tabs s)) = Some x" using pg_row_Inr(1)[OF row[unfolded Inr]] by simp
    then have "mb_folder x = folder" by (auto dest: lookup_by_Some)
    with l assms row Inr show ?thesis
      by (auto simp: get_mailbox_state_def tryE_eq split: sum.splits dest!: scan_u32_Inr)
  qed
qed

text \<open>Handling messages leaves the mailbox rows alone; saving changes the row of the folder.\<close>

lemma loop_mailboxes:
  "t_mailboxes (db_tabs (fst (snd (sync_loop (handle_message w lib now clock folder validity) items acc st)))) = t_mailboxes (db_tabs (fst st))"
  using boxes.ev_sync_loop[OF boxes.ev_handle_message, where st = st and items = items and acc = acc]
  by (simp add: same_def snap_def)

lemma filter_upsert_by: "(\<And>x. key (upd x) = key x) \<Longrightarrow> filter (\<lambda>x. key x \<noteq> key r) (upsert_by key upd r rs) = filter (\<lambda>x. key x \<noteq> key r) rs"
proof -
  assume "\<And>x. key (upd x) = key x"
  then have "filter (\<lambda>x. key x \<noteq> k) (update_where (\<lambda>x. key x = k) upd rs) = filter (\<lambda>x. key x \<noteq> k) rs" for k
    by (induction rs) (simp_all add: update_where_def)
  then show ?thesis by (simp add: upsert_by_def)
qed

definition row_says :: "tables \<Rightarrow> string \<Rightarrow> 32 word \<Rightarrow> 32 word \<Rightarrow> bool" where
  "row_says t folder validity u \<longleftrightarrow>
     (\<exists>r. lookup_by mb_folder folder (t_mailboxes t) = Some r \<and> mb_uid_validity r = uint validity \<and> mb_last_uid r = uint u)"

definition other_rows :: "tables \<Rightarrow> string \<Rightarrow> mailbox_row list" where
  "other_rows t folder = filter (\<lambda>r. mb_folder r \<noteq> folder) (t_mailboxes t)"

lemma save_mailbox_state_Inr:
  assumes "save_mailbox_state now \<lparr> mx_folder = folder, mx_uid_validity = validity, mx_last_uid = u \<rparr> s = (Inr (), s')"
  shows "row_says (db_tabs s') folder validity u \<and> other_rows (db_tabs s') folder = other_rows (db_tabs s) folder"
proof -
  let ?row = "\<lparr> mb_folder = folder, mb_uid_validity = uint validity, mb_last_uid = uint u, mb_updated = now \<rparr>"
  let ?upd = "\<lambda>x. x\<lparr>mb_uid_validity := uint validity, mb_last_uid := uint u, mb_updated := now\<rparr>"
  have t: "t_mailboxes (db_tabs s') = upsert_by mb_folder ?upd ?row (t_mailboxes (db_tabs s))"
    using pg_modify_Inr(2)[OF assms[unfolded save_mailbox_state_def Let_def]] by (auto dest: sym)
  have "other_rows (db_tabs s') folder = other_rows (db_tabs s) folder"
    using filter_upsert_by[of mb_folder ?upd ?row "t_mailboxes (db_tabs s)"] by (simp add: other_rows_def t)
  moreover have "row_says (db_tabs s') folder validity u"
    using lookup_by_upsert_same[of mb_folder ?upd ?row "t_mailboxes (db_tabs s)"]
    by (auto simp: row_says_def t split: option.splits)
  ultimately show ?thesis by blast
qed

text \<open>A completed sync, taken apart.\<close>

lemma sync_folder_Inr:
  assumes sync: "sync_folder w lib now clock folder fetch validity st = (Inr (), st')"
  defines "seen \<equiv> row_resume (db_tabs (fst st)) folder validity"
    and "uids \<equiv> indexed_uids (sync_outcomes (handle_message w lib now clock folder validity)
      (fst (fetch (row_resume (db_tabs (fst st)) folder validity + 1))) (snd (get_mailbox_state folder (fst st)), snd st))"
  shows "row_says (db_tabs (fst st')) folder validity (Max (set (seen # uids)))"
    "other_rows (db_tabs (fst st')) folder = other_rows (db_tabs (fst st)) folder"
proof -
  obtain mx s1 where g: "get_mailbox_state folder (fst st) = (Inr mx, s1)"
    using sync by (auto simp: sync_folder_def split: prod.splits sum.splits)
  have tabs: "db_tabs s1 = db_tabs (fst st)" using get_mailbox_state_tabs[of folder "fst st"] g by simp
  note mx = get_mailbox_state_Inr[OF g]
  have seen: "resume_after mx validity = seen"
    using mx by (auto simp: seen_def row_resume_def resume_after_def split: option.splits)
  let ?h = "handle_message w lib now clock folder validity" and ?items = "fst (fetch (seen + 1))"
  obtain highest n st1 where l: "sync_loop ?h ?items (seen, 0) (s1, snd st) = (Inr (highest, n), st1)"
    and save: "save_highest now folder mx validity seen highest st1 = (Inr (), st')"
    using sync g seen by (auto simp: sync_folder_def Let_def split: prod.splits sum.splits option.splits if_splits)
  have top: "highest = Max (set (seen # uids))" using sync_loop_outcomes[OF l] g by (simp add: uids_def seen_def)
  have boxes: "t_mailboxes (db_tabs (fst st1)) = t_mailboxes (db_tabs (fst st))"
    using loop_mailboxes[of w lib now clock folder validity ?items "(seen, 0)" "(s1, snd st)"] l tabs by simp
  have "row_says (db_tabs (fst st')) folder validity highest \<and> other_rows (db_tabs (fst st')) folder = other_rows (db_tabs (fst st)) folder"
  proof (cases "must_save mx validity seen highest")
    case True
    then obtain s2 where "save_mailbox_state now \<lparr> mx_folder = folder, mx_uid_validity = validity, mx_last_uid = highest \<rparr> (fst st1) = (Inr (), s2)"
      and "fst st' = s2"
      using save by (auto simp: save_highest_def wrapped_def wrapE_eq split: prod.splits sum.splits)
    then show ?thesis using save_mailbox_state_Inr boxes by (simp add: other_rows_def)
  next
    case False
    then have same: "st' = st1" "highest = seen" using save by (simp_all add: save_highest_def must_save_def)
    from False mx seen same(2) have "row_says (db_tabs (fst st)) folder validity highest"
      by (auto simp: must_save_def row_says_def resume_after_def split: option.splits if_splits)
    then show ?thesis using same boxes by (simp add: row_says_def other_rows_def)
  qed
  then show "row_says (db_tabs (fst st')) folder validity (Max (set (seen # uids)))"
    "other_rows (db_tabs (fst st')) folder = other_rows (db_tabs (fst st)) folder" using top by simp_all
qed

text \<open>The server is asked only for the range after the UID to resume from.\<close>

lemma sync_folder_asks:
  assumes "fetch' (row_resume (db_tabs (fst st)) folder validity + 1) = fetch (row_resume (db_tabs (fst st)) folder validity + 1)"
  shows "sync_folder w lib now clock folder fetch' validity st = sync_folder w lib now clock folder fetch validity st"
proof -
  obtain r s1 where g: "get_mailbox_state folder (fst st) = (r, s1)" by fastforce
  show ?thesis
  proof (cases r)
    case (Inl e)
    then show ?thesis using g by (simp add: sync_folder_def)
  next
    case (Inr mx)
    have "resume_after mx validity = row_resume (db_tabs (fst st)) folder validity"
      using get_mailbox_state_Inr[OF g[unfolded Inr]]
      by (auto simp: row_resume_def resume_after_def split: option.splits)
    then show ?thesis using g Inr assms by (simp add: sync_folder_def)
  qed
qed

text \<open>C36: what a completed sync of a folder records: the server is asked only for the range after the UID saved for the folder, or from
  the beginning when nothing is saved or the mailbox has a new UIDVALIDITY; afterwards the row of the folder holds that
  UIDVALIDITY and the highest of the UID it started from and the UIDs of the messages indexed with success, all of them
  UIDs the server sent; and no other folder's row has changed. UIDs have 32 bits, so after the last one the range starts at 0.\<close>

theorem sync_uid_bounds:
  assumes "sync_folder w lib now clock folder fetch validity st = (Inr (), st')"
  defines "seen \<equiv> row_resume (db_tabs (fst st)) folder validity"
  defines "uids \<equiv> indexed_uids (sync_outcomes (handle_message w lib now clock folder validity) (fst (fetch (seen + 1)))
      (snd (get_mailbox_state folder (fst st)), snd st))"
  shows "row_says (db_tabs (fst st')) folder validity (Max (set (seen # uids))) \<and>
    set uids \<subseteq> {bf_uid b | b. Collected b \<in> set (fst (fetch (seen + 1)))} - {0} \<and>
    other_rows (db_tabs (fst st')) folder = other_rows (db_tabs (fst st)) folder \<and>
    (\<forall>fetch'. fetch' (seen + 1) = fetch (seen + 1) \<longrightarrow>
       sync_folder w lib now clock folder fetch' validity st = (Inr (), st'))"
proof -
  have "set uids \<subseteq> fst ` set (sync_outcomes (handle_message w lib now clock folder validity) (fst (fetch (seen + 1)))
      (snd (get_mailbox_state folder (fst st)), snd st))"
    by (auto simp: uids_def indexed_uids_def)
  then have "set uids \<subseteq> {bf_uid b | b. Collected b \<in> set (fst (fetch (seen + 1)))} - {0}" using sync_outcomes_uids by (rule subset_trans)
  moreover have "\<forall>fetch'. fetch' (seen + 1) = fetch (seen + 1) \<longrightarrow> sync_folder w lib now clock folder fetch' validity st = (Inr (), st')"
    using sync_folder_asks[of _ st folder validity fetch w lib now clock] assms(1) unfolding seen_def by auto
  ultimately show ?thesis using sync_folder_Inr[OF assms(1)] by (simp add: seen_def uids_def)
qed

text \<open>A sync that ends with an error leaves the rows as they were.\<close>

lemma sync_folder_Inl:
  assumes "sync_folder w lib now clock folder fetch validity st = (Inl e, st')"
  shows "t_mailboxes (db_tabs (fst st')) = t_mailboxes (db_tabs (fst st))"
proof -
  obtain r s1 where g: "get_mailbox_state folder (fst st) = (r, s1)" by fastforce
  have tabs: "db_tabs s1 = db_tabs (fst st)" using get_mailbox_state_tabs[of folder "fst st"] g by simp
  show ?thesis
  proof (cases r)
    case (Inl x)
    then have "st' = (s1, snd st)" using assms g by (simp add: sync_folder_def)
    then show ?thesis using tabs by simp
  next
    case (Inr mx)
    let ?seen = "resume_after mx validity"
    obtain q st1 where l: "sync_loop (handle_message w lib now clock folder validity) (fst (fetch (?seen + 1))) (?seen, 0) (s1, snd st) = (q, st1)"
      by (rule prod.exhaust)
    have boxes: "t_mailboxes (db_tabs (fst st1)) = t_mailboxes (db_tabs (fst st))"
      using loop_mailboxes[of w lib now clock folder validity "fst (fetch (?seen + 1))" "(?seen, 0)" "(s1, snd st)"] l tabs by simp
    have save: "t_mailboxes (db_tabs (fst st2)) = t_mailboxes (db_tabs (fst st1))"
      if "save_highest now folder mx validity ?seen highest st1 = (Inl e, st2)" for highest st2
      using that by (auto simp: save_highest_def wrapped_def wrapE_eq save_mailbox_state_def Let_def pg_modify_def
          dest!: pg_Inl_tabs split: if_splits prod.splits sum.splits)
    show ?thesis using assms g Inr l boxes save
      by (auto simp: sync_folder_def Let_def split: sum.splits prod.splits option.splits if_splits)
  qed
qed

section \<open>A failed message is not fetched again\<close>

text \<open>
  What may happen to a folder after a sync: more syncs, however they end, and changes that leave its row alone, such as syncs
  of other folders.
\<close>

inductive later :: "world \<Rightarrow> mail_lib \<Rightarrow> string \<Rightarrow> 32 word \<Rightarrow> mail_state \<Rightarrow> mail_state \<Rightarrow> bool" for w lib folder validity where
  now: "later w lib folder validity st st"
| sync: "later w lib folder validity st st1 \<Longrightarrow> sync_folder w lib t clock folder fetch validity st1 = (r, st2) \<Longrightarrow>
    later w lib folder validity st st2"
| other: "later w lib folder validity st st1 \<Longrightarrow>
    lookup_by mb_folder folder (t_mailboxes (db_tabs (fst st2))) = lookup_by mb_folder folder (t_mailboxes (db_tabs (fst st1))) \<Longrightarrow>
    later w lib folder validity st st2"

lemma row_says_resume: "row_says t folder validity u \<Longrightarrow> row_resume t folder validity = u"
  by (auto simp: row_says_def row_resume_def)

lemma later_above:
  "later w lib folder validity st st' \<Longrightarrow> row_says (db_tabs (fst st)) folder validity u \<Longrightarrow>
   \<exists>v. u \<le> v \<and> row_says (db_tabs (fst st')) folder validity v"
proof (induction rule: later.induct)
  case (sync st st1 t clock fetch r st2)
  then obtain v where v: "u \<le> v" "row_says (db_tabs (fst st1)) folder validity v" by blast
  show ?case
  proof (cases r)
    case (Inl e)
    then show ?thesis using v sync_folder_Inl sync.hyps(2) by (auto simp: row_says_def)
  next
    case (Inr x)
    then obtain us where "row_says (db_tabs (fst st2)) folder validity (Max (set (v # us)))"
      using sync_folder_Inr(1)[of w lib t clock folder fetch validity st1 st2] sync.hyps(2) row_says_resume[OF v(2)] by auto
    moreover have "v \<le> Max (set (v # us))" by simp
    ultimately show ?thesis using v(1) by (meson order.trans)
  qed
next
  case (other st st1 st2)
  then show ?case by (simp add: row_says_def)
qed auto

text \<open>C39: a message that fails to index is lost when a later one succeeds: if one completed sync failed on the message with UID \<open>u\<close>
  and indexed one with a higher UID, then for as long as the mailbox keeps its UIDVALIDITY, whatever happens between,
  every later sync asks the server for a range that starts above \<open>u\<close> (or at 0, past the last of the 32-bit UIDs):
  what the server would answer for any other range makes no difference.\<close>

theorem sync_loses_failed:
  assumes sync: "sync_folder w lib now clock folder fetch validity st = (Inr (), st')"
  defines "outs \<equiv> sync_outcomes (handle_message w lib now clock folder validity)
      (fst (fetch (row_resume (db_tabs (fst st)) folder validity + 1))) (snd (get_mailbox_state folder (fst st)), snd st)"
  assumes lost: "(u, False) \<in> set outs" and indexed: "(u', True) \<in> set outs" and above: "u < u'"
    and later: "later w lib folder validity st' st2"
    and same_above: "\<forall>n. n = 0 \<or> u < n \<longrightarrow> fetch1 n = fetch2 n"
  shows "sync_folder w lib now2 clock2 folder fetch1 validity st2 = sync_folder w lib now2 clock2 folder fetch2 validity st2"
proof (rule sync_folder_asks)
  have "u' \<in> set (indexed_uids outs)" using indexed by (force simp: indexed_uids_def)
  moreover obtain us where "us = indexed_uids outs" by blast
  ultimately have "u' \<le> Max (set (row_resume (db_tabs (fst st)) folder validity # indexed_uids outs))" by simp
  then obtain v where v: "u' \<le> v" "row_says (db_tabs (fst st2)) folder validity v"
    using later_above[OF later sync_folder_Inr(1)[OF sync]] unfolding outs_def by (meson order.trans)
  then have resume: "row_resume (db_tabs (fst st2)) folder validity = v" by (simp add: row_says_resume)
  have "v + 1 = 0 \<or> u < v + 1"
  proof (cases "v + 1 = 0")
    case False
    then have "v < v + 1" using unatSuc[of v] by (simp add: word_less_nat_alt add.commute)
    then show ?thesis using above v(1) by (meson order.strict_trans order.strict_trans1)
  qed simp
  then show "fetch1 (row_resume (db_tabs (fst st2)) folder validity + 1) = fetch2 (row_resume (db_tabs (fst st2)) folder validity + 1)"
    using same_above[rule_format, of "v + 1"] resume by simp
qed

section \<open>A folder in which a message fails\<close>

text \<open>
  The folder has message 1, whose body is empty, and message 2, which is already stored. Like an IMAP server, \<open>demo_fetch\<close> answers
  a range that starts beyond the last message with that message.
\<close>

definition demo_items :: "fetched list" where
  "demo_items = [Collected \<lparr> bf_uid = 1, bf_message_id = Some ''lost@x'', bf_raw = [], bf_size = 0 \<rparr>,
     Collected \<lparr> bf_uid = 2, bf_message_id = Some ''m@x'', bf_raw = ''raw'', bf_size = 3 \<rparr>]"

definition demo_fetch :: "32 word \<Rightarrow> fetched list \<times> err option" where
  "demo_fetch start = (filter (\<lambda>f. case f of Collected b \<Rightarrow> min start 2 \<le> bf_uid b | Broken e \<Rightarrow> True) demo_items, None)"

definition demo_sync :: "mail_state \<Rightarrow> (err + unit) \<times> mail_state" where
  "demo_sync = sync_folder demo_world demo_lib 9 0 ''IN'' demo_fetch 3"

definition demo_start :: mail_state where
  "demo_start = (demo_inserted, None)"

lemma demo_sync_run:
  "fst (demo_sync demo_start) = Inr ()"
  "row_resume (db_tabs (fst demo_start)) ''IN'' 3 = 0"
  "sync_outcomes (handle_message demo_world demo_lib 9 0 ''IN'' 3) (fst (demo_fetch 1)) (snd (get_mailbox_state ''IN'' (fst demo_start)), snd demo_start) =
     [(1, False), (2, True)]"
  by code_simp+

lemma demo_sync_done: "sync_folder demo_world demo_lib 9 0 ''IN'' demo_fetch 3 demo_start = (Inr (), snd (demo_sync demo_start))"
  using pair_of_fst[OF demo_sync_run(1)] by (simp add: demo_sync_def)

theorem sync_uid_bounds_witness:
  "row_says (db_tabs (fst (snd (demo_sync demo_start)))) ''IN'' 3 2 \<and> row_resume (db_tabs (fst demo_start)) ''IN'' 3 = 0"
proof -
  have "indexed_uids [(1, False), (2, True)] = [2]" by (simp add: indexed_uids_def)
  then show ?thesis using sync_uid_bounds[OF demo_sync_done] by (simp add: demo_sync_run)
qed

text \<open>After the sync, a server that still had message 1 would not be asked for it.\<close>

theorem sync_loses_failed_witness:
  "sync_folder demo_world demo_lib 10 0 ''IN'' (\<lambda>n. if n = 1 then (demo_items, None) else demo_fetch n) 3 (snd (demo_sync demo_start)) =
   sync_folder demo_world demo_lib 10 0 ''IN'' demo_fetch 3 (snd (demo_sync demo_start))"
  by (rule sync_loses_failed[OF demo_sync_done, of 1 2]) (simp_all add: demo_sync_run later.now)

theorem sync_keeps_attribution_witness:
  "attributed (db_tabs (fst (snd (demo_sync demo_start)))) \<and> map ms_grantee (t_messages (db_tabs demo_inserted)) = [None]"
proof -
  have g: "map ms_grantee (t_messages (db_tabs demo_inserted)) = [None]" by code_simp
  have "schema demo_world (db_tabs demo_inserted) (db_seqs demo_inserted)"
    using evolves_schema[OF insert_message_schema demo_mail_schema] by (simp add: demo_inserted_def)
  moreover have "attributed (db_tabs demo_inserted)"
  proof -
    have "map th_grantee (t_threads (db_tabs demo_inserted)) = [None]" by code_simp
    then show ?thesis by (auto simp: attributed_def) 
  qed
  ultimately show ?thesis
    using g sync_keeps_attribution[where w = demo_world and st = demo_start and lib = demo_lib and now = 9 and clock = 0
        and folder = "''IN''" and fetch = demo_fetch and validity = 3]
    by (auto simp: demo_sync_def demo_start_def split: prod.splits)
qed

end
