(* ===== verification/System.thy ===== *)
theory System
  imports ApprovalHttp Mailbox McpServer AdminCli
begin

text \<open>
  The deployed system: the processes of the backend on their one database. A \<open>happening\<close> is what reaches the system from outside:
  a tool call of the agent, an HTTP request at the approval service, a cycle of the Drive sync, a session of the mail indexer, an
  administration command, or a disturbance that sets the faults the next statements meet. \<open>happen\<close> is what it does to the
  database and the attachment store, with the definitions of the components; \<open>run_system\<close> is a history of happenings.

  The locale \<open>system_evolution\<close> collects the store operations that write. Every happening satisfies each relation on
  the tables that these operations satisfy, so an invariant of the whole system is one interpretation. Main results:
  \<open>system_invariant\<close>, \<open>system_history\<close> and \<open>privileged_needs_authority\<close>. A happening is one step here; how the statements
  of concurrent approvals and of concurrent mail workers interleave is the subject of \<open>ApprovalRace\<close> and \<open>IndexRace\<close>.
\<close>

section \<open>Happenings\<close>

datatype admin =
    AddUser string string            \<comment> \<open>\<open>approve-user add\<close>: email and key file\<close>
  | RemoveUser string
  | ListUsers
  | SeedUser                         \<comment> \<open>the end of \<open>migrate up\<close>\<close>
  | CreateGrantee string string
  | ShowGrantees
  | SetStatus string string
  | MapEmail bool string string
  | Authorize string string string string
  | Revoke string string string

definition quietly :: "'a dbm \<Rightarrow> unit dbm" where
  "quietly m = bindE m (\<lambda>_. ret ())"

fun run_admin :: "world \<Rightarrow> host \<Rightarrow> int \<Rightarrow> admin \<Rightarrow> unit dbm" where
  "run_admin w h now (AddUser e k) = quietly (approve_user_add w h now e k)"
| "run_admin w h now (RemoveUser e) = quietly (approve_user_remove w h e)"
| "run_admin w h now ListUsers = quietly (approve_user_list w h)"
| "run_admin w h now SeedUser = quietly (bootstrap_approval_user w h now)"
| "run_admin w h now (CreateGrantee g n) = quietly (grantee_create w h now g n)"
| "run_admin w h now ShowGrantees = quietly (grantee_list w h)"
| "run_admin w h now (SetStatus st g) = quietly (grantee_status w h st g)"
| "run_admin w h now (MapEmail b g e) = quietly (grantee_email w h now b g e)"
| "run_admin w h now (Authorize ty g n d) = quietly (authorize_source w h now ty g n d)"
| "run_admin w h now (Revoke ty g d) = quietly (revoke_source w h ty g d)"

datatype happening =
    ToolCalled int "(string \<Rightarrow> err + drive_file) option" tool_call
  | Requested int "string list" string "string option"    \<comment> \<open>path segments, query and, for a POST, the body\<close>
  | DriveSynced int gotime drive nat
  | MailIndexed mail_lib int gotime string session nat
  | Commanded host int admin
  | Disturbed "fault option list"

fun happen :: "world \<Rightarrow> happening \<Rightarrow> mail_state \<Rightarrow> mail_state" where
  "happen w (ToolCalled now drv c) st = (snd (call_tool w now drv c (fst st)), snd st)"
| "happen w (Requested now segs query post) st =
     (snd (approval_mux w (dispatch (service_registry w now)) now segs query post (fst st)), snd st)"
| "happen w (DriveSynced now finish d fuel) st = (snd (run_sync w now finish d fuel (fst st)), snd st)"
| "happen w (MailIndexed lib now clock folder se fuel) st = snd (run_once w lib now clock folder se fuel st)"
| "happen w (Commanded h now a) st = (snd (run_admin w h now a (fst st)), snd st)"
| "happen w (Disturbed fs) st = ((fst st)\<lparr>db_faults := fs\<rparr>, snd st)"

fun run_system :: "world \<Rightarrow> happening list \<Rightarrow> mail_state \<Rightarrow> mail_state" where
  "run_system w [] st = st"
| "run_system w (e # es) st = run_system w es (happen w e st)"

section \<open>What a happening can do\<close>

context index_evolution begin

lemma ev_session_loop:
  assumes "\<And>k st. R (snap (fst st)) (snap (fst (snd (syn k st))))"
  shows "R (snap (fst st)) (snap (fst (snd (session_loop syn se n k st))))"
proof (induction n arbitrary: k st)
  case (Suc n)
  obtain r st' where s: "syn (k + 1) st = (r, st')" by (cases "syn (k + 1) st")
  have one: "R (snap (fst st)) (snap (fst st'))" using assms[of st "k + 1"] s by simp
  show ?case using s one stay Suc.IH[of st "k + 1"] trans[OF one Suc.IH[of st' "k + 1"]]
    by (auto split: sum.split bool.split)
qed (simp add: stay)

lemma ev_run_once: "R (snap (fst st)) (snap (fst (snd (run_once w lib now clock folder se fuel st))))"
proof -
  let ?syn = "\<lambda>v k. sync_folder w lib now clock folder (se_fetch se k) v"
  have go: "R (snap (fst st)) (snap (fst (snd (case ?syn v 0 st of
      (Inl e, st') \<Rightarrow> (Some (Inl (ErrWrap ''initial sync: '' e [])), st') | (Inr x, st') \<Rightarrow> session_loop (?syn v) se fuel 0 st'))))" for v
  proof -
    obtain r st' where s: "?syn v 0 st = (r, st')" by (cases "?syn v 0 st")
    have one: "R (snap (fst st)) (snap (fst st'))" using ev_sync_folder[of st] s by (metis snd_conv)
    show ?thesis using s one trans[OF one ev_session_loop[OF ev_sync_folder]] by (cases r) simp_all
  qed
  show ?thesis unfolding run_once_def Let_def using go stay by (auto split: option.split sum.split)
qed

end

context evolution begin

lemma ev_quietly: "evolves R m \<Longrightarrow> evolves R (quietly m)"
  unfolding quietly_def by (intro ev_bindE ev_ret)

lemma ev_with_store: "(\<And>cfg. evolves R (m cfg)) \<Longrightarrow> evolves R (with_store w h m)"
  unfolding with_store_def by (auto split: sum.split option.split intro: ev_fail)

lemma ev_approval_mux:
  assumes "\<And>raw_id raw. evolves R (approve_action w run now raw_id raw)"
  shows "evolves R (approval_mux w run now segs query post)"
  unfolding approval_mux_def Let_def json_reply_def list_actions_handler_def get_action_handler_def get_approval_user_handler_def
    get_action_def get_approval_user_def list_actions_by_status_def write_error_def
  by (intro ev_case_list ev_if ev_bindE ev_ret ev_case_prod ev_case_option ev_tryE ev_case_sum ev_wrapE ev_pg_row ev_pg_read
      ev_fail assms)

text \<open>Every request but an approval only reads.\<close>

lemma ev_mux_reads:
  assumes "\<And>raw_id raw. post = Some raw \<Longrightarrow> segs = [''actions'', raw_id, ''approve''] \<Longrightarrow>
      R (snap s) (snap (snd (approve_action w run now raw_id raw s)))"
  shows "R (snap s) (snap (snd (approval_mux w run now segs query post s)))"
proof (cases "\<exists>raw_id raw. post = Some raw \<and> segs = [''actions'', raw_id, ''approve''] \<and> raw_id \<noteq> []")
  case True
  then obtain raw_id raw where r: "post = Some raw" "segs = [''actions'', raw_id, ''approve'']" "raw_id \<noteq> []" by blast
  have "snd (approval_mux w run now segs query post s) = snd (approve_action w run now raw_id raw s)"
    using r by (auto simp: approval_mux_def Let_def json_reply_def bindE_eq split: prod.splits sum.splits)
  then show ?thesis using assms[OF r(1,2)] by simp
next
  case False
  have "evolves R (approval_mux w run now segs query post)"
  proof (cases "\<exists>a x b. segs = [a, x, b]")
    case True
    then obtain a x b where segs: "segs = [a, x, b]" by blast
    then have "\<not> (x \<noteq> [] \<and> a = ''actions'' \<and> b = ''approve'' \<and> post \<noteq> None)" using False by auto
    then show ?thesis unfolding segs approval_mux_def Let_def by (cases post) (auto simp: ev_ret)
  next
    case no: False
    have short: "evolves R (approval_mux w run now [a] query post)" "evolves R (approval_mux w run now [a, x] query post)" for a x
      unfolding approval_mux_def Let_def json_reply_def list_actions_handler_def get_action_handler_def
        get_approval_user_handler_def get_action_def get_approval_user_def list_actions_by_status_def write_error_def list.case
      by (intro ev_if ev_bindE ev_ret ev_case_prod ev_case_option ev_tryE ev_case_sum ev_wrapE ev_pg_row ev_pg_read)+
    consider "segs = []" | a where "segs = [a]" | a x where "segs = [a, x]" | a x b c more where "segs = a # x # b # c # more"
      using no by (metis neq_Nil_conv)
    then show ?thesis by cases (use short in \<open>simp_all add: approval_mux_def ev_ret\<close>)
  qed
  then show ?thesis by (simp add: evolves_def)
qed

end

text \<open>The store operations that write, apart from those of indexing.\<close>

locale system_evolution = index_evolution R for R :: "snapshot \<Rightarrow> snapshot \<Rightarrow> bool" +
  fixes w :: world
  assumes enqueue: "evolves R (enqueue_action w now action args meta by)"
    and noted: "evolves R (mcp_create_note now inp)"
    and marks: "evolves R (mark_action_executed now i by)" "evolves R (mark_action_failed now i by msg)"
    and grantees: "evolves R (ensure_grantee now g)" "evolves R (set_grantee_status gid status)"
    and emails: "evolves R (add_grantee_email w gid email)" "evolves R (remove_grantee_email w gid email)"
    and sources: "evolves R (upsert_source now src)" "evolves R (delete_source gid drive)"
    and users: "evolves R (upsert_approval_user w now email key fp)" "evolves R (remove_approval_user w email)"
    and documents: "evolves R (upsert_doc w now d cycle)" "evolves R (touch_doc_seen now did cycle)"
      "evolves R (mark_doc_stale did msg)" "evolves R (mark_doc_error did msg)" "evolves R (mark_unseen_stale cycle)"
    and cycles: "evolves R next_cycle_id" "evolves R (set_last_successful_sync time)"
begin

lemma ev_approve: "evolves R (approve_action w (dispatch (service_registry w now)) now raw_id raw)"
  by (intro approve_evolves evolution_axioms)
    (unfold run_and_record_def write_error_def, intro ev_tryE ev_case_sum ev_ret marks ev_handler grantees users sources emails)

lemma ev_run_sync: "evolves R (run_sync w now finish d fuel)"
  unfolding run_sync_def list_active_grantees_def
  by (intro ev_bindE ev_wrapE ev_case_prod ev_case_option ev_case_sum ev_ret ev_fail ev_pg_read ev_sync_grantees ev_sync_grantee
      ev_process_doc documents cycles)

lemma ev_grantee_rows: "evolves R (grantee_rows gs)"
  by (induction gs; unfold grantee_rows.simps list_sources_for_grantee_def; intro ev_ret ev_bindE ev_pg_read)

lemma ev_admin: "evolves R (run_admin w h now a)"
proof (cases a)
  case (AddUser e k)
  show ?thesis unfolding AddUser run_admin.simps approve_user_add_def Let_def
    by (intro ev_quietly ev_if ev_fail ev_case_sum ev_with_store ev_bindE ev_ret users)
next
  case (RemoveUser e)
  show ?thesis unfolding RemoveUser run_admin.simps approve_user_remove_def Let_def
    by (intro ev_quietly ev_if ev_fail ev_with_store ev_bindE ev_ret users)
next
  case ListUsers
  show ?thesis unfolding ListUsers run_admin.simps approve_user_list_def list_approval_users_def
    by (intro ev_quietly ev_with_store ev_bindE ev_ret ev_pg_read)
next
  case SeedUser
  show ?thesis unfolding SeedUser run_admin.simps bootstrap_approval_user_def Let_def
    by (intro ev_quietly ev_case_sum ev_if ev_fail ev_bindE ev_wrapE ev_ret users)
next
  case (CreateGrantee g n)
  show ?thesis unfolding CreateGrantee run_admin.simps grantee_create_def Let_def
    by (intro ev_quietly ev_if ev_fail ev_with_store ev_bindE ev_ret grantees)
next
  case ShowGrantees
  show ?thesis unfolding ShowGrantees run_admin.simps grantee_list_def list_grantees_def
    by (intro ev_quietly ev_with_store ev_bindE ev_ret ev_pg_read ev_grantee_rows)
next
  case (SetStatus st g)
  show ?thesis unfolding SetStatus run_admin.simps grantee_status_def Let_def
    by (intro ev_quietly ev_if ev_fail ev_with_store ev_bindE ev_wrapE ev_ret grantees)
next
  case (MapEmail b g e)
  show ?thesis unfolding MapEmail run_admin.simps grantee_email_def Let_def
    by (intro ev_quietly ev_if ev_fail ev_with_store ev_bindE ev_wrapE ev_ret grantees emails)
next
  case (Authorize ty g n d)
  show ?thesis unfolding Authorize run_admin.simps authorize_source_def Let_def
    by (intro ev_quietly ev_if ev_fail ev_with_store ev_bindE ev_wrapE ev_ret grantees sources)
next
  case (Revoke ty g d)
  show ?thesis unfolding Revoke run_admin.simps revoke_source_def Let_def
    by (intro ev_quietly ev_if ev_fail ev_with_store ev_bindE ev_wrapE ev_ret sources)
qed

lemma ev_happen: "R (snap (fst st)) (snap (fst (happen w e st)))"
proof (cases e)
  case (ToolCalled now drv c)
  then show ?thesis using ev_call_tool[of w now drv c, OF enqueue noted] by (simp add: evolves_def)
next
  case (Requested now segs query post)
  then show ?thesis using ev_approval_mux[OF ev_approve, of now segs query post] by (simp add: evolves_def)
next
  case (DriveSynced now finish d fuel)
  then show ?thesis using ev_run_sync[of now finish d fuel] by (simp add: evolves_def)
next
  case (MailIndexed lib now clock folder se fuel)
  then show ?thesis using ev_run_once by simp
next
  case (Commanded h now a)
  then show ?thesis using ev_admin[of h now a] by (simp add: evolves_def)
next
  case (Disturbed fs)
  then show ?thesis by (simp add: stay)
qed

lemma ev_run_system: "R (snap (fst st)) (snap (fst (run_system w es st)))"
proof (induction es arbitrary: st)
  case (Cons e es)
  then show ?case using trans[OF ev_happen, of e st] by simp
qed (simp add: stay)

end

section \<open>The relations of the system\<close>

text \<open>Everything but mail, documents and the states of the two synchronisations.\<close>

definition desk :: "tables \<Rightarrow> grantee_row list \<times> email_row list \<times> source_row list \<times> user_row list \<times> action_row list \<times> note_row list" where
  "desk t = (t_grantees t, t_emails t, t_sources t, t_users t, t_actions t, t_notes t)"

lemma same_part: "evolves (same v) m \<Longrightarrow> (\<And>t. u t = f (v t)) \<Longrightarrow> evolves (same u) m"
  by (simp add: evolves_def same_def)

interpretation mail_desk: mail_evolution "same desk"
proof
  show "evolves (same desk) (create_thread root subj g time)" for root subj g time
    unfolding create_thread_def by (rule same_pg) (auto simp: thread_insert_sql_def Let_def desk_def split: if_splits)
  show "evolves (same desk) (set_thread_grantee i g)" for i g
    unfolding set_thread_grantee_def
    by (intro same.ev_in_tx same.ev_bindE same_pg_modify) (auto simp: desk_def claim_thread_def claim_messages_def dest!: with_grantee_Inr)
  show "evolves (same desk) (touch_thread i time)" for i time
    unfolding touch_thread_def by (rule same_pg_modify) (auto simp: desk_def)
  show "evolves (same desk) (save_mailbox_state now mx)" for now mx
    unfolding save_mailbox_state_def Let_def by (rule same_pg_modify) (auto simp: desk_def)
  have "evolves (same desk) (insert_reference i ref)" for i ref
    unfolding insert_reference_def by (intro same.ev_if same.ev_ret same_pg_modify) (auto simp: desk_def with_message_def split: if_splits)
  moreover have "evolves (same desk) (insert_recipient w i kind a)" for w i kind a
    unfolding insert_recipient_def Let_def
    by (intro same.ev_if same.ev_ret same_pg_modify) (auto simp: desk_def with_message_def split: if_splits)
  moreover have "evolves (same desk) (insert_attachment i a)" for i a
    unfolding insert_attachment_def Let_def
    by (intro same.ev_wrapE same_pg) (auto simp: attachment_insert_sql_def Let_def desk_def with_message_def split: if_splits)
  ultimately show "evolves (same desk) (insert_message w now m)" for w now m
    unfolding insert_message_def insert_children_def Let_def
    by (intro same.ev_in_tx same.ev_tryE same.ev_case_sum same.ev_if same.ev_bindE same.ev_pg_row same.ev_fail same.ev_ret
        same.ev_for_each same_pg) (auto simp: message_insert_sql_def Let_def desk_def split: if_splits)
qed

lemma assign_mail:
  "mail_grows (t, q) (assign_threads w g e t, q)" "mail_grows (t, q) (assign_messages g t, q)"
  by (auto simp: mail_grows_def assign_threads_def assign_messages_def grows_refl thread_kept_def message_kept_def intro!: grows_update)

lemma add_grantee_email_mail: "evolves mail_grows (add_grantee_email w g e)"
  unfolding add_grantee_email_def Let_def
  by (intro mail.ev_if mail.ev_fail mail.ev_in_tx mail.ev_bindE mail_pg_modify)
    (auto dest!: with_grantee_Inr intro: assign_mail mail_grows_same split: if_splits)

text \<open>Operations at the desk, and those on documents, leave mail alone.\<close>

lemma desk_same_mail:
  "evolves (same mail_view) (ensure_grantee now g)" "evolves (same mail_view) (set_grantee_status gid st)"
  "evolves (same mail_view) (remove_grantee_email w gid email)" "evolves (same mail_view) (upsert_source now src)"
  "evolves (same mail_view) (delete_source gid drive)" "evolves (same mail_view) (upsert_approval_user w now em key fp)"
  "evolves (same mail_view) (remove_approval_user w em)" "evolves (same mail_view) (mark_action_executed now i by)"
  "evolves (same mail_view) (mark_action_failed now i by msg)"
  unfolding ensure_grantee_def put_grantee_def set_grantee_status_def remove_grantee_email_def upsert_source_def delete_source_def
    upsert_approval_user_def remove_approval_user_def mark_action_executed_def mark_action_failed_def mark_sql_def Let_def require_one_row_def
  by (intro same.ev_if same.ev_fail same.ev_ret same.ev_bindE same_pg_modify same_pg;
      auto simp: upsert_source_sql_def Let_def split: if_splits option.splits)+

lemma docs_same_mail: "evolves (same but_docs) m \<Longrightarrow> evolves (same mail_view) m"
  by (erule same_part[where f = mail_view]) (simp add: but_docs_def)

lemma queues_same_mail: "evolves queues m \<Longrightarrow> evolves (same mail_view) m"
proof -
  have "same mail_view p p'" if "queues p p'" for p p'
  proof -
    from that have "corpus (fst p') = corpus (fst p)" by (simp add: queues_def)
    from arg_cong[OF this, of "\<lambda>t. mail_view t"] show ?thesis by (simp add: corpus_def same_def)
  qed
  then show "evolves queues m \<Longrightarrow> evolves (same mail_view) m" unfolding evolves_def by blast
qed

interpretation mail_system: system_evolution mail_grows w for w
  by unfold_locales
    (rule same_mail, rule queues_same_mail, rule enqueue_queues mcp_create_note_queues
     | rule same_mail, rule desk_same_mail
     | rule add_grantee_email_mail
     | rule same_mail, rule docs_same_mail, rule doc_ops_apart)+

lemma desk_same_actions: "evolves (same desk) m \<Longrightarrow> evolves (same t_actions) m"
  by (erule same_part[where f = "\<lambda>(g, e, s, u, a, n). a"]) (simp add: desk_def)

lemma docs_same_actions: "evolves (same but_docs) m \<Longrightarrow> evolves (same t_actions) m"
  by (erule same_part[where f = t_actions]) simp

lemma queues_grow: "evolves queues m \<Longrightarrow> evolves actions_grow m"
proof -
  have "actions_grow p p'" if "queues p p'" for p p'
    using that list_all2_refl[of action_le "t_actions (fst p)"] by (auto simp: queues_def actions_grow_def)
  then show "evolves queues m \<Longrightarrow> evolves actions_grow m" by (simp add: evolves_def)
qed

interpretation actions_system: system_evolution actions_grow w for w
  by unfold_locales
    (rule evolves_same_grow, rule desk_same_actions, rule mail_desk.ev_index_parsed mail_desk.save_state
     | rule queues_grow, rule enqueue_queues mcp_create_note_queues
     | rule mark_action_executed_grow mark_action_failed_grow
     | rule evolves_same_grow, rule grantee_ops_same_actions user_ops_same_actions
     | rule evolves_same_grow, rule docs_same_actions, rule doc_ops_apart)+

text \<open>Schema, attribution of mail, and notes superseding within a grantee, as one relation.\<close>

lemma mem_update_where: "x \<in> set (update_where P f rs) \<Longrightarrow> \<exists>y \<in> set rs. x = (if P y then f y else y)"
  by (auto simp: update_where_def)

lemma claim_email_attributed:
  assumes "attributed t"
  shows "attributed (claim_email w g e t)"
  unfolding attributed_def
proof (intro ballI impI)
  let ?t = "t\<lparr>t_emails := upsert_by (\<lambda>r. citext_key w (em_email r)) (\<lambda>r. r\<lparr>em_grantee := g\<rparr>) \<lparr> em_email = e, em_grantee = g \<rparr> (t_emails t)\<rparr>"
  let ?u = "assign_threads w g e ?t"
  fix r' m'
  assume "r' \<in> set (t_threads (claim_email w g e t))" and r': "th_grantee r' \<noteq> None"
    and m': "m' \<in> set (t_messages (claim_email w g e t))" and th: "ms_thread m' = th_id r'"
  then have u: "r' \<in> set (t_threads ?u)" by (simp add: claim_email_def assign_messages_def)
  have msgs: "t_messages ?u = t_messages t" by (simp add: assign_threads_def)
  let ?P = "\<lambda>m. ms_grantee m = None \<and> (\<exists>r \<in> set (t_threads ?u). th_id r = ms_thread m \<and> th_grantee r = Some g)"
  have "t_messages (claim_email w g e t) = update_where ?P (\<lambda>m. m\<lparr>ms_grantee := Some g\<rparr>) (t_messages t)"
    unfolding claim_email_def assign_messages_def[of g ?u] msgs by simp
  then have "m' \<in> set (update_where ?P (\<lambda>m. m\<lparr>ms_grantee := Some g\<rparr>) (t_messages t))" using m' by simp
  from mem_update_where[OF this] obtain m where m: "m \<in> set (t_messages t)"
    and up: "m' = (if ?P m then m\<lparr>ms_grantee := Some g\<rparr> else m)" ..
  have mt: "ms_thread m = th_id r'" using th unfolding up by (cases "?P m") simp_all
  show "ms_grantee m' \<noteq> None"
  proof (cases "th_grantee r' = Some g")
    case True
    then have "\<exists>r \<in> set (t_threads ?u). th_id r = ms_thread m \<and> th_grantee r = Some g" using u mt by metis
    then show ?thesis unfolding up by simp
  next
    case False
    then have "r' \<in> set (t_threads t)" using u by (auto simp: assign_threads_def update_where_def split: if_splits)
    then have "ms_grantee m \<noteq> None" using assms r' m mt by (auto simp: attributed_def)
    then show ?thesis unfolding up by simp
  qed
qed

lemma add_grantee_email_attr: "evolves (attr_step w) (add_grantee_email w g e)"
proof (rule evolves_attr[OF add_grantee_email_schema])
  fix s r s' assume run: "add_grantee_email w g e s = (r, s')" and a: "attributed (db_tabs s)"
  show "attributed (db_tabs s')"
  proof (cases r)
    case (Inl x)
    then have "db_tabs s' = db_tabs s" using run by (auto simp: add_grantee_email_def Let_def split: if_splits dest: in_tx_error)
    with a show ?thesis by simp
  next
    case (Inr x)
    then have "db_tabs s' = claim_email w g (to_lower w (trim_space e)) (db_tabs s)"
      using run by (auto simp: claim_email_def elim!: add_grantee_email_ok)
    then show ?thesis using claim_email_attributed[OF a] by simp
  qed
qed

lemma same_mail_attr: "evolves (schema_step w) m \<Longrightarrow> evolves (same mail_view) m \<Longrightarrow> evolves (attr_step w) m"
  by (rule evolves_attr, assumption) (auto simp: attributed_def dest: evolvesD simp: same_def snap_def)

lemma mcp_create_note_schema: "evolves (schema_step w) (mcp_create_note now inp)"
  unfolding mcp_create_note_def Let_def by (intro create_note_schema schema.ev_reads)

lemmas store_schema = enqueue_action_schema mcp_create_note_schema mark_action_schema ensure_grantee_schema set_grantee_status_schema
  remove_grantee_email_schema upsert_source_schema delete_source_schema approval_user_schema doc_ops_schema sync_ops_schema

interpretation attr_system: system_evolution "attr_step w" w for w
  by unfold_locales
    (rule same_mail_attr, rule store_schema, rule queues_same_mail, rule enqueue_queues mcp_create_note_queues
     | rule same_mail_attr, rule store_schema, rule desk_same_mail
     | rule add_grantee_email_attr
     | rule same_mail_attr, rule store_schema, rule docs_same_mail, rule doc_ops_apart)+

lemma same_notes: "evolves (same t_notes) m \<Longrightarrow> evolves (keeping notes_within) m"
  by (simp add: evolves_def same_def keeping_def notes_within_def)

lemma desk_same_notes:
  "evolves (same t_notes) (enqueue_action w now action args meta by)" "evolves (same t_notes) (mark_action_executed now i by)"
  "evolves (same t_notes) (mark_action_failed now i by msg)" "evolves (same t_notes) (ensure_grantee now g)"
  "evolves (same t_notes) (set_grantee_status gid st)" "evolves (same t_notes) (add_grantee_email w gid email)"
  "evolves (same t_notes) (remove_grantee_email w gid email)" "evolves (same t_notes) (upsert_source now src)"
  "evolves (same t_notes) (delete_source gid drive)" "evolves (same t_notes) (upsert_approval_user w now em key fp)"
  "evolves (same t_notes) (remove_approval_user w em)"
  unfolding enqueue_action_def ensure_grantee_def put_grantee_def set_grantee_status_def add_grantee_email_def remove_grantee_email_def
    upsert_source_def delete_source_def upsert_approval_user_def remove_approval_user_def mark_action_executed_def
    mark_action_failed_def mark_sql_def Let_def require_one_row_def
  by (intro same.ev_if same.ev_fail same.ev_ret same.ev_bindE same.ev_in_tx same_pg_modify same_pg;
      auto simp: enqueue_sql_def assign_threads_def assign_messages_def upsert_source_sql_def Let_def
        split: if_splits option.splits dest!: with_grantee_Inr)+

lemma mail_same_notes: "evolves (same desk) m \<Longrightarrow> evolves (same t_notes) m"
  by (erule same_part[where f = "\<lambda>(g, e, s, u, a, n). n"]) (simp add: desk_def)

lemma docs_same_notes: "evolves (same but_docs) m \<Longrightarrow> evolves (same t_notes) m"
  by (erule same_part[where f = t_notes]) simp

lemma mcp_create_note_keeps: "evolves (keeping notes_within) (mcp_create_note now inp)"
  using mcp_create_note_within by (simp add: evolves_def keeping_def snap_def)

interpretation notes_system: system_evolution "keeping notes_within" w for w
  by unfold_locales
    (rule same_notes, rule mail_same_notes, rule mail_desk.ev_index_parsed mail_desk.save_state
     | rule mcp_create_note_keeps
     | rule same_notes, rule desk_same_notes
     | rule same_notes, rule docs_same_notes, rule doc_ops_apart)+

section \<open>What holds of every history\<close>

text \<open>C4: the invariants of the database survive every history of the system: whatever tools the agent calls, requests arrive, cycles
  and mail sessions run, commands are given and statements fail, in any order, the constraints of the schema hold, no
  message of an attributed thread is left unattributed, and no note supersedes another grantee's. Each happening of a
  history, a whole session of the mail indexer or a whole sync cycle too, is one step here: histories order the
  happenings, they do not interleave their statements. The attribution depends on this: when the workers of
  \<open>index-mail\<close> interleave, it is lost (\<open>workers_lose_attribution\<close> of IndexRace).\<close>

theorem system_invariant:
  assumes "schema w (db_tabs (fst st)) (db_seqs (fst st))" and "attributed (db_tabs (fst st))" and "notes_within (db_tabs (fst st))"
  shows "case fst (run_system w es st) of s' \<Rightarrow>
    schema w (db_tabs s') (db_seqs s') \<and> attributed (db_tabs s') \<and> notes_within (db_tabs s')"
  using attr_system.ev_run_system[of w st es] notes_system.ev_run_system[of st w es] assms
  by (auto simp: attr_step_def schema_step_def keeping_def snap_def)

text \<open>C5: nothing is rewritten: over every history of the system, actions are only added to the queue, an undecided one changes only by
  being decided, and a decided one never changes; threads, messages, recipients, references and attachments are only added,
  and an attribution once made stays. (Happenings are single steps, as in \<open>system_invariant\<close>.)\<close>

theorem system_history:
  "actions_grow (snap (fst st)) (snap (fst (run_system w es st))) \<and> mail_grows (snap (fst st)) (snap (fst (run_system w es st)))"
  using actions_system.ev_run_system mail_system.ev_run_system by blast

section \<open>Who may change what matters\<close>

text \<open>The tables that decide what is ingested, for whom, and who approves.\<close>

definition privileged :: "tables \<Rightarrow> grantee_row list \<times> email_row list \<times> source_row list \<times> user_row list" where
  "privileged t = (t_grantees t, t_emails t, t_sources t, t_users t)"

text \<open>A happening with authority: an administrator's command, or an approval that a registered operator signed for a pending action.\<close>

definition authority :: "world \<Rightarrow> tables \<Rightarrow> happening \<Rightarrow> bool" where
  "authority w t e \<longleftrightarrow>
     (case e of
        Commanded h now a \<Rightarrow> True
      | Requested now segs query (Some raw) \<Rightarrow>
          (\<exists>raw_id i req. segs = [''actions'', raw_id, ''approve''] \<and> parse_id raw_id = Some i \<and> decode_approve raw = Some req \<and>
             authorized w t i (rq_email req) (rq_signature req))
      | _ \<Rightarrow> False)"

lemma queues_same_privileged: "evolves queues m \<Longrightarrow> evolves (same privileged) m"
proof -
  have "same privileged p p'" if "queues p p'" for p p'
  proof -
    from that have "corpus (fst p') = corpus (fst p)" by (simp add: queues_def)
    from arg_cong[OF this, of privileged] show ?thesis by (simp add: corpus_def same_def privileged_def)
  qed
  then show "evolves queues m \<Longrightarrow> evolves (same privileged) m" unfolding evolves_def by blast
qed

text \<open>An approve request that changes a table carries a valid signature.\<close>

lemma approve_changes_signed:
  assumes "db_tabs (snd (approve_action w run now raw_id raw s)) \<noteq> db_tabs s"
  shows "\<exists>i req. parse_id raw_id = Some i \<and> decode_approve raw = Some req \<and> authorized w (db_tabs s) i (rq_email req) (rq_signature req)"
proof (rule approve_cases[of w raw_id raw s run now])
  fix st b s1 assume "approve_action w run now raw_id raw s = (Inr (st, b), s1)" "db_tabs s1 = db_tabs s"
  with assms show ?thesis by simp
next
  fix a email s1 assume "check_request w raw_id raw s = (Inr (Inr (a, email)), s1)"
  then show ?thesis by (rule check_request_ok) auto
qed

lemma desk_same_privileged: "evolves (same desk) m \<Longrightarrow> evolves (same privileged) m"
  by (erule same_part[where f = "\<lambda>(g, e, s, u, a, n). (g, e, s, u)"]) (simp add: desk_def privileged_def)

interpretation mail_privileged: index_evolution "same privileged"
  by unfold_locales (rule desk_same_privileged, rule mail_desk.ev_index_parsed mail_desk.save_state)+

lemma happen_unprivileged:
  assumes "\<not> authority w (db_tabs (fst st)) e"
  shows "privileged (db_tabs (fst (happen w e st))) = privileged (db_tabs (fst st))"
proof (cases e)
  case (ToolCalled now drv c)
  then show ?thesis using evolves_same[OF queues_same_privileged[OF call_tool_queues]] by simp
next
  case (Requested now segs query post)
  have "same privileged (snap (fst st)) (snap (snd (approval_mux w (dispatch (service_registry w now)) now segs query post (fst st))))"
  proof (rule same.ev_mux_reads)
    fix raw_id raw assume r: "post = Some raw" "segs = [''actions'', raw_id, ''approve'']"
    have "db_tabs (snd (approve_action w (dispatch (service_registry w now)) now raw_id raw (fst st))) = db_tabs (fst st)"
    proof (rule ccontr)
      assume "db_tabs (snd (approve_action w (dispatch (service_registry w now)) now raw_id raw (fst st))) \<noteq> db_tabs (fst st)"
      from approve_changes_signed[OF this] have "authority w (db_tabs (fst st)) e"
        unfolding Requested r authority_def by simp
      with assms show False ..
    qed
    then show "same privileged (snap (fst st)) (snap (snd (approve_action w (dispatch (service_registry w now)) now raw_id raw (fst st))))"
      by (simp add: same_def snap_def)
  qed
  then show ?thesis using Requested by (simp add: same_def snap_def)
next
  case (DriveSynced now finish d fuel)
  have "evolves (same privileged) (run_sync w now finish d fuel)"
    by (rule same_part[OF run_sync_same, of privileged privileged]) (simp add: privileged_def)
  from evolves_same[OF this] show ?thesis using DriveSynced by simp
next
  case (MailIndexed lib now clock folder se fuel)
  then show ?thesis using mail_privileged.ev_run_once[of st w lib now clock folder se fuel] by (simp add: same_def snap_def)
next
  case (Commanded h now a)
  with assms show ?thesis by (simp add: authority_def)
next
  case (Disturbed fs)
  then show ?thesis by simp
qed

text \<open>C3: only authority changes what matters: if the grantees, the mapped emails, the Drive sources or the approval operators differ
  after a history, then one of its happenings was an administrator's command or an approve request signed by an operator who
  was registered at that time, over the payload of an action pending at that time. No tool call of the agent, no document or
  mail that comes in, and no failure does it. (Happenings are single steps, as in \<open>system_invariant\<close>.)\<close>

theorem privileged_needs_authority:
  assumes "privileged (db_tabs (fst (run_system w es st))) \<noteq> privileged (db_tabs (fst st))"
  shows "\<exists>before e after. es = before @ e # after \<and> authority w (db_tabs (fst (run_system w before st))) e"
  using assms
proof (induction es arbitrary: st)
  case (Cons e es)
  show ?case
  proof (cases "authority w (db_tabs (fst st)) e")
    case True
    then show ?thesis by (intro exI[of _ "[]"]) simp
  next
    case False
    then have "privileged (db_tabs (fst (run_system w es (happen w e st)))) \<noteq> privileged (db_tabs (fst (happen w e st)))"
      using Cons.prems happen_unprivileged by simp
    from Cons.IH[OF this] obtain before x after where "es = before @ x # after"
      "authority w (db_tabs (fst (run_system w before (happen w e st)))) x" by blast
    then show ?thesis by (intro exI[of _ "e # before"]) auto
  qed
qed simp

section \<open>Concrete histories\<close>

definition demo_history :: "happening list" where
  "demo_history = [Commanded demo_host 9 (Authorize ''folder'' ''ann'' [] ''F''), Disturbed [None, Some (DriverFault ''x'')],
     DriveSynced 9 9 demo_drive 3, ToolCalled 9 None (AddGranteeTool \<lparr> ig_slug = ''bob'', ig_name = [], ig_signal = [], ig_requested_by = [] \<rparr>)]"

theorem system_invariant_witness:
  "schema demo_world (db_tabs (fst (run_system demo_world demo_history (demo_db, None)))) (db_seqs (fst (run_system demo_world demo_history (demo_db, None))))"
proof -
  have a: "attributed (db_tabs (fst (demo_db, None :: cas option)))" by code_simp
  have n: "notes_within (db_tabs (fst (demo_db, None :: cas option)))" by code_simp
  have s: "schema demo_world (db_tabs (fst (demo_db, None :: cas option))) (db_seqs (fst (demo_db, None :: cas option)))"
    using demo_db_schema by simp
  from system_invariant[OF s a n] show ?thesis by simp
qed

text \<open>The signed approval of the pending action adds a grantee.\<close>

theorem privileged_needs_authority_witness:
  "authority demo_world (db_tabs demo_ready) (Requested 9 [''actions'', ''1'', ''approve''] [] (Some demo_body))"
proof -
  let ?e = "Requested 9 [''actions'', ''1'', ''approve''] [] (Some demo_body)" and ?run = "dispatch (service_registry demo_world 9)"
  obtain s' where s': "approve_action demo_world ?run 9 ''1'' demo_body demo_ready = (Inr (200, ApprovedBody 1 ''executed''), s')"
    using served_signature_approves[OF demo_case] by blast
  then have mux: "fst (run_system demo_world [?e] (demo_ready, None)) = s'"
    by (simp add: approval_mux_def Let_def json_reply_def bindE_eq)
  have utf8: "list_all valid_utf8 (request_texts (AddGrantee ''bob'' []))" by code_simp
  have "length (t_grantees (db_tabs s')) = 2" using s'
  proof (rule service.approve_ok)
    fix i email sig r s1 s2
    assume "parse_id ''1'' = Some i" "lookup_by ac_id i (t_actions (db_tabs demo_ready)) = Some r" and s1: "db_tabs s1 = db_tabs demo_ready"
      and run: "?run (ac_action r) (json_or_empty (ac_args r)) s1 = (Inr (), s2)"
      and t': "db_tabs s' = (db_tabs s2)\<lparr>t_actions := update_where (pending_row i) (executed_row 9 email) (t_actions (db_tabs demo_ready))\<rparr>"
    then have "r = demo_row" by (simp add: demo_parse_id demo_ready_simps)
    then have "perform demo_world 9 (AddGrantee ''bob'' []) s1 = (Inr (), s2)"
      using run demo_perform[OF utf8, of 9] demo_args(3) by (simp add: demo_ready_simps json_or_empty_def action_names)
    moreover have "trim_space ''bob'' = ''bob''" by code_simp
    ultimately have "ensure_grantee 9 (new_grantee ''bob'' []) s1 = (Inr (), s2)"
      by (simp add: new_grantee_def status_active_def)
    from ensure_grantee_ok[OF this] s1
    have "t_grantees (db_tabs s2) = upsert_by gr_id (\<lambda>r. r) (new_grantee_row 9 (new_grantee ''bob'' [])) (t_grantees (db_tabs demo_ready))"
      by simp
    then show ?thesis by (simp add: t' demo_ready_def demo_simps upsert_by_def new_grantee_row_def new_grantee_def)
  qed
  then have "privileged (db_tabs (fst (run_system demo_world [?e] (demo_ready, None)))) \<noteq> privileged (db_tabs (fst (demo_ready, None :: cas option)))"
    unfolding mux by (auto simp: privileged_def demo_ready_def demo_simps)
  from privileged_needs_authority[OF this] obtain before e after where "[?e] = before @ e # after"
    "authority demo_world (db_tabs (fst (run_system demo_world before (demo_ready, None)))) e" by blast
  then show ?thesis by (cases before) auto
qed

end
