(* ===== verification/IndexRace.thy ===== *)
theory IndexRace
  imports Mailbox
begin

text \<open>
  The mail indexer under concurrency. \<open>index-mail\<close> runs one worker per folder on one database, and \<open>handleMessage\<close> is a
  sequence of statements and transactions without a transaction around them. \<open>index_next\<close> makes one of them: each of the
  two SELECTs of \<open>FindThreadByRefs\<close> and of the two reads of \<open>Resolve\<close> is a stage of its own. \<open>index_step\<close> interleaves the
  messages of any number of workers with each other and with any other operation that keeps the schema and the mail.

  Run alone, the stages are \<open>index_parsed\<close> (\<open>stages_alone\<close>). However they interleave, a message that was reported as indexed is
  stored, once, in a thread that exists (\<open>indexed_is_stored\<close>). Attribution does not survive: a message is left without a
  grantee in an attributed thread whenever the thread is promoted between its resolution and its insertion
  (\<open>workers_lose_attribution\<close>).
\<close>

section \<open>Stages of one message\<close>

record job =
  jb_folder :: string
  jb_uid :: "32 word"
  jb_validity :: "32 word"
  jb_size :: int
  jb_parsed :: parsed

datatype index_stage =
    Fresh
  | Unrooted                    \<comment> \<open>no thread has one of the candidates as its root\<close>
  | Missing                     \<comment> \<open>no thread was found\<close>
  | Conflict                    \<comment> \<open>somebody else created it in between\<close>
  | Conflict_Unrooted
  | Located int
  | Unmapped int                \<comment> \<open>the sender belongs to no grantee\<close>
  | Resolved int resolution
  | Stored int resolution
  | Promoted int
  | Over "err + unit"

definition stage_of :: "'a dbm \<Rightarrow> (err \<Rightarrow> index_stage) \<Rightarrow> ('a \<Rightarrow> index_stage) \<Rightarrow> db \<Rightarrow> index_stage \<times> db" where
  "stage_of m f g s = (case m s of (Inl e, s') \<Rightarrow> (f e, s') | (Inr x, s') \<Rightarrow> (g x, s'))"

definition job_root :: "job \<Rightarrow> string" where
  "job_root j = (let p = jb_parsed j in thread_root (p_message_id p) (p_refs p) (p_in_reply_to p))"

definition job_message :: "job \<Rightarrow> int \<Rightarrow> resolution \<Rightarrow> message" where
  "job_message j tid res = message_of (jb_folder j) (jb_uid j) (jb_validity j) (jb_size j) (jb_parsed j) tid res"

definition job_candidates :: "job \<Rightarrow> string list" where
  "job_candidates j = thread_candidates (p_message_id (jb_parsed j)) (p_in_reply_to (jb_parsed j)) (p_references (jb_parsed j))"

text \<open>The two queries of \<open>FindThreadByRefs\<close>, and the two of \<open>Resolve\<close>.\<close>

definition find_root :: "world \<Rightarrow> string list \<Rightarrow> int option dbm" where
  "find_root w refs =
     tryE (pg_row refs (\<lambda>t. pick_row w th_id (filter (\<lambda>r. th_root r \<in> set refs) (t_threads t)))) (\<lambda>r. case r of
       Inr row \<Rightarrow> ret (Some (th_id row))
     | Inl e \<Rightarrow> if \<not> err_is e ErrNoRows then fail e else ret None)"

definition find_member :: "world \<Rightarrow> string list \<Rightarrow> int dbm" where
  "find_member w refs =
     tryE (pg_row refs (\<lambda>t. pick_row w ms_id (filter (\<lambda>m. ms_message_id m \<in> set refs) (t_messages t)))) (\<lambda>r. case r of
       Inr m \<Rightarrow> ret (ms_thread m)
     | Inl e \<Rightarrow> if err_is e ErrNoRows then ret 0 else fail e)"

definition sender_grantee :: "world \<Rightarrow> string \<Rightarrow> string option dbm" where
  "sender_grantee w from =
     bindE (if from \<noteq> [] then lookup_grantee_by_email w from else ret ([], False)) (\<lambda>(g, ok). ret (if ok then Some g else None))"

definition thread_resolution :: "int \<Rightarrow> resolution dbm" where
  "thread_resolution tid =
     (if tid \<noteq> 0 then
        bindE (get_thread tid) (\<lambda>t. case tr_grantee t of
          Some g \<Rightarrow> ret \<lparr> rs_grantee = Some g, rs_sender = False, rs_thread = True \<rparr>
        | None \<Rightarrow> ret unresolved)
      else ret unresolved)"

definition by_sender :: "string \<Rightarrow> resolution" where
  "by_sender g = \<lparr> rs_grantee = Some g, rs_sender = True, rs_thread = False \<rparr>"

definition found :: "int \<Rightarrow> index_stage" where
  "found i = (if i \<noteq> 0 then Located i else Missing)"

definition found_again :: "int \<Rightarrow> index_stage" where
  "found_again i = (if i = 0 then Over (Inl (ErrNew ''thread create race: %!w(<nil>)'')) else Located i)"

fun index_next :: "world \<Rightarrow> int \<Rightarrow> job \<Rightarrow> index_stage \<Rightarrow> db \<Rightarrow> index_stage \<times> db" where
  "index_next w now j Fresh =
     (if job_candidates j = [] then (\<lambda>s. (Missing, s))
      else stage_of (wrapped ''thread lookup'' (find_root w (job_candidates j)))
        (\<lambda>e. Over (Inl e)) (\<lambda>q. case q of Some i \<Rightarrow> found i | None \<Rightarrow> Unrooted))"
| "index_next w now j Unrooted =
     stage_of (wrapped ''thread lookup'' (find_member w (job_candidates j))) (\<lambda>e. Over (Inl e)) found"
| "index_next w now j Missing =
     stage_of (create_thread (job_root j) (normalize_subject w (p_subject (jb_parsed j))) None (p_date (jb_parsed j)))
       (\<lambda>e. if is_unique_violation e then Conflict else Over (Inl (ErrWrap ''create thread: '' e []))) Located"
| "index_next w now j Conflict =
     stage_of (find_root w [job_root j]) (\<lambda>e. Over (Inl (ErrWrap ''thread create race: '' e [])))
       (\<lambda>q. case q of Some i \<Rightarrow> found_again i | None \<Rightarrow> Conflict_Unrooted)"
| "index_next w now j Conflict_Unrooted =
     stage_of (find_member w [job_root j]) (\<lambda>e. Over (Inl (ErrWrap ''thread create race: '' e []))) found_again"
| "index_next w now j (Located i) =
     stage_of (wrapped ''resolve grantee'' (sender_grantee w (a_email (p_from (jb_parsed j))))) (\<lambda>e. Over (Inl e))
       (\<lambda>q. case q of Some g \<Rightarrow> Resolved i (by_sender g) | None \<Rightarrow> Unmapped i)"
| "index_next w now j (Unmapped i) =
     stage_of (wrapped ''resolve grantee'' (thread_resolution i)) (\<lambda>e. Over (Inl e)) (Resolved i)"
| "index_next w now j (Resolved i res) =
     stage_of (wrapped ''insert'' (insert_message w now (job_message j i res))) (\<lambda>e. Over (Inl e)) (\<lambda>_. Stored i res)"
| "index_next w now j (Stored i res) =
     stage_of (case rs_grantee res of
         Some g \<Rightarrow> if rs_sender res then wrapped ''promote thread'' (promote_thread i g) else ret ()
       | None \<Rightarrow> ret ()) (\<lambda>e. Over (Inl e)) (\<lambda>_. Promoted i)"
| "index_next w now j (Promoted i) =
     stage_of (wrapped ''touch thread'' (touch_thread i (p_date (jb_parsed j)))) (\<lambda>e. Over (Inl e)) (\<lambda>x. Over (Inr x))"
| "index_next w now j (Over r) = (\<lambda>s. (Over r, s))"

section \<open>A worker on its own\<close>

primrec alone :: "world \<Rightarrow> int \<Rightarrow> job \<Rightarrow> nat \<Rightarrow> index_stage \<Rightarrow> db \<Rightarrow> index_stage \<times> db" where
  "alone w now j 0 st s = (st, s)"
| "alone w now j (Suc n) st s = (case index_next w now j st s of (st', s') \<Rightarrow> alone w now j n st' s')"

lemma find_thread_queries:
  "find_thread_by_refs w refs = (if refs = [] then ret 0
     else bindE (find_root w refs) (\<lambda>q. case q of Some i \<Rightarrow> ret i | None \<Rightarrow> find_member w refs))"
  by (rule ext) (auto simp: find_thread_by_refs_def find_root_def find_member_def bindE_eq tryE_eq split: prod.split sum.split)

lemma resolve_queries:
  "resolve w from tid = bindE (sender_grantee w from) (\<lambda>q. case q of Some g \<Rightarrow> ret (by_sender g) | None \<Rightarrow> thread_resolution tid)"
  by (rule ext) (auto simp: resolve_def sender_grantee_def thread_resolution_def by_sender_def bindE_eq split: prod.split sum.split)

text \<open>What is left to do after each stage, in terms of the operations \<open>handleMessage\<close> is written with.\<close>

definition index_rest :: "world \<Rightarrow> int \<Rightarrow> job \<Rightarrow> int \<Rightarrow> unit dbm" where
  "index_rest w now j tid =
     bindE (wrapped ''resolve grantee'' (resolve w (a_email (p_from (jb_parsed j))) tid)) (\<lambda>res.
     bindE (wrapped ''insert'' (insert_message w now (job_message j tid res))) (\<lambda>_.
     bindE (case rs_grantee res of
         Some g \<Rightarrow> if rs_sender res then wrapped ''promote thread'' (promote_thread tid g) else ret ()
       | None \<Rightarrow> ret ()) (\<lambda>_.
     wrapped ''touch thread'' (touch_thread tid (p_date (jb_parsed j))))))"

fun stage_rank :: "index_stage \<Rightarrow> nat" where
  "stage_rank Fresh = 10"
| "stage_rank Unrooted = 9"
| "stage_rank Missing = 8"
| "stage_rank Conflict = 7"
| "stage_rank Conflict_Unrooted = 6"
| "stage_rank (Located i) = 5"
| "stage_rank (Unmapped i) = 4"
| "stage_rank (Resolved i res) = 3"
| "stage_rank (Stored i res) = 2"
| "stage_rank (Promoted i) = 1"
| "stage_rank (Over r) = 0"

lemma stage_rank_found [simp]: "stage_rank (found i) < 9" "stage_rank (found_again i) < 6"
  by (simp_all add: found_def found_again_def)

function remaining :: "world \<Rightarrow> int \<Rightarrow> job \<Rightarrow> index_stage \<Rightarrow> unit dbm" where
  "remaining w now j (Over r) = (\<lambda>s. (r, s))"
| "remaining w now j (Promoted i) = wrapped ''touch thread'' (touch_thread i (p_date (jb_parsed j)))"
| "remaining w now j (Stored i res) =
     bindE (case rs_grantee res of
         Some g \<Rightarrow> if rs_sender res then wrapped ''promote thread'' (promote_thread i g) else ret ()
       | None \<Rightarrow> ret ()) (\<lambda>_. remaining w now j (Promoted i))"
| "remaining w now j (Resolved i res) =
     bindE (wrapped ''insert'' (insert_message w now (job_message j i res))) (\<lambda>_. remaining w now j (Stored i res))"
| "remaining w now j (Unmapped i) =
     bindE (wrapped ''resolve grantee'' (thread_resolution i)) (\<lambda>res. remaining w now j (Resolved i res))"
| "remaining w now j (Located i) = index_rest w now j i"
| "remaining w now j Conflict_Unrooted =
     tryE (find_member w [job_root j]) (\<lambda>r. case r of
       Inl e \<Rightarrow> fail (ErrWrap ''thread create race: '' e []) | Inr i \<Rightarrow> remaining w now j (found_again i))"
| "remaining w now j Conflict =
     tryE (find_thread_by_refs w [job_root j]) (\<lambda>r. case r of
       Inl e \<Rightarrow> fail (ErrWrap ''thread create race: '' e []) | Inr i \<Rightarrow> remaining w now j (found_again i))"
| "remaining w now j Missing =
     tryE (create_thread (job_root j) (normalize_subject w (p_subject (jb_parsed j))) None (p_date (jb_parsed j))) (\<lambda>r. case r of
       Inr i \<Rightarrow> index_rest w now j i
     | Inl e \<Rightarrow> if is_unique_violation e then remaining w now j Conflict else fail (ErrWrap ''create thread: '' e []))"
| "remaining w now j Unrooted =
     bindE (wrapped ''thread lookup'' (find_member w (job_candidates j))) (\<lambda>i. remaining w now j (found i))"
| "remaining w now j Fresh = index_parsed w now (jb_folder j) (jb_uid j) (jb_validity j) (jb_size j) (jb_parsed j)"

  by pat_completeness auto
termination
  by (relation "measure (\<lambda>(w, now, j, st). stage_rank st)") (auto intro: order.strict_trans[OF stage_rank_found(2)])

lemma index_parsed_rest:
  "index_parsed w now (jb_folder j) (jb_uid j) (jb_validity j) (jb_size j) (jb_parsed j) = bindE (ensure_thread w (jb_parsed j)) (index_rest w now j)"
  by (simp add: index_parsed_def index_rest_def[abs_def] job_message_def)

text \<open>One stage gets closer to the end and leaves the rest to be done.\<close>

lemma index_next_rank:
  assumes "index_next w now j st s = (st', s')"
  shows "stage_rank st' \<le> stage_rank st - 1"
proof -
  have le: "stage_rank (found i) \<le> 8" "stage_rank (found i) \<le> 9" "stage_rank (found_again i) \<le> 5"
    "stage_rank (found_again i) \<le> 6" for i
    by (simp_all add: found_def found_again_def)
  show ?thesis using assms
    by (cases st) (auto simp: stage_of_def le split: sum.splits prod.splits option.splits if_splits)
qed

definition new_thread :: "world \<Rightarrow> job \<Rightarrow> int dbm" where
  "new_thread w j =
     tryE (create_thread (job_root j) (normalize_subject w (p_subject (jb_parsed j))) None (p_date (jb_parsed j))) (\<lambda>r. case r of
       Inr i \<Rightarrow> ret i
     | Inl e \<Rightarrow>
         if is_unique_violation e
         then tryE (find_thread_by_refs w [job_root j]) (\<lambda>r2. case r2 of
             Inl e2 \<Rightarrow> fail (ErrWrap ''thread create race: '' e2 [])
           | Inr i \<Rightarrow> if i = 0 then fail (ErrNew ''thread create race: %!w(<nil>)'') else ret i)
         else fail (ErrWrap ''create thread: '' e []))"

lemma ensure_thread_new:
  "ensure_thread w (jb_parsed j) = bindE (wrapped ''thread lookup'' (find_thread_by_refs w (job_candidates j)))
     (\<lambda>i. if i \<noteq> 0 then ret i else new_thread w j)"
  unfolding ensure_thread_def new_thread_def job_candidates_def job_root_def Let_def by simp

lemma remaining_Missing: "remaining w now j Missing s = bindE (new_thread w j) (index_rest w now j) s"
  by (auto simp: new_thread_def bindE_eq tryE_eq found_again_def fail_def split: prod.split sum.split)

lemma remaining_found: "remaining w now j (found i) s = bindE (if i \<noteq> 0 then ret i else new_thread w j) (index_rest w now j) s"
proof (cases "i = 0")
  case True
  then show ?thesis using remaining_Missing[of w now j s] by (simp add: found_def del: remaining.simps)
qed (simp add: found_def bindE_eq)

lemma remaining_Fresh:
  "remaining w now j Fresh s = bindE (wrapped ''thread lookup'' (find_thread_by_refs w (job_candidates j))) (\<lambda>i. remaining w now j (found i)) s"
proof -
  obtain r s1 where f: "wrapped ''thread lookup'' (find_thread_by_refs w (job_candidates j)) s = (r, s1)" by fastforce
  have "remaining w now j Fresh s = bindE (ensure_thread w (jb_parsed j)) (index_rest w now j) s"
    by (simp add: index_parsed_rest)
  also have "\<dots> = (case r of Inl e \<Rightarrow> (Inl e, s1) | Inr i \<Rightarrow> bindE (if i \<noteq> 0 then ret i else new_thread w j) (index_rest w now j) s1)"
    by (simp add: ensure_thread_new bindE_eq f split: sum.split)
  finally show ?thesis by (simp add: bindE_eq f remaining_found del: remaining.simps split: sum.split)
qed

lemma remaining_next:
  assumes "index_next w now j st s = (st', s')"
  shows "remaining w now j st s = remaining w now j st' s'"
proof (cases st)
  case Fresh
  show ?thesis
  proof (cases "job_candidates j = []")
    case True
    then have "st' = found 0" "s' = s" using assms Fresh by (simp_all add: found_def)
    then show ?thesis unfolding Fresh remaining_Fresh
      by (simp add: True find_thread_queries wrapped_def wrapE_eq bindE_eq del: remaining.simps)
  next
    case False
    obtain r s1 where f: "find_root w (job_candidates j) s = (r, s1)" by fastforce
    show ?thesis using assms f False unfolding Fresh remaining_Fresh
      by (cases r) (auto simp: find_thread_queries wrapped_def wrapE_eq bindE_eq stage_of_def simp del: remaining.simps(11)
          split: option.splits prod.splits sum.splits)
  qed
next
  case Unrooted
  then show ?thesis using assms
    by (auto simp: wrapped_def wrapE_eq bindE_eq stage_of_def split: prod.splits sum.splits)
next
  case Missing
  then show ?thesis using assms
    by (auto simp: tryE_eq stage_of_def split: prod.splits sum.splits if_splits)
next
  case Conflict
  then show ?thesis using assms
    by (auto simp: find_thread_queries tryE_eq bindE_eq stage_of_def fail_def split: prod.splits sum.splits option.splits)
next
  case Conflict_Unrooted
  then show ?thesis using assms
    by (auto simp: tryE_eq stage_of_def fail_def split: prod.splits sum.splits)
next
  case (Located i)
  then show ?thesis using assms
    by (auto simp: index_rest_def resolve_queries wrapped_def wrapE_eq bindE_eq stage_of_def split: prod.splits sum.splits option.splits)
next
  case (Stored i res)
  then show ?thesis using assms
    by (auto simp: bindE_eq stage_of_def split: prod.splits sum.splits)
qed (use assms in \<open>auto simp: bindE_eq stage_of_def split: prod.splits sum.splits\<close>)

text \<open>One worker on its own does what \<open>handleMessage\<close> does: ten stages without interference give the result and the database
  of indexing the parsed message in one go.\<close>

lemma alone_remaining:
  "stage_rank st \<le> n \<Longrightarrow> alone w now j n st s = (case remaining w now j st s of (r, s') \<Rightarrow> (Over r, s'))"
proof (induction n arbitrary: st s)
  case 0
  then obtain r where "st = Over r" by (cases st) auto
  then show ?case by simp
next
  case (Suc n)
  obtain st' s' where n: "index_next w now j st s = (st', s')" by fastforce
  have "stage_rank st' \<le> n" using index_next_rank[OF n] Suc.prems by simp
  then show ?case using Suc.IH[of st' s'] n by (simp add: remaining_next[OF n])
qed

theorem stages_alone:
  "alone w now j 10 Fresh s =
     (case index_parsed w now (jb_folder j) (jb_uid j) (jb_validity j) (jb_size j) (jb_parsed j) s of (r, s') \<Rightarrow> (Over r, s'))"
  by (simp add: alone_remaining)

section \<open>Workers\<close>

type_synonym workers = "db \<times> (job \<times> index_stage) list"

inductive index_step :: "world \<Rightarrow> workers \<Rightarrow> workers \<Rightarrow> bool" for w where
  advance: "k < length jobs \<Longrightarrow> jobs ! k = (j, st) \<Longrightarrow> index_next w now j st s = (st', s') \<Longrightarrow>
    index_step w (s, jobs) (s', jobs[k := (j, st')])"
| begin_job: "index_step w (s, jobs) (s, jobs @ [(j, Fresh)])"
| other: "evolves (schema_step w) m \<Longrightarrow> evolves mail_grows m \<Longrightarrow> m s = (r :: err + unit, s') \<Longrightarrow>
    index_step w (s, jobs) (s', jobs)"

inductive index_run :: "world \<Rightarrow> workers \<Rightarrow> workers \<Rightarrow> bool" for w where
  start: "index_run w \<sigma> \<sigma>"
| step: "index_run w \<sigma> \<sigma>' \<Longrightarrow> index_step w \<sigma>' \<sigma>'' \<Longrightarrow> index_run w \<sigma> \<sigma>''"

text \<open>A worker's stages keep the schema and the mail, whatever happened before them.\<close>

context evolution begin

lemma ev_stage_of: "evolves R m \<Longrightarrow> stage_of m f g s = (st, s') \<Longrightarrow> R (snap s) (snap s')"
  by (auto simp: stage_of_def dest: evolvesD split: sum.splits prod.splits)

end

context threading_evolution begin

lemma ev_queries:
  "evolves R (find_root w refs)" "evolves R (find_member w refs)" "evolves R (sender_grantee w from)" "evolves R (thread_resolution i)"
  unfolding find_root_def find_member_def sender_grantee_def lookup_grantee_by_email_def thread_resolution_def get_thread_def
  by (intro ev_bindE ev_case_prod ev_case_option ev_if ev_ret ev_tryE ev_case_sum ev_wrapE ev_fail ev_pg_row)+

lemma ev_index_next: "index_next w now j st s = (st', s') \<Longrightarrow> R (snap s) (snap s')"
proof (cases st)
  case (Stored i res)
  have "evolves R (case rs_grantee res of
         Some g \<Rightarrow> if rs_sender res then wrapped ''promote thread'' (promote_thread i g) else ret ()
       | None \<Rightarrow> ret ())"
    unfolding wrapped_def promote_thread_def by (intro ev_case_option ev_if ev_wrapE ev_ret promote)
  then show "index_next w now j st s = (st', s') \<Longrightarrow> R (snap s) (snap s')"
    unfolding Stored index_next.simps by (rule ev_stage_of)
qed (auto simp: wrapped_def stay split: if_splits intro: ev_stage_of[OF ev_queries(1)] ev_stage_of[OF ev_queries(2)]
    ev_stage_of[OF ev_wrapE[OF ev_queries(1)]] ev_stage_of[OF ev_wrapE[OF ev_queries(2)]] ev_stage_of[OF ev_wrapE[OF ev_queries(3)]]
    ev_stage_of[OF ev_wrapE[OF ev_queries(4)]] ev_stage_of[OF create] ev_stage_of[OF ev_wrapE[OF insert]] ev_stage_of[OF ev_wrapE[OF touch]])

end

section \<open>What was reported as indexed is stored\<close>

definition stored_id :: "tables \<Rightarrow> job \<Rightarrow> bool" where
  "stored_id t j \<longleftrightarrow> p_message_id (jb_parsed j) \<in> ms_message_id ` set (t_messages t)"

fun job_ok :: "tables \<Rightarrow> job \<times> index_stage \<Rightarrow> bool" where
  "job_ok t (j, Located i) = (i \<in> thread_ids t)"
| "job_ok t (j, Unmapped i) = (i \<in> thread_ids t)"
| "job_ok t (j, Resolved i res) = (i \<in> thread_ids t)"
| "job_ok t (j, Stored i res) = (i \<in> thread_ids t \<and> stored_id t j)"
| "job_ok t (j, Promoted i) = (i \<in> thread_ids t \<and> stored_id t j)"
| "job_ok t (j, Over (Inr x)) = stored_id t j"
| "job_ok t (j, st) = True"

lemma mail_grows_ids:
  assumes "mail_grows (snap s) (snap s')"
  shows "thread_ids (db_tabs s) \<subseteq> thread_ids (db_tabs s')" "stored_id (db_tabs s) j \<Longrightarrow> stored_id (db_tabs s') j"
proof -
  have t: "grows thread_kept (t_threads (db_tabs s)) (t_threads (db_tabs s'))"
    and m: "grows message_kept (t_messages (db_tabs s)) (t_messages (db_tabs s'))"
    using assms by (simp_all add: mail_grows_def snap_def)
  show "thread_ids (db_tabs s) \<subseteq> thread_ids (db_tabs s')"
  proof
    fix i assume "i \<in> thread_ids (db_tabs s)"
    then obtain r where r: "r \<in> set (t_threads (db_tabs s))" "th_id r = i" by (auto simp: thread_ids_def)
    from grows_mem[OF t r(1)] r(2) show "i \<in> thread_ids (db_tabs s')"
      by (auto simp: thread_ids_def thread_kept_def intro: rev_image_eqI)
  qed
  have "ms_message_id x' = ms_message_id x" if "message_kept x x'" for x x'
    using that unfolding message_kept_def by (metis message_row.select_convs(2) message_row.surjective message_row.update_convs(4))
  then show "stored_id (db_tabs s) j \<Longrightarrow> stored_id (db_tabs s') j"
    using grows_mem[OF m] unfolding stored_id_def by (metis (no_types, lifting) image_iff)
qed

lemma job_ok_grows:
  assumes "mail_grows (snap s) (snap s')" and "job_ok (db_tabs s) (j, st)"
  shows "job_ok (db_tabs s') (j, st)"
proof (cases st)
  case (Over r)
  then show ?thesis using assms mail_grows_ids[OF assms(1)] by (cases r) auto
qed (use assms mail_grows_ids[OF assms(1)] in auto)

lemma find_root_exists:
  assumes "find_root w refs s = (Inr (Some i), s')"
  shows "i \<in> thread_ids (db_tabs s')"
proof -
  let ?a = "pg_row refs (\<lambda>t. pick_row w th_id (filter (\<lambda>r. th_root r \<in> set refs) (t_threads t)))"
  obtain r1 s1 where a: "?a s = (r1, s1)" by fastforce
  have s1: "db_tabs s1 = db_tabs s" using a by (metis pg_row_tabs snd_conv)
  obtain row where row: "r1 = Inr row" "i = th_id row" "s' = s1"
    using assms a by (cases r1) (auto simp: find_root_def tryE_eq split: if_splits)
  have "row \<in> set (t_threads (db_tabs s))" using pg_row_Inr(1)[OF a[unfolded row(1)]] by (auto dest!: pick_row_mem)
  then show ?thesis using row s1 by (auto simp: thread_ids_def)
qed

lemma find_member_exists:
  assumes "find_member w refs s = (Inr i, s')" and "schema w' (db_tabs s) q" and "i \<noteq> 0"
  shows "i \<in> thread_ids (db_tabs s')"
proof -
  let ?a = "pg_row refs (\<lambda>t. pick_row w ms_id (filter (\<lambda>m. ms_message_id m \<in> set refs) (t_messages t)))"
  obtain r1 s1 where a: "?a s = (r1, s1)" by fastforce
  have s1: "db_tabs s1 = db_tabs s" using a by (metis pg_row_tabs snd_conv)
  obtain m where m: "r1 = Inr m" "i = ms_thread m" "s' = s1"
    using assms(1,3) a by (cases r1) (auto simp: find_member_def tryE_eq split: if_splits)
  have "m \<in> set (t_messages (db_tabs s))" using pg_row_Inr(1)[OF a[unfolded m(1)]] by (auto dest!: pick_row_mem)
  then show ?thesis using schema_parts(5)[OF assms(2)] m s1 by (auto simp: ok_messages_def)
qed

lemma insert_stores:
  assumes "insert_message w now m s = (Inr x, s')"
  shows "m_message_id m \<in> ms_message_id ` set (t_messages (db_tabs s'))"
proof -
  obtain i new where x: "x = (i, new)" by (cases x)
  show ?thesis
  proof (cases new)
    case True
    then show ?thesis using insert_message_new(1)[of w now m s i s'] assms x by (simp add: message_row_of_def)
  next
    case False
    then show ?thesis by (cases rule: insert_message_cases[OF assms[unfolded x]]) (auto intro: rev_image_eqI)
  qed
qed

text \<open>The next stage of a job is right about the database it leaves.\<close>

lemma index_next_ok:
  assumes next_stage: "index_next w now j st s = (st', s')" and inv: "schema w (db_tabs s) (db_seqs s)" and ok: "job_ok (db_tabs s) (j, st)"
  shows "job_ok (db_tabs s') (j, st')"
proof -
  note g = mail_grows_ids[OF mail_index.ev_index_next[OF next_stage]]
  show ?thesis
  proof (cases st)
    case Fresh
    then show ?thesis using next_stage
      by (auto simp: stage_of_def wrapped_def wrapE_eq found_def dest: find_root_exists split: sum.splits prod.splits if_splits option.splits)
  next
    case Unrooted
    then show ?thesis using next_stage find_member_exists[OF _ inv]
      by (auto simp: stage_of_def wrapped_def wrapE_eq found_def split: sum.splits prod.splits if_splits)
  next
    case Missing
    have "i \<in> thread_ids (db_tabs s')" if "create_thread root subj gid time s = (Inr i, s')" for root subj gid time i
      using thread_insert_Inr(2)[OF pg_Inr(2)[OF that[unfolded create_thread_def]]] by (simp add: thread_ids_def)
    then show ?thesis using Missing next_stage
      by (auto simp: stage_of_def split: sum.splits prod.splits if_splits)
  next
    case Conflict
    then show ?thesis using next_stage
      by (auto simp: stage_of_def found_again_def dest: find_root_exists split: sum.splits prod.splits if_splits option.splits)
  next
    case Conflict_Unrooted
    then show ?thesis using next_stage find_member_exists[OF _ inv]
      by (auto simp: stage_of_def found_again_def split: sum.splits prod.splits if_splits)
  next
    case (Located i)
    then show ?thesis using next_stage ok g by (auto simp: stage_of_def split: sum.splits prod.splits option.splits)
  next
    case (Unmapped i)
    then show ?thesis using next_stage ok g by (auto simp: stage_of_def split: sum.splits prod.splits)
  next
    case (Resolved i res)
    have "stored_id (db_tabs s') j" if "insert_message w now (job_message j i res) s = (Inr x, s')" for x
      using insert_stores[OF that] by (simp add: stored_id_def job_message_def message_of_def)
    then show ?thesis using Resolved next_stage ok g
      by (auto simp: stage_of_def wrapped_def split: sum.splits prod.splits)
  next
    case (Stored i res)
    then show ?thesis using next_stage ok g by (auto simp: stage_of_def split: sum.splits prod.splits)
  next
    case (Promoted i)
    then show ?thesis using next_stage ok g by (auto simp: stage_of_def split: sum.splits prod.splits)
  next
    case (Over r)
    then show ?thesis using next_stage ok by simp
  qed
qed

definition index_inv :: "world \<Rightarrow> workers \<Rightarrow> bool" where
  "index_inv w \<sigma> \<longleftrightarrow> schema w (db_tabs (fst \<sigma>)) (db_seqs (fst \<sigma>)) \<and> (\<forall>x \<in> set (snd \<sigma>). job_ok (db_tabs (fst \<sigma>)) x)"

lemma index_inv_step: "index_step w \<sigma> \<sigma>' \<Longrightarrow> index_inv w \<sigma> \<Longrightarrow> index_inv w \<sigma>'"
proof (induction rule: index_step.induct)
  case (advance k jobs j st now s st' s')
  have inv: "schema w (db_tabs s) (db_seqs s)" and jobs: "\<forall>x \<in> set jobs. job_ok (db_tabs s) x"
    using advance.prems by (simp_all add: index_inv_def)
  have mail: "mail_grows (snap s) (snap s')" by (rule mail_index.ev_index_next[OF advance(3)])
  have "schema_step w (snap s) (snap s')" by (rule schema_index.ev_index_next[OF advance(3)])
  then have s': "schema w (db_tabs s') (db_seqs s')" using inv by (simp add: schema_step_def snap_def)
  have "job_ok (db_tabs s) (j, st)" using jobs advance(1,2) by (metis nth_mem)
  then have new: "job_ok (db_tabs s') (j, st')" by (rule index_next_ok[OF advance(3) inv])
  have "job_ok (db_tabs s') x" if "x \<in> set jobs" for x using that jobs job_ok_grows[OF mail, of "fst x" "snd x"] by simp
  then show ?case using s' new set_update_subset_insert[of jobs k "(j, st')"] by (auto simp: index_inv_def)
next
  case (begin_job s jobs j)
  then show ?case by (auto simp: index_inv_def)
next
  case (other m s r s' jobs)
  have "schema_step w (snap s) (snap s')" "mail_grows (snap s) (snap s')" using evolvesD other(1-3) by blast+
  then show ?case using other.prems job_ok_grows[of s s' "fst x" "snd x" for x]
    by (auto simp: index_inv_def schema_step_def snap_def)
qed

lemma index_inv_run: "index_run w \<sigma> \<sigma>' \<Longrightarrow> index_inv w \<sigma> \<Longrightarrow> index_inv w \<sigma>'"
  by (induction rule: index_run.induct) (auto intro: index_inv_step)

text \<open>C24: what was reported as indexed is there: however any number of workers interleave with each other and with other operations
  on the database, the constraints of the schema hold, and for every message whose indexing ended without an error there
  is exactly one stored message with its Message-ID, in a thread that exists.\<close>

theorem indexed_is_stored:
  assumes "index_run w (s, []) (s', jobs)" and "schema w (db_tabs s) (db_seqs s)"
  shows "schema w (db_tabs s') (db_seqs s') \<and> (\<forall>(j, st) \<in> set jobs. st = Over (Inr ()) \<longrightarrow>
    (\<exists>!m. m \<in> set (t_messages (db_tabs s')) \<and> ms_message_id m = p_message_id (jb_parsed j)) \<and>
    (\<exists>m \<in> set (t_messages (db_tabs s')). ms_message_id m = p_message_id (jb_parsed j) \<and> ms_thread m \<in> thread_ids (db_tabs s')))"
proof -
  have inv: "index_inv w (s', jobs)" using index_inv_run[OF assms(1)] assms(2) by (simp add: index_inv_def)
  then have ok: "ok_messages (grantee_ids (db_tabs s')) (thread_ids (db_tabs s')) (q_messages (db_seqs s')) (t_messages (db_tabs s'))"
    using schema_parts(5) by (auto simp: index_inv_def)
  then have d: "distinct (map ms_message_id (t_messages (db_tabs s')))" by (simp add: ok_messages_def)
  have "(\<exists>!m. m \<in> set (t_messages (db_tabs s')) \<and> ms_message_id m = p_message_id (jb_parsed j)) \<and>
    (\<exists>m \<in> set (t_messages (db_tabs s')). ms_message_id m = p_message_id (jb_parsed j) \<and> ms_thread m \<in> thread_ids (db_tabs s'))"
    if job: "(j, Over (Inr ())) \<in> set jobs" for j
  proof -
    have "job_ok (db_tabs s') (j, Over (Inr ()))" using inv job by (auto simp: index_inv_def)
    then obtain m where m: "m \<in> set (t_messages (db_tabs s'))" "ms_message_id m = p_message_id (jb_parsed j)"
      by (auto simp: stored_id_def)
    then have "ms_thread m \<in> thread_ids (db_tabs s')" using ok by (auto simp: ok_messages_def)
    moreover have "y = m" if "y \<in> set (t_messages (db_tabs s'))" "ms_message_id y = p_message_id (jb_parsed j)" for y
      using that m d by (auto simp: distinct_map inj_on_def)
    ultimately show ?thesis using m by blast
  qed
  note stored = this
  have "schema w (db_tabs s') (db_seqs s')" using inv by (simp add: index_inv_def)
  moreover have "case x of (j, st) \<Rightarrow> st = Over (Inr ()) \<longrightarrow>
      (\<exists>!m. m \<in> set (t_messages (db_tabs s')) \<and> ms_message_id m = p_message_id (jb_parsed j)) \<and>
      (\<exists>m \<in> set (t_messages (db_tabs s')). ms_message_id m = p_message_id (jb_parsed j) \<and> ms_thread m \<in> thread_ids (db_tabs s'))"
    if "x \<in> set jobs" for x
  proof -
    obtain j st where x: "x = (j, st)" by (cases x)
    show ?thesis unfolding x prod.case using stored[of j] that x by blast
  qed
  ultimately show ?thesis by blast
qed


section \<open>Attribution is lost\<close>

text \<open>A schedule names the job that makes the next stage.\<close>

fun run_schedule :: "world \<Rightarrow> int \<Rightarrow> nat list \<Rightarrow> workers \<Rightarrow> workers" where
  "run_schedule w now [] \<sigma> = \<sigma>"
| "run_schedule w now (k # ks) (s, jobs) =
     (if k < length jobs
      then (case jobs ! k of (j, st) \<Rightarrow> case index_next w now j st s of (st', s') \<Rightarrow> run_schedule w now ks (s', jobs[k := (j, st')]))
      else (s, jobs))"

lemma index_run_trans: "index_run w b c \<Longrightarrow> index_run w a b \<Longrightarrow> index_run w a c"
  by (induction rule: index_run.induct) (auto intro: index_run.step)

lemma schedule_run: "index_run w \<sigma> (run_schedule w now ks \<sigma>)"
proof (induction w now ks \<sigma> rule: run_schedule.induct)
  case (2 w now k ks s jobs)
  show ?case
  proof (cases "k < length jobs")
    case True
    obtain j st where j: "jobs ! k = (j, st)" by (cases "jobs ! k")
    obtain st' s' where n: "index_next w now j st s = (st', s')" by fastforce
    have "index_run w (s, jobs) (s', jobs[k := (j, st')])"
      by (rule index_run.step[OF index_run.start index_step.advance[OF True j n]])
    from index_run_trans[OF "2.IH"[OF True j[symmetric] n[symmetric]] this] show ?thesis using True j n by simp
  qed (simp add: index_run.start)
qed (simp add: index_run.start)

text \<open>Two replies in one thread that belongs to nobody yet: one from a mapped sender, one from an unknown one.\<close>

definition demo_reply :: "string \<Rightarrow> string \<Rightarrow> parsed" where
  "demo_reply mid from = \<lparr> p_message_id = mid, p_in_reply_to = ''<r@x>'', p_references = ''<r@x>'', p_refs = [''r@x''],
     p_from = \<lparr> a_name = [], a_email = from \<rparr>, p_to = [], p_cc = [], p_bcc = [], p_subject = ''Re: Hi'', p_date = 7000000000,
     p_body_text = ''ok'', p_body_html = [], p_attachments = [] \<rparr>"

definition demo_job :: "string \<Rightarrow> 32 word \<Rightarrow> string \<Rightarrow> string \<Rightarrow> job" where
  "demo_job folder uid mid from = \<lparr> jb_folder = folder, jb_uid = uid, jb_validity = 3, jb_size = 2, jb_parsed = demo_reply mid from \<rparr>"

definition demo_mapped :: db where
  "demo_mapped = demo_mail\<lparr>db_tabs := (db_tabs demo_mail)\<lparr>t_emails := [\<lparr> em_email = ''ann@x'', em_grantee = ''ann'' \<rparr>]\<rparr>\<rparr>"

definition demo_jobs :: "(job \<times> index_stage) list" where
  "demo_jobs = [(demo_job ''INBOX'' 7 ''a@x'' ''ann@x'', Fresh), (demo_job ''Sent'' 8 ''b@x'' ''bob@x'', Fresh)]"

text \<open>The unknown sender's message is resolved first and inserted last.\<close>

definition demo_raced :: workers where
  "demo_raced = run_schedule demo_world 9 [1, 1, 1, 0, 0, 0, 0, 0, 1, 1, 1] (demo_mapped, demo_jobs)"

lemma demo_race_over:
  "list_all (\<lambda>x. case snd x of Over (Inr y) \<Rightarrow> True | _ \<Rightarrow> False) (snd demo_raced)"
  "map th_grantee (t_threads (db_tabs (fst demo_raced))) = [Some ''ann'']"
  "map (\<lambda>m. (ms_message_id m, ms_thread m, ms_grantee m)) (t_messages (db_tabs (fst demo_raced))) =
     [(''a@x'', 1, Some ''ann''), (''b@x'', 1, None)]"
  by code_simp+

lemma demo_race_done: "\<forall>x \<in> set (snd demo_raced). snd x = Over (Inr ())"
proof
  fix x assume "x \<in> set (snd demo_raced)"
  with demo_race_over(1) have "case snd x of Over (Inr y) \<Rightarrow> True | _ \<Rightarrow> False" by (simp add: list_all_iff)
  then show "snd x = Over (Inr ())" by (auto split: index_stage.splits sum.splits)
qed

text \<open>What a worker does after it stored a message that it resolved to nobody: it leaves the messages alone.\<close>

lemma index_run_grows:
  assumes "index_run w \<sigma> \<sigma>'"
  shows "mail_grows (snap (fst \<sigma>)) (snap (fst \<sigma>'))"
  using assms
proof (induction rule: index_run.induct)
  case (step \<sigma> \<sigma>' \<sigma>'')
  from step(2) have "mail_grows (snap (fst \<sigma>')) (snap (fst \<sigma>''))"
    by (induction rule: index_step.induct) (auto simp: mail.stay dest: mail_index.ev_index_next evolvesD)
  then show ?case using step.IH mail.trans by blast
qed (simp add: mail.stay)

definition unowned_end :: "index_stage \<Rightarrow> bool" where
  "unowned_end st \<longleftrightarrow> (case st of Stored i res \<Rightarrow> rs_grantee res = None | Promoted i \<Rightarrow> True | Over r \<Rightarrow> True | _ \<Rightarrow> False)"

lemma unowned_end_next:
  assumes "index_next w now j st s = (st', s')" and "unowned_end st"
  shows "unowned_end st' \<and> t_messages (db_tabs s') = t_messages (db_tabs s)"
proof (cases st)
  case (Promoted i)
  have "t_messages (db_tabs (snd (touch_thread i d s))) = t_messages (db_tabs s)" for d
    unfolding touch_thread_def by (auto simp: pg_modify_def pg_def pg_run_def split: list.splits option.splits)
  then show ?thesis using assms Promoted
    by (auto simp: stage_of_def wrapped_def wrapE_eq unowned_end_def split: sum.splits prod.splits) (metis snd_conv)+
qed (use assms in \<open>auto simp: stage_of_def unowned_end_def split: sum.splits prod.splits\<close>)

lemma unowned_end_alone:
  "unowned_end st \<Longrightarrow> t_messages (db_tabs (snd (alone w now j n st s))) = t_messages (db_tabs s) \<and>
     mail_grows (snap s) (snap (snd (alone w now j n st s)))"
proof (induction n arbitrary: st s)
  case (Suc n)
  obtain st' s' where n: "index_next w now j st s = (st', s')" by fastforce
  show ?case using unowned_end_next[OF n Suc.prems] Suc.IH[of st' s'] mail_index.ev_index_next[OF n] n
    by (auto intro: mail.trans)
qed (simp add: mail.stay)

text \<open>After a promotion the thread has a grantee, and keeps one.\<close>

lemma promoted_thread:
  assumes "promote_thread i g s = (Inr (), s')" and "i \<in> thread_ids (db_tabs s)"
  shows "\<exists>r \<in> set (t_threads (db_tabs s')). th_id r = i \<and> th_grantee r \<noteq> None"
proof -
  have t: "t_threads (db_tabs s') = t_threads (claim_thread i g (db_tabs s))"
    using set_thread_grantee_ok[OF assms(1)[unfolded promote_thread_def]] by (simp add: claim_messages_def)
  from assms(2) obtain r where r: "r \<in> set (t_threads (db_tabs s))" "th_id r = i" by (auto simp: thread_ids_def)
  show ?thesis
  proof (cases "th_grantee r")
    case None
    then have "r\<lparr>th_grantee := Some g\<rparr> \<in> set (t_threads (db_tabs s'))" using r unfolding t by (auto simp: claim_thread_def row_simps)
    then show ?thesis using r by (intro bexI[of _ "r\<lparr>th_grantee := Some g\<rparr>"]) simp_all
  next
    case (Some h)
    then have "r \<in> set (t_threads (db_tabs s'))" using r unfolding t by (force simp: claim_thread_def row_simps)
    then show ?thesis using r Some by auto
  qed
qed

lemma owned_thread_stays:
  assumes "mail_grows (snap s) (snap s')" and "\<exists>r \<in> set (t_threads (db_tabs s)). th_id r = i \<and> th_grantee r \<noteq> None"
  shows "\<exists>r \<in> set (t_threads (db_tabs s')). th_id r = i \<and> th_grantee r \<noteq> None"
proof -
  obtain r where r: "r \<in> set (t_threads (db_tabs s))" "th_id r = i" "th_grantee r \<noteq> None" using assms(2) by blast
  have "grows thread_kept (t_threads (db_tabs s)) (t_threads (db_tabs s'))" using assms(1) by (simp add: mail_grows_def snap_def)
  from grows_mem[OF this r(1)] r(2,3) show ?thesis by (auto simp: thread_kept_def)
qed

lemma index_runs_on:
  assumes "index_run w \<sigma> (s, jobs)" and "k < length jobs" "jobs ! k = (j, st)" "index_next w now j st s = (st', s')"
    and "index_run w (s', jobs[k := (j, st')]) \<sigma>'"
  shows "index_run w \<sigma> \<sigma>'"
  by (rule index_run_trans[OF assms(5) index_run.step[OF assms(1) index_step.advance[OF assms(2-4)]]])

lemma lost_attribution:
  assumes sch: "schema w (db_tabs s\<^sub>0) (db_seqs s\<^sub>0)" and start: "index_run w (s\<^sub>0, []) (s, jobs)"
    and job: "k < length jobs" "jobs ! k = (j, Unmapped i)"
    and read: "index_next w now j (Unmapped i) s = (Resolved i res, s\<^sub>1)" "rs_grantee res = None"
    and meanwhile: "index_run w (s\<^sub>1, jobs[k := (j, Resolved i res)]) (s\<^sub>2, jobs\<^sub>2)"
    and other: "k' < length jobs\<^sub>2" "jobs\<^sub>2 ! k' = (j', Stored i res')" "rs_grantee res' = Some g" "rs_sender res'"
    and promotion: "index_next w now' j' (Stored i res') s\<^sub>2 = (Promoted i, s\<^sub>3)"
    and after: "index_run w (s\<^sub>3, jobs\<^sub>2[k' := (j', Promoted i)]) (s\<^sub>4, jobs\<^sub>4)"
    and waits: "k < length jobs\<^sub>4" "jobs\<^sub>4 ! k = (j, Resolved i res)"
    and new_mail: "p_message_id (jb_parsed j) \<notin> ms_message_id ` set (t_messages (db_tabs s\<^sub>4))"
    and store: "index_next w now'' j (Resolved i res) s\<^sub>4 = (Stored i res, s\<^sub>5)"
  shows "index_run w (s\<^sub>0, []) (s\<^sub>5, jobs\<^sub>4[k := (j, Stored i res)])"
    and "\<exists>r \<in> set (t_threads (db_tabs (snd (alone w now'' j n (Stored i res) s\<^sub>5)))). th_id r = i \<and> th_grantee r \<noteq> None"
    and "\<exists>m \<in> set (t_messages (db_tabs (snd (alone w now'' j n (Stored i res) s\<^sub>5)))).
      ms_message_id m = p_message_id (jb_parsed j) \<and> ms_thread m = i \<and> ms_grantee m = None"
proof -
  have run1: "index_run w (s\<^sub>0, []) (s\<^sub>2, jobs\<^sub>2)" by (rule index_runs_on[OF start job read(1) meanwhile])
  have run2: "index_run w (s\<^sub>0, []) (s\<^sub>4, jobs\<^sub>4)" by (rule index_runs_on[OF run1 other(1,2) promotion after])
  show "index_run w (s\<^sub>0, []) (s\<^sub>5, jobs\<^sub>4[k := (j, Stored i res)])"
    by (rule index_runs_on[OF run2 waits store index_run.start])
  have "index_inv w (s\<^sub>2, jobs\<^sub>2)" by (rule index_inv_run[OF run1]) (simp add: index_inv_def sch)
  moreover have "(j', Stored i res') \<in> set jobs\<^sub>2" using other(1,2) by (metis nth_mem)
  ultimately have "i \<in> thread_ids (db_tabs s\<^sub>2)" by (auto simp: index_inv_def)
  moreover have "promote_thread i g s\<^sub>2 = (Inr (), s\<^sub>3)"
    using promotion other(3,4) by (auto simp: stage_of_def wrapped_def wrapE_eq split: sum.splits prod.splits)
  ultimately have "\<exists>r \<in> set (t_threads (db_tabs s\<^sub>3)). th_id r = i \<and> th_grantee r \<noteq> None" by (metis promoted_thread)
  then have owned4: "\<exists>r \<in> set (t_threads (db_tabs s\<^sub>4)). th_id r = i \<and> th_grantee r \<noteq> None"
    by (rule owned_thread_stays[OF index_run_grows[OF after, simplified]])
  have quiet: "unowned_end (Stored i res)" using read(2) by (simp add: unowned_end_def)
  note rest = unowned_end_alone[OF quiet, of w now'' j n s\<^sub>5]
  show "\<exists>r \<in> set (t_threads (db_tabs (snd (alone w now'' j n (Stored i res) s\<^sub>5)))). th_id r = i \<and> th_grantee r \<noteq> None"
    using owned_thread_stays[OF mail_index.ev_index_next[OF store] owned4] rest by (metis owned_thread_stays)
  obtain x where ins: "insert_message w now'' (job_message j i res) s\<^sub>4 = (Inr x, s\<^sub>5)"
    using store by (auto simp: stage_of_def wrapped_def wrapE_eq split: sum.splits prod.splits)
  have msg: "m_message_id (job_message j i res) = p_message_id (jb_parsed j)" "m_thread (job_message j i res) = i"
    "m_grantee (job_message j i res) = None" using read(2) by (simp_all add: job_message_def message_of_def)
  have "p_message_id (jb_parsed j) \<in> ms_message_id ` set (t_messages (db_tabs s\<^sub>5))" using insert_stores[OF ins] msg(1) by simp
  then obtain n' where "t_messages (db_tabs s\<^sub>5) = t_messages (db_tabs s\<^sub>4) @ [(message_row_of now'' (job_message j i res))\<lparr>ms_id := n'\<rparr>]"
    using insert_message_tabs(2)[OF ins] new_mail by auto
  then have "(message_row_of now'' (job_message j i res))\<lparr>ms_id := n'\<rparr> \<in> set (t_messages (db_tabs s\<^sub>5))" by simp
  then show "\<exists>m \<in> set (t_messages (db_tabs (snd (alone w now'' j n (Stored i res) s\<^sub>5)))).
      ms_message_id m = p_message_id (jb_parsed j) \<and> ms_thread m = i \<and> ms_grantee m = None"
    using rest msg by (intro bexI[of _ "(message_row_of now'' (job_message j i res))\<lparr>ms_id := n'\<rparr>"]) (simp_all add: message_row_of_def)
qed

lemma alone_attributed:
  assumes "schema w (db_tabs s) (db_seqs s)" and "attributed (db_tabs s)"
  shows "attributed (db_tabs (snd (alone w now j 10 Fresh s)))"
proof -
  let ?p = "jb_parsed j"
  obtain r s' where run: "index_parsed w now (jb_folder j) (jb_uid j) (jb_validity j) (jb_size j) ?p s = (r, s')" by fastforce
  from evolvesD[OF index_parsed_attr run, of w] show ?thesis
    using assms by (simp add: stages_alone run attr_step_def snap_def)
qed

text \<open>C25: concurrent workers lose attribution, because \<open>handleMessage\<close> reads the owner of the thread in one statement and stores
  the message in another. Take any run of any number of workers on any database: one worker, whose sender belongs to
  nobody, reads that its thread has no grantee; another worker, whose sender is mapped, promotes that thread; then the
  first one stores its message, which is new to the database. The run is possible, the message has no grantee although
  its thread has one, and this is still so after any number of the worker's remaining stages: nothing looks at the
  thread again before the next promotion. Without the interleaving it cannot happen: from an attributed database a
  worker that makes all its stages alone leaves an attributed one.\<close>

theorem workers_lose_attribution:
  assumes "schema w (db_tabs s\<^sub>0) (db_seqs s\<^sub>0)" and "index_run w (s\<^sub>0, []) (s, jobs)"
    and "k < length jobs" "jobs ! k = (j, Unmapped i)"
    and "index_next w now j (Unmapped i) s = (Resolved i res, s\<^sub>1)" "rs_grantee res = None"
    and "index_run w (s\<^sub>1, jobs[k := (j, Resolved i res)]) (s\<^sub>2, jobs\<^sub>2)"
    and "k' < length jobs\<^sub>2" "jobs\<^sub>2 ! k' = (j', Stored i res')" "rs_grantee res' = Some g" "rs_sender res'"
    and "index_next w now' j' (Stored i res') s\<^sub>2 = (Promoted i, s\<^sub>3)"
    and "index_run w (s\<^sub>3, jobs\<^sub>2[k' := (j', Promoted i)]) (s\<^sub>4, jobs\<^sub>4)"
    and "k < length jobs\<^sub>4" "jobs\<^sub>4 ! k = (j, Resolved i res)"
    and "p_message_id (jb_parsed j) \<notin> ms_message_id ` set (t_messages (db_tabs s\<^sub>4))"
    and "index_next w now'' j (Resolved i res) s\<^sub>4 = (Stored i res, s\<^sub>5)"
  shows "index_run w (s\<^sub>0, []) (s\<^sub>5, jobs\<^sub>4[k := (j, Stored i res)]) \<and>
    (\<forall>n. let s\<^sub>6 = snd (alone w now'' j n (Stored i res) s\<^sub>5) in
      (\<exists>r \<in> set (t_threads (db_tabs s\<^sub>6)). th_id r = i \<and> th_grantee r \<noteq> None) \<and>
      (\<exists>m \<in> set (t_messages (db_tabs s\<^sub>6)).
        ms_message_id m = p_message_id (jb_parsed j) \<and> ms_thread m = i \<and> ms_grantee m = None) \<and>
      \<not> attributed (db_tabs s\<^sub>6)) \<and>
    (\<forall>u. schema w (db_tabs u) (db_seqs u) \<and> attributed (db_tabs u) \<longrightarrow>
      attributed (db_tabs (snd (alone w now j 10 Fresh u))))"
proof (intro conjI allI impI)
  note lost = lost_attribution[OF assms]
  show "index_run w (s\<^sub>0, []) (s\<^sub>5, jobs\<^sub>4[k := (j, Stored i res)])" by (rule lost(1))
  show "let s\<^sub>6 = snd (alone w now'' j n (Stored i res) s\<^sub>5) in
      (\<exists>r \<in> set (t_threads (db_tabs s\<^sub>6)). th_id r = i \<and> th_grantee r \<noteq> None) \<and>
      (\<exists>m \<in> set (t_messages (db_tabs s\<^sub>6)).
        ms_message_id m = p_message_id (jb_parsed j) \<and> ms_thread m = i \<and> ms_grantee m = None) \<and>
      \<not> attributed (db_tabs s\<^sub>6)" for n
    using lost(2,3)[of n] unfolding attributed_def Let_def by blast
  show "attributed (db_tabs (snd (alone w now j 10 Fresh u)))"
    if "schema w (db_tabs u) (db_seqs u) \<and> attributed (db_tabs u)" for u
    using that alone_attributed by blast
qed

text \<open>The schedule above, cut at the stages the property names.\<close>

definition demo_cut :: "nat list \<Rightarrow> workers \<Rightarrow> workers" where
  "demo_cut ks \<sigma> = run_schedule demo_world 9 ks \<sigma>"

lemma cut_step:
  assumes "map fst (snd \<sigma>) = js" "map snd (snd \<sigma>) = sts" "map snd (snd (demo_cut [k] \<sigma>)) = sts'" and "k < length js"
  shows "k < length (snd \<sigma>)" "snd \<sigma> ! k = (js ! k, sts ! k)"
    "index_next demo_world 9 (js ! k) (sts ! k) (fst \<sigma>) = (sts' ! k, fst (demo_cut [k] \<sigma>))"
    "snd (demo_cut [k] \<sigma>) = (snd \<sigma>)[k := (js ! k, sts' ! k)]"
proof -
  obtain s jobs where \<sigma>: "\<sigma> = (s, jobs)" by (cases \<sigma>)
  have k: "k < length jobs" using assms(1,4) \<sigma> by auto
  have job: "jobs ! k = (js ! k, sts ! k)" using assms(1,2) \<sigma> k by auto
  obtain st' s' where n: "index_next demo_world 9 (js ! k) (sts ! k) s = (st', s')" by fastforce
  have cut: "demo_cut [k] \<sigma> = (s', jobs[k := (js ! k, st')])" using k job n by (simp add: demo_cut_def \<sigma>)
  then have "sts' ! k = st'" using assms(3) k by auto
  then show "k < length (snd \<sigma>)" "snd \<sigma> ! k = (js ! k, sts ! k)"
    "index_next demo_world 9 (js ! k) (sts ! k) (fst \<sigma>) = (sts' ! k, fst (demo_cut [k] \<sigma>))"
    "snd (demo_cut [k] \<sigma>) = (snd \<sigma>)[k := (js ! k, sts' ! k)]"
    using cut n k job \<sigma> by simp_all
qed

lemma cut_run: "snd \<sigma> = jobs \<Longrightarrow> index_run demo_world (fst \<sigma>, jobs) (fst (demo_cut ks \<sigma>), snd (demo_cut ks \<sigma>))"
  using schedule_run[of demo_world \<sigma> 9 ks] by (auto simp: demo_cut_def)

definition demo_read :: workers where
  "demo_read = demo_cut [1, 1] (demo_mapped, demo_jobs)"

definition demo_meanwhile :: workers where
  "demo_meanwhile = demo_cut [0, 0, 0] (demo_cut [1] demo_read)"

definition demo_after :: workers where
  "demo_after = demo_cut [0] (demo_cut [0] demo_meanwhile)"

definition demo_lost :: workers where
  "demo_lost = demo_cut [1] demo_after"

lemma demo_stages:
  "map snd (snd demo_read) = [Fresh, Unmapped 1]"
  "map snd (snd (demo_cut [1] demo_read)) = [Fresh, Resolved 1 unresolved]"
  "map snd (snd demo_meanwhile) = [Stored 1 (by_sender ''ann''), Resolved 1 unresolved]"
  "map snd (snd (demo_cut [0] demo_meanwhile)) = [Promoted 1, Resolved 1 unresolved]"
  "map snd (snd demo_after) = [Over (Inr ()), Resolved 1 unresolved]"
  "map snd (snd demo_lost) = [Over (Inr ()), Stored 1 unresolved]"
  by code_simp+

lemma demo_job_lists:
  "map fst (snd demo_read) = map fst demo_jobs" "map fst (snd demo_meanwhile) = map fst demo_jobs"
  "map fst (snd demo_after) = map fst demo_jobs"
  by code_simp+

lemma demo_new: "''b@x'' \<notin> ms_message_id ` set (t_messages (db_tabs (fst demo_after)))" by code_simp

lemma demo_mapped_schema: "schema demo_world (db_tabs demo_mapped) (db_seqs demo_mapped)"
  by (simp add: demo_mapped_def demo_mail_def demo_thread_def demo_simps schema_def ok_defs grantee_status_ok_def grantee_ids_def)

lemma demo_begin: "index_run demo_world (demo_mapped, []) (demo_mapped, demo_jobs)"
proof -
  have 1: "index_run demo_world (demo_mapped, []) (demo_mapped, [hd demo_jobs])"
    using index_run.step[OF index_run.start index_step.begin_job[of demo_world demo_mapped "[]" "fst (hd demo_jobs)"]]
    by (simp add: demo_jobs_def)
  show ?thesis
    using index_run.step[OF 1 index_step.begin_job[of demo_world demo_mapped _ "demo_job ''Sent'' 8 ''b@x'' ''bob@x''"]]
    by (simp add: demo_jobs_def)
qed

theorem workers_lose_attribution_witness:
  "index_run demo_world (demo_mapped, []) demo_lost \<and> \<not> attributed (db_tabs (fst demo_lost))"
proof -
  let ?js = "map fst demo_jobs"
  have len: "1 < length ?js" "0 < length ?js" and j: "p_message_id (jb_parsed (?js ! 1)) = ''b@x''"
    by (simp_all add: demo_jobs_def demo_job_def demo_reply_def)
  note st1 = cut_step[OF demo_job_lists(1) demo_stages(1,2) len(1)]
  note st2 = cut_step[OF demo_job_lists(2) demo_stages(3,4) len(2)]
  note st3 = cut_step[OF demo_job_lists(3) demo_stages(5) demo_stages(6)[unfolded demo_lost_def] len(1), folded demo_lost_def]
  have nth1: "(x # y # zs) ! 1 = y" "(x # zs) ! 0 = x" for x y :: index_stage and zs by simp_all
  have r0: "index_run demo_world (demo_mapped, []) (fst demo_read, snd demo_read)"
    using index_run_trans[OF cut_run[OF refl, of "(demo_mapped, demo_jobs)" "[1, 1]"]] demo_begin by (simp add: demo_read_def)
  note r1 = cut_run[OF st1(4)[unfolded nth1], of "[0, 0, 0]", folded demo_meanwhile_def]
  note r2 = cut_run[OF st2(4)[unfolded nth1], of "[0]", folded demo_after_def]
  have "rs_grantee unresolved = None" "rs_grantee (by_sender ''ann'') = Some ''ann''" "rs_sender (by_sender ''ann'')"
    by (simp_all add: unresolved_def by_sender_def)
  note lost = workers_lose_attribution[OF demo_mapped_schema r0 st1(1,2)[unfolded nth1] st1(3)[unfolded nth1] this(1) r1
      st2(1,2)[unfolded nth1] this(2,3) st2(3)[unfolded nth1] r2 st3(1,2)[unfolded nth1] demo_new[folded j] st3(3)[unfolded nth1]]
  from lost have "index_run demo_world (demo_mapped, []) (fst demo_lost, (snd demo_after)[1 := (?js ! 1, Stored 1 unresolved)])" by blast
  moreover from lost have "\<not> attributed (db_tabs (snd (alone demo_world 9 (?js ! 1) 0 (Stored 1 unresolved) (fst demo_lost))))"
    unfolding Let_def by blast
  ultimately show ?thesis unfolding st3(4)[unfolded nth1, symmetric] by simp
qed

theorem indexed_is_stored_witness:
  "\<exists>!m. m \<in> set (t_messages (db_tabs (fst demo_raced))) \<and> ms_message_id m = ''b@x''"
proof -
  let ?j = "demo_job ''Sent'' 8 ''b@x'' ''bob@x''"
  have run: "index_run demo_world (demo_mapped, []) demo_raced"
    using index_run_trans[OF schedule_run demo_begin] unfolding demo_raced_def .
  have last_job: "snd demo_raced = [(fst (hd demo_jobs), Over (Inr ())), (?j, Over (Inr ()))]"
  proof -
    have "map fst (snd demo_raced) = map fst demo_jobs" by code_simp
    then show ?thesis using demo_race_done by (auto simp: demo_jobs_def map_eq_Cons_conv)
  qed
  have "index_run demo_world (demo_mapped, []) (fst demo_raced, snd demo_raced)" using run by simp
  from indexed_is_stored[OF this demo_mapped_schema] have "\<forall>x \<in> set (snd demo_raced). case x of (j, st) \<Rightarrow> st = Over (Inr ()) \<longrightarrow>
      (\<exists>!m. m \<in> set (t_messages (db_tabs (fst demo_raced))) \<and> ms_message_id m = p_message_id (jb_parsed j))" by blast
  then show ?thesis unfolding last_job by (simp add: demo_job_def demo_reply_def)
qed

end
