(* ===== verification/Services.thy ===== *)
theory Services
  imports AdminCli Watch
begin

text \<open>
  The long-running commands of \<open>cmd/api/main.go\<close> up to their end: the two HTTP servers (\<open>Run\<close> of \<open>internal/mcpserver\<close> and
  \<open>internal/approvalserver\<close>) and the mail workers (\<open>Indexer.Run\<close> and the join of \<open>index-mail\<close>). What ends a server is a
  \<open>server_event\<close>. A worker's sessions may each begin in any state of database and attachment store, since other workers and
  commands run between them, so a worker is given as the states, sessions and context tests it meets, round by round.

  Main results: a worker waits \<open>2\<^sup>i\<close> seconds, at most a minute, before its \<open>i\<close>-th reconnection, however its sessions
  went (\<open>worker_waits\<close>); after a stop signal \<open>index-mail\<close> returns, with exit status 0, and nothing else ends it
  (\<open>index_mail_stops\<close>).
\<close>

section \<open>HTTP servers\<close>

text \<open>What the \<open>select\<close> of \<open>Run\<close> takes first: the end of the context or of the listener.\<close>

datatype server_event =
    Interrupted
  | ListenerEnded "err option"

definition err_server_closed :: err where "err_server_closed = ErrNew ''http: Server closed''"

fun server_result :: "server_event \<Rightarrow> err option" where
  "server_result Interrupted = Some ErrCanceled"
| "server_result (ListenerEnded None) = None"
| "server_result (ListenerEnded (Some e)) = (if err_is e err_server_closed then None else Some e)"

definition run_approval_server :: "string \<Rightarrow> server_event \<Rightarrow> err option" where
  "run_approval_server bind ev =
     (if bind = [] then Some (ErrNew ''approval bind address is required'') else server_result ev)"

definition run_mcp_server :: "mcp_config \<Rightarrow> (string \<Rightarrow> 'a) \<Rightarrow> server_event \<Rightarrow> err option" where
  "run_mcp_server mc stream ev = (case run_mcp mc stream of Inl e \<Rightarrow> Some e | Inr srv \<Rightarrow> server_result ev)"

definition serve_command :: "world \<Rightarrow> host \<Rightarrow> (string \<Rightarrow> 'a) \<Rightarrow> server_event \<Rightarrow> err option" where
  "serve_command w h stream ev = (case serve_setup w h of Inl e \<Rightarrow> Some e | Inr (mc, d) \<Rightarrow> run_mcp_server mc stream ev)"

definition approve_serve_command :: "world \<Rightarrow> host \<Rightarrow> int \<Rightarrow> server_event \<Rightarrow> err option" where
  "approve_serve_command w h now ev =
     (case approve_serve_setup w h now of Inl e \<Rightarrow> Some e | Inr (bind, r) \<Rightarrow> run_approval_server bind ev)"

text \<open>Once set up, a server ends as its event says: the checks of \<open>Run\<close> cannot fail behind those of the configuration.\<close>

lemma serve_command_runs:
  assumes "serve_setup w h = Inr (mc, d)"
  shows "serve_command w h stream ev = server_result ev"
  using assms by (auto simp: serve_command_def run_mcp_server_def run_mcp_def serve_setup_def require_ok split: sum.splits option.splits)

lemma approve_serve_command_runs:
  assumes "approve_serve_setup w h now = Inr (bind, r)"
  shows "approve_serve_command w h now ev = server_result ev"
  using assms by (auto simp: approve_serve_command_def run_approval_server_def approve_serve_setup_def require_ok
      split: sum.splits option.splits)

section \<open>Mail workers\<close>

text \<open>
  \<open>Indexer.Run\<close>: session \<open>k\<close> ends with \<open>ends k\<close>; \<open>stop\<close>, \<open>ended\<close> and \<open>brk\<close> are the tests of the context before it, after it,
  and during the wait. The result is the error \<open>Run\<close> returns (\<open>None\<close> when the fuel of the loop or of a session ran out) and
  the waits in seconds.
\<close>

fun indexer_run ::
  "(nat \<Rightarrow> bool) \<Rightarrow> (nat \<Rightarrow> bool) \<Rightarrow> (nat \<Rightarrow> bool) \<Rightarrow> (nat \<Rightarrow> (err + unit) option) \<Rightarrow> nat \<Rightarrow> nat \<Rightarrow> int \<Rightarrow> err option \<times> int list" where
  "indexer_run stop ended brk ends 0 k b = (None, [])"
| "indexer_run stop ended brk ends (Suc n) k b =
     (if stop k then (Some ErrCanceled, [])
      else (case ends k of
          None \<Rightarrow> (None, [])
        | Some r \<Rightarrow>
            if ended k then (Some ErrCanceled, [])
            else (case r of
                Inl e \<Rightarrow>
                  if brk k then (Some ErrCanceled, [b])
                  else (case indexer_run stop ended brk ends n (k + 1) (next_backoff b) of (x, ws) \<Rightarrow> (x, b # ws))
              | Inr _ \<Rightarrow> indexer_run stop ended brk ends n (k + 1) 1)))"

record worker =
  wk_now :: "nat \<Rightarrow> int"
  wk_clock :: "nat \<Rightarrow> gotime"
  wk_session :: "nat \<Rightarrow> session"
  wk_state :: "nat \<Rightarrow> mail_state"
  wk_stop :: "nat \<Rightarrow> bool"
  wk_ended :: "nat \<Rightarrow> bool"
  wk_break :: "nat \<Rightarrow> bool"

definition session_end :: "world \<Rightarrow> mail_lib \<Rightarrow> nat \<Rightarrow> string \<Rightarrow> worker \<Rightarrow> nat \<Rightarrow> (err + unit) option" where
  "session_end w lib fuel folder wk k =
     fst (run_once w lib (wk_now wk k) (wk_clock wk k) folder (wk_session wk k) fuel (wk_state wk k))"

definition run_worker :: "world \<Rightarrow> mail_lib \<Rightarrow> nat \<Rightarrow> nat \<Rightarrow> string \<Rightarrow> worker \<Rightarrow> err option \<times> int list" where
  "run_worker w lib fuel n folder wk =
     indexer_run (wk_stop wk) (wk_ended wk) (wk_break wk) (session_end w lib fuel folder wk) n 0 1"

text \<open>
  \<open>index-mail\<close>: the workers in the order in which they end, each with its folder; \<open>dn\<close> tells whether the context is done when
  the last one has ended. \<open>None\<close> when a worker has not ended within its fuel.
\<close>

definition index_mail ::
  "world \<Rightarrow> host \<Rightarrow> mail_lib \<Rightarrow> nat \<Rightarrow> nat \<Rightarrow> (string \<times> worker) list \<Rightarrow> bool \<Rightarrow> err option option" where
  "index_mail w h lib fuel n workers dn =
     (case index_mail_setup w h of
        Inl e \<Rightarrow> Some (Some e)
      | Inr folders \<Rightarrow>
          (case those (map (\<lambda>(folder, wk). fst (run_worker w lib fuel n folder wk)) workers) of
             None \<Rightarrow> None
           | Some errs \<Rightarrow> Some (index_mail_result (map Some errs) (if dn then Some ErrCanceled else None))))"

section \<open>How workers wait and end\<close>

lemma next_backoff_power: "next_backoff (min 60 (2 ^ j)) = min 60 (2 ^ Suc j)"
  by (auto simp: next_backoff_def min_def)

lemma indexer_run_waits:
  "(\<And>k. ends k \<noteq> Some (Inr ())) \<Longrightarrow>
   snd (indexer_run stop ended brk ends n k (min 60 (2 ^ j))) =
     map (\<lambda>i. min 60 (2 ^ (j + i))) [0..<length (snd (indexer_run stop ended brk ends n k (min 60 (2 ^ j))))]"
proof (induction n arbitrary: k j)
  case (Suc n)
  obtain x ws where r: "indexer_run stop ended brk ends n (k + 1) (min 60 (2 ^ Suc j)) = (x, ws)" by fastforce
  have ws: "ws = map (\<lambda>i. min 60 (2 ^ (j + Suc i))) [0..<length ws]" using Suc.IH[OF Suc.prems, of "k + 1" "Suc j"] r by simp
  have "min 60 (2 ^ j) # ws = map (\<lambda>i. min 60 (2 ^ (j + i))) [0..<Suc (length ws)]"
    by (subst ws) (simp add: upt_conv_Cons map_Suc_upt[symmetric] del: upt_Suc power_Suc)
  then show ?case using r Suc.prems[of k]
    by (simp add: next_backoff_power split: option.split sum.split del: power_Suc)
qed simp

lemma indexer_run_result:
  "fst (indexer_run stop ended brk ends n k b) = Some e \<Longrightarrow> e = ErrCanceled"
  by (induction n arbitrary: k b) (auto simp: prod.case_eq_if split: if_splits option.splits sum.splits)

lemma indexer_run_returns:
  "(\<And>i. ends i \<noteq> None) \<Longrightarrow> stop (k + d) \<Longrightarrow> d < n \<Longrightarrow> fst (indexer_run stop ended brk ends n k b) = Some ErrCanceled"
proof (induction n arbitrary: k b d)
  case (Suc n)
  show ?case
  proof (cases d)
    case 0
    then show ?thesis using Suc.prems by simp
  next
    case (Suc d')
    have "fst (indexer_run stop ended brk ends n (k + 1) b') = Some ErrCanceled" for b'
      using Suc.IH[of "k + 1" d' b'] Suc.prems Suc by simp
    then show ?thesis using Suc.prems(1)[of k] by (auto simp: prod.case_eq_if split: option.split sum.split)
  qed
qed simp

lemma index_mail_result_canceled: "index_mail_result (map Some (replicate n ErrCanceled)) ctx = ctx"
  by (induction n) simp_all

text \<open>C27: what a mail worker waits: whatever its sessions do and however the context is tested, the waits of a worker are those of
  the closed form: \<open>2\<^sup>i\<close> seconds, at most a minute, before the \<open>i\<close>-th reconnection. The wait never becomes short again,
  since a session ends only with an error and the branch of \<open>Run\<close> that resets the backoff is never taken.\<close>

theorem worker_waits:
  "snd (run_worker w lib fuel n folder wk) = map (\<lambda>i. min 60 (2 ^ i)) [0..<length (snd (run_worker w lib fuel n folder wk))]"
proof -
  have "session_end w lib fuel folder wk k \<noteq> Some (Inr ())" for k using run_once_error by (simp add: session_end_def)
  from indexer_run_waits[where j = 0, OF this] show ?thesis by (simp add: run_worker_def)
qed

text \<open>C26: \<open>index-mail\<close> stops when told to, and only then: when every session of its workers comes to an end and each worker finds the
  context done in some round below its fuel, the command returns and the process exits with status 0; and whatever its
  workers met, an error of a folder never ends it: the only result it can have is that of the context.\<close>

theorem index_mail_stops:
  assumes started: "index_mail_setup w h = Inr folders" and workers: "mset (map fst workers) = mset folders"
    and sessions: "\<forall>(folder, wk) \<in> set workers. \<forall>k. session_end w lib fuel folder wk k \<noteq> None"
    and stops: "\<forall>(folder, wk) \<in> set workers. \<exists>k < n. wk_stop wk k"
  shows "workers \<noteq> [] \<and> index_mail w h lib fuel n workers dn = Some (if dn then Some ErrCanceled else None) \<and>
    exit_status (if dn then Some ErrCanceled else None) = 0 \<and>
    (\<forall>m r. index_mail w h lib fuel m workers dn = Some r \<longrightarrow> r = (if dn then Some ErrCanceled else None))"
proof -
  have "folders \<noteq> []" using started by (auto simp: index_mail_setup_def require_ok split: sum.splits option.splits)
  then have ne: "workers \<noteq> []" using workers by auto
  have canceled: "errs = replicate (length errs) ErrCanceled"
    if "those (map (\<lambda>(folder, wk). fst (run_worker w lib fuel m folder wk)) ws) = Some errs" for m ws errs
    using that by (induction ws arbitrary: errs) (auto simp: run_worker_def dest!: indexer_run_result split: option.splits)
  have result: "r = (if dn then Some ErrCanceled else None)" if res: "index_mail w h lib fuel m workers dn = Some r" for m r
  proof -
    obtain errs where errs: "those (map (\<lambda>(folder, wk). fst (run_worker w lib fuel m folder wk)) workers) = Some errs"
      and r: "r = index_mail_result (map Some errs) (if dn then Some ErrCanceled else None)"
      using res started by (auto simp: index_mail_def split: option.splits)
    show ?thesis unfolding r by (subst canceled[OF errs]) (rule index_mail_result_canceled)
  qed
  have "fst (run_worker w lib fuel n folder wk) = Some ErrCanceled" if "(folder, wk) \<in> set workers" for folder wk
    using that sessions stops indexer_run_returns[of "session_end w lib fuel folder wk" "wk_stop wk" 0]
    by (fastforce simp: run_worker_def)
  then have "map (\<lambda>(folder, wk). fst (run_worker w lib fuel n folder wk)) workers = map (\<lambda>_. Some ErrCanceled) workers" by auto
  moreover have "those (map (\<lambda>_. Some ErrCanceled) ws) = Some (map (\<lambda>_. ErrCanceled) ws)" for ws :: "(string \<times> worker) list"
    by (induction ws) simp_all
  ultimately have "those (map (\<lambda>(folder, wk). fst (run_worker w lib fuel n folder wk)) workers) = Some (map (\<lambda>_. ErrCanceled) workers)"
    by metis
  then have "\<exists>r. index_mail w h lib fuel n workers dn = Some r" unfolding index_mail_def started by simp
  then show ?thesis using ne result by auto
qed

section \<open>A run\<close>

definition demo_mail_host :: host where
  "demo_mail_host = demo_host\<lparr>ho_env := (\<lambda>n. if n = ''DATABASE_URL'' then ''db'' else if n = ''IMAP_ADDR'' then ''h:143''
     else if n = ''IMAP_USER'' then ''u'' else if n = ''IMAP_PASS'' then ''p'' else if n = ''MAIL_ATTACHMENTS_DIR'' then ''/att'' else [])\<rparr>"

text \<open>A worker whose server refuses every connection until it is stopped in its third round.\<close>

definition demo_session :: session where
  "demo_session = \<lparr> se_dial = Some (ErrDriver ''refused''), se_login = None, se_select = Inr 1, se_fetch = (\<lambda>_ _. ([], None)),
     se_done = (\<lambda>_. False), se_idle = (\<lambda>_. Inr False) \<rparr>"

definition demo_worker :: "mail_state \<Rightarrow> worker" where
  "demo_worker st = \<lparr> wk_now = (\<lambda>_. 9), wk_clock = (\<lambda>_. 9), wk_session = (\<lambda>_. demo_session), wk_state = (\<lambda>_. st),
     wk_stop = (\<lambda>k. k = 2), wk_ended = (\<lambda>_. False), wk_break = (\<lambda>_. False) \<rparr>"

lemma demo_mail_setup: "index_mail_setup demo_world demo_mail_host = Inr [''INBOX'', ''Sent'']"
  by code_simp

theorem index_mail_stops_witness:
  "\<forall>lib st. index_mail demo_world demo_mail_host lib 1 3 [(''Sent'', demo_worker st), (''INBOX'', demo_worker st)] True =
     Some (Some ErrCanceled)"
proof (intro allI)
  fix lib st
  have "session_end demo_world lib 1 folder (demo_worker st) k \<noteq> None" for folder k
    by (simp add: session_end_def run_once_def demo_worker_def demo_session_def)
  moreover have "\<exists>k<3. wk_stop (demo_worker st) k" by (intro exI[of _ 2]) (simp add: demo_worker_def)
  moreover have "mset (map fst [(''Sent'', demo_worker st), (''INBOX'', demo_worker st)]) = mset [''INBOX'', ''Sent'']" by simp
  ultimately show "index_mail demo_world demo_mail_host lib 1 3 [(''Sent'', demo_worker st), (''INBOX'', demo_worker st)] True =
      Some (Some ErrCanceled)"
    using index_mail_stops[OF demo_mail_setup, of "[(''Sent'', demo_worker st), (''INBOX'', demo_worker st)]" lib 1 3 True] by simp
qed

end
