(* ===== verification/Spec2Isabelle.thy ===== *)
theory Spec2Isabelle
  imports ApprovalRace ApproveCli Revocation System IndexRace Services
begin

text \<open>
  A model of the balvibot backend: the module \<open>src/tools/api\<close>, written in Go, which serves an AI agent with the mail and
  documents of grantees and lets it ask for changes that a human operator must sign before they happen.

  \<^bold>\<open>The program.\<close> One Postgres database is shared by the processes of two binaries. \<open>api serve\<close> offers the agent MCP
  tools (\<open>internal/mcpserver\<close>): the reading tools answer at once, \<open>create_note\<close> writes at once, and the four mutating tools
  only queue an action. \<open>api approve-serve\<close> (\<open>internal/approvalserver\<close>) shows queued actions, takes an operator's SSH
  signature over the action (\<open>internal/approval\<close>), and only then runs its handler (\<open>internal/actions\<close>). The operator's client
  is the second binary, \<open>balvi-approve\<close> (\<open>cmd/approve\<close>). \<open>api index-mail\<close> (\<open>internal/mailbox\<close>, \<open>parse\<close>, \<open>grantee\<close>, \<open>cas\<close>)
  reads mail from IMAP, one worker per folder; \<open>api sync-gdocs\<close> (\<open>internal/sync\<close>, \<open>drive\<close>) exports the Google Docs the
  registered sources reach. The remaining subcommands of \<open>cmd/api\<close> administer grantees, sources, operators and the schema.
  All of them go through \<open>internal/store\<close>.

  \<^bold>\<open>How code becomes definitions.\<close>
  \<^item> A Go string is a list of bytes (\<open>string\<close>); a struct is a record, and an interface or closure is a function or a record of
    functions. Times are integers: nanoseconds (\<open>gotime\<close>) in the program, seconds in the database.
  \<^item> An error is a value of \<open>err\<close> (theory World), which keeps the chain that \<open>errors.Is\<close> looks through and the text. A
    fallible pure function returns \<open>err + 'a\<close>, or \<open>err option\<close> when it returns only an error.
  \<^item> A function that uses the database is a \<open>dbm\<close> (theory Db): it takes the database state and returns an error or a value
    with the new state. \<open>bindE\<close> is the early return on an error, \<open>tryE\<close> the code that looks at the error and goes on,
    \<open>in_tx\<close> a transaction. An SQL statement is an operation on the tables with the constraints of \<open>migrations/*.sql\<close>; before
    it runs it may fail with a fault from the list \<open>db_faults\<close>, which is arbitrary. So every theorem over a \<open>db\<close> covers the
    failure of any statement, rollbacks and lost connections included.
  \<^item> What the program calls and this repository does not contain is a parameter: the record \<open>world\<close> (Unicode case folding,
    collation, JSONB normalisation, parsing and checking of SSH keys and signatures, the choice among rows of a query without
    order), \<open>drive\<close> and \<open>drive_http\<close> (Drive's answers, which may change with every call), \<open>mail_lib\<close> and \<open>session\<close> (the MIME
    parser, SHA-256, the IMAP server), \<open>network\<close>, \<open>key_env\<close>, \<open>host\<close> (HTTP, ssh-agent and terminal, environment and files).
  \<^item> Integers that can overflow are words: an IMAP UID is a \<open>32 word\<close>, so the \<open>lastUID + 1\<close> a sync asks from wraps to 0 after
    the largest one (\<open>sync_folder\<close>; \<open>sync_uid_bounds\<close> states what is asked for and what is saved).

  \<^bold>\<open>The theories\<close>, in the order of their imports.
  \<^item> Prelude: the table operations (\<open>update_where\<close>, \<open>upsert_by\<close>, \<open>delete_where\<close>), the collections \<open>row_simps\<close> and \<open>go_simps\<close>, and
    the locale \<open>keyset\<close> of cursor pagination. GoText, GoTime, GoUrl, Durations, Base64, Json, JsonFields, JsonArrays,
    JsonIndent: the parts of Go's standard library whose exact results the program depends on, with their round trips.
  \<^item> World, Db, Schema: errors and parameters, the database and its statements, the constraints. The locale \<open>evolution\<close> of Db
    says what it takes for an operation to respect a relation between the tables before and after; invariants, frames and
    monotonicity of all components are interpretations of it.
  \<^item> StoreGrantees, StoreNotes, StoreApprovals, StoreDocs, StoreMail, StoreQueries: \<open>internal/store\<close>, one definition per
    method: upserts, back-filling of attributions, the queue with its guarded decisions, cycles, threads and messages, and
    every query with its filters, limits and cursors.
  \<^item> Approval, Actions: payload, signature check, registry, and the four handlers with their argument structs.
  \<^item> ApprovalServer, ApprovalHttp, ApprovalRace: the REST handlers, the mux behind a network that may fail, and the handler cut
    into stages that interleave, since \<open>net/http\<close> serves requests concurrently.
  \<^item> Signers, ApproveCli: the operator's client, from the selection of the key to what it prints and sends.
  \<^item> DriveSync, DriveClient: one sync cycle over Drive's interface, and the HTTP client behind that interface.
  \<^item> Threading, MailParse, Mailbox: message ids and subjects, the parser with the attachment store, attribution, indexing, the
    sync of a folder, sessions. IndexRace: \<open>handleMessage\<close> cut into stages that interleave with other workers. Watch: the
    notification channel of an idle session.
  \<^item> McpServer: bearer check, mux and the seventeen tools. Config, AdminCli, Services: configuration, every subcommand, and the
    long-running commands up to their end.
  \<^item> Revocation, System and this theory: properties across components. System has the whole deployment as histories of
    happenings over one database; this theory follows one request from the tool call to its effect.

  \<^bold>\<open>What is shown.\<close>
  \<^item> \<^emph>\<open>The approval gate.\<close> An action runs only behind a valid signature of a registered operator over exactly its id, name and
    arguments (\<open>approve_needs_signature\<close>, \<open>signing_payload_inj\<close>); what runs is what the agent's tool call asked for
    (\<open>approved_tool_call_performed\<close>) and what the client printed to the operator (\<open>cli_runs_what_it_shows\<close>); in any history of
    the system, operators, grantees, sender emails and sources change only by such an approval or by an administration
    command (\<open>privileged_needs_authority\<close>). Outcomes are recorded (\<open>approve_200_executed\<close>,
    \<open>approve_failure_recorded\<close>), at most one request per action is answered positively (\<open>one_approval_per_action\<close>),
    although two may run its handler (\<open>race_dispatches_twice\<close>).
  \<^item> \<^emph>\<open>Invariants of the deployment.\<close> Every operation, and so every history, keeps the schema, the attribution of messages in
    attributed threads and the notes within their grantee (\<open>system_invariant\<close>); mail and decided actions are never
    lost (\<open>system_history\<close>). A happening is one step there; IndexRace shows which of this survives interleaved workers
    (\<open>indexed_is_stored\<close>) and which does not (\<open>workers_lose_attribution\<close>: a thread is promoted between a worker's
    look at it and the worker's insertion).
  \<^item> \<^emph>\<open>Documents.\<close> The sync stores only what a registered source reaches (\<open>sync_only_whitelisted\<close>), leaves no unseen document
    active (\<open>sync_no_stale_active\<close>) except those of paused grantees and revoked sources (\<open>revoke_leaves_documents\<close>), and its walk returns
    (\<open>walk_folder_returns\<close>). The requests of the client arrive as they were meant (\<open>list_request_delivered\<close>).
  \<^item> \<^emph>\<open>Mail.\<close> A stored message is read back as it was (\<open>message_roundtrip\<close>), a reply joins its thread, a grantee's queries return
    only that grantee's mail, pages are complete; a failed message is skipped for good (\<open>sync_loses_failed\<close>). An idle
    session has fetched everything unless a notification is drained (\<open>watch_complete\<close>, \<open>arrival_drained\<close>).
  \<^item> \<^emph>\<open>Processes.\<close> \<open>serve\<close> never runs without a bearer token; the poll loop waits as its reference says (\<open>sync_gdocs_delays\<close>); mail
    workers back off and never recover (\<open>worker_waits\<close>), and stop when told to (\<open>index_mail_stops\<close>).

  \<^bold>\<open>Fuel.\<close> Four loops may run forever in the program and take fuel, with \<open>None\<close> for running out. The recursion over a Drive
  folder (\<open>walk_folder\<close>) ends when fuel exceeds the rank of the folder page, if Drive reports a well-founded tree
  (\<open>walk_folder_returns\<close>). The loop of an IMAP session, of a mail worker and of the sync poll are meant to run until stopped;
  fuel counts their rounds, and a worker that is told to stop in round \<open>k\<close> needs \<open>k + 1\<close> (\<open>index_mail_stops\<close>). Theorems
  about what such a loop does hold for every fuel. All other recursions are structural or proved terminating.

  \<^bold>\<open>Not modelled.\<close> Parsing of command-line flags (cobra), logging beyond \<open>truncateArgs\<close>, signals other than as the end of a
  context, the alignment of printed tables, timeouts and pool sizes, the pgx driver and the goose library, the MCP protocol
  and its JSON schemas (a tool call arrives decoded), the IMAP protocol and TLS, the listener and shutdown of the HTTP servers,
  and all cryptography: SSH keys, signatures and digests are parameters, and no theorem assumes that they cannot be forged. In System
  a happening (a tool call, a request, a command, a whole mail session or sync cycle) is one step. IndexRace interleaves the
  workers of the mail indexer at statements and transactions; ApprovalRace interleaves approve requests at their reads, the
  run of the handler (one step, although two of the four handlers read the grantee in a statement of its own) and the
  status update. Two sync cycles at once are not considered. Postgres's own text (error messages, collation tables) is
  reduced to what the program looks at. The test files of the repository are not part of the model.
\<close>

section \<open>From a tool call to its effect\<close>

lemma enqueued_row:
  assumes "enqueue_action w now action args meta by s = (Inr i, s')" and "schema w (db_tabs s) (db_seqs s)"
  shows "\<exists>ja jm. w_jsonb w (json_or_empty args) = Some ja \<and>
    lookup_by ac_id i (t_actions (db_tabs s')) = Some (new_action_row i now action ja jm (null_str by))"
proof -
  from assms(1) have "enqueue_sql w now action (json_or_empty args) (json_or_empty meta) (null_str by)
      (db_tabs s) (db_seqs s) = (Inr i, db_tabs s', db_seqs s')"
    by (auto simp: enqueue_action_def split: if_splits dest: pg_Inr(2))
  then obtain ja jm where j: "w_jsonb w (json_or_empty args) = Some ja" and i: "i = q_actions (db_seqs s)"
    and rows: "t_actions (db_tabs s') = t_actions (db_tabs s) @ [new_action_row i now action ja jm (null_str by)]"
    by (cases rule: enqueue_sql_cases) auto
  have "i \<notin> ac_id ` set (t_actions (db_tabs s))"
    using schema_parts(7)[OF assms(2)] i by (auto simp: ok_actions_def)
  then have "lookup_by ac_id i (t_actions (db_tabs s)) = None" by (auto simp: lookup_by_None)
  with j show ?thesis by (auto simp: rows row_simps new_action_row_def)
qed

lemma request_args_ne: "json_or_empty (request_args r) = request_args r"
  by (cases r) (simp_all add: json_or_empty_def add_grantee_args_def add_approval_user_args_def whitelist_doc_args_def
      authorize_grantee_email_args_def marshal_fields_def)

text \<open>C2: the whole path of a mutating tool: the agent's call queues an action; when an operator's approval of that id is answered
  with 200, what ran is exactly the operation the call asked for, on the trimmed values the agent gave, and nothing else
  changed but the record of the approval. In between the queued row must not have changed, which only a decision does.\<close>

theorem approved_tool_call_performed:
  assumes call: "call_tool w now0 drv c s0 = (Inr (OutEnqueued res), s1)" and inv: "schema w (db_tabs s0) (db_seqs s0)"
    and jsonb: "jsonb_keeps_fields w" and texts: "\<forall>r \<in> set_option (tool_request drv c). list_all valid_utf8 (request_texts r)"
    and kept: "lookup_by ac_id (er_id res) (t_actions (db_tabs s)) = lookup_by ac_id (er_id res) (t_actions (db_tabs s1))"
    and approved: "approve_action w (dispatch (service_registry w now)) now raw_id raw_body s = (Inr (200, b), s')"
    and id: "parse_id raw_id = Some (er_id res)"
  shows "\<exists>r before after. tool_request drv c = Some r \<and> db_tabs before = db_tabs s \<and> perform w now r before = (Inr (), after) \<and>
    (db_tabs s')\<lparr>t_actions := []\<rparr> = (db_tabs after)\<lparr>t_actions := []\<rparr> \<and> b = ApprovedBody (er_id res) ''executed''"
proof -
  from call obtain r meta "by" sq where r: "tool_request drv c = Some r" and sq: "snap sq = snap s0"
    and enq: "enqueue_action w now0 (request_action r) (request_args r) meta by sq = (Inr (er_id res), s1)"
    by (rule tool_enqueued)
  have "schema w (db_tabs sq) (db_seqs sq)" using inv sq by (simp add: snap_def)
  from enqueued_row[OF enq this] obtain ja jm where ja: "w_jsonb w (request_args r) = Some ja"
    and row: "lookup_by ac_id (er_id res) (t_actions (db_tabs s)) = Some (new_action_row (er_id res) now0 (request_action r) ja jm (null_str by))"
    by (auto simp: request_args_ne kept)
  have utf8: "list_all valid_utf8 (request_texts r)" using texts r by simp
  note run = stored_args_perform[OF jsonb ja utf8, of now] and ne = request_args_nonempty[OF jsonb ja utf8]
  show ?thesis
  proof (rule service.approve_ok[OF approved])
    fix i email x before after
    assume *: "parse_id raw_id = Some i" "lookup_by ac_id i (t_actions (db_tabs s)) = Some x" "b = ApprovedBody i approval_executed"
      "db_tabs before = db_tabs s" "dispatch (service_registry w now) (ac_action x) (json_or_empty (ac_args x)) before = (Inr (), after)"
      "db_tabs s' = (db_tabs after)\<lparr>t_actions := update_where (pending_row i) (executed_row now email) (t_actions (db_tabs s))\<rparr>"
    from *(1) have "i = er_id res" using id by simp
    have x: "x = new_action_row (er_id res) now0 (request_action r) ja jm (null_str by)"
      using *(2) row \<open>i = er_id res\<close> by simp
    have "perform w now r before = (Inr (), after)"
      using *(5) ne run by (simp add: x new_action_row_def json_or_empty_def)
    then show ?thesis using r * \<open>i = er_id res\<close> by (auto simp: approval_executed_def)
  qed
qed

definition demo_operated :: db where
  "demo_operated = demo_db\<lparr>db_tabs := (db_tabs demo_db)\<lparr>t_users := [demo_op]\<rparr>\<rparr>"

definition demo_add_bob :: tool_call where
  "demo_add_bob = AddGranteeTool \<lparr> ig_slug = '' bob '', ig_name = [], ig_signal = [], ig_requested_by = [] \<rparr>"

theorem approved_tool_call_performed_witness:
  "\<exists>before after. db_tabs before = db_tabs demo_ready \<and> perform demo_world 9 (AddGrantee ''bob'' []) before = (Inr (), after)"
proof -
  let ?run = "call_tool demo_world 7 None demo_add_bob demo_operated"
  have "(case fst ?run of Inr (OutEnqueued res) \<Rightarrow> er_id res = 1 | _ \<Rightarrow> False)" by code_simp
  then obtain res where res: "fst ?run = Inr (OutEnqueued res)" "er_id res = 1" by (auto split: sum.splits tool_result.splits)
  have inv: "schema demo_world (db_tabs demo_operated) (db_seqs demo_operated)"
    by (simp add: demo_operated_def demo_simps schema_def ok_defs grantee_status_ok_def)
  have req: "tool_request None demo_add_bob = Some (AddGrantee ''bob'' [])" by code_simp
  have "list_all valid_utf8 (request_texts (AddGrantee ''bob'' []))" by code_simp
  then have texts: "\<forall>r \<in> set_option (tool_request None demo_add_bob). list_all valid_utf8 (request_texts r)" by (simp add: req)
  have kept: "lookup_by ac_id (er_id res) (t_actions (db_tabs demo_ready)) =
      lookup_by ac_id (er_id res) (t_actions (db_tabs (snd ?run)))" unfolding res(2) by code_simp
  obtain s' where ok: "approve_action demo_world (dispatch (service_registry demo_world 9)) 9 ''1'' demo_body demo_ready =
     (Inr (200, ApprovedBody 1 ''executed''), s')"
    using served_signature_approves[OF demo_case] by blast
  have id: "parse_id ''1'' = Some (er_id res)" using demo_parse_id res(2) by simp
  from approved_tool_call_performed[OF pair_of_fst[OF res(1)] inv demo_jsonb texts kept ok id] req show ?thesis by auto
qed

end
